(* ===== verification/Prelude.thy ===== *)
theory Prelude
  imports Main "HOL-Library.Word"
begin

text \<open>
  Shared vocabulary of the development: the Go types the components use (durations and instants
  in nanoseconds, addresses, fixed-width counters), the decimal conversions of \<^verbatim>\<open>strconv\<close>, the
  slice operations the loops use, and an interface for state machines whose invariant is kept by
  every step.  The collections \<open>go_simps\<close> and \<open>inv_simps\<close> gather the unfolding facts that the
  component proofs share.
\<close>

named_theorems go_simps "unfolding facts for Go's integer and slice operations"
named_theorems inv_simps "definitions of component invariants"

type_synonym go_time = int        \<comment> \<open>nanoseconds since the zero value of time.Time\<close>
type_synonym go_duration = int    \<comment> \<open>time.Duration in nanoseconds\<close>
type_synonym addr = string
type_synonym u32 = "32 word"
type_synonym u64 = "64 word"
type_synonym byte = "8 word"

section \<open>Machine integers\<close>

text \<open>Go's \<^verbatim>\<open>int\<close> and \<^verbatim>\<open>int64\<close> arithmetic wraps around in two's complement.\<close>

definition max_int64 :: int where
  "max_int64 = 2 ^ 63 - 1"

definition min_int64 :: int where
  "min_int64 = - (2 ^ 63)"

definition max_int32 :: int where
  "max_int32 = 2 ^ 31 - 1"

definition wrap64 :: "int \<Rightarrow> int" where
  "wrap64 x = (x + 2 ^ 63) mod 2 ^ 64 - 2 ^ 63"

definition in_int64 :: "int \<Rightarrow> bool" where
  "in_int64 x \<longleftrightarrow> min_int64 \<le> x \<and> x \<le> max_int64"

text \<open>\<^verbatim>\<open>uint32(v)\<close> for an \<^verbatim>\<open>int\<close> keeps the low 32 bits.\<close>

definition to_u32 :: "int \<Rightarrow> u32" where
  "to_u32 x = word_of_int x"

definition second :: go_duration where
  "second = 1000000000"

text \<open>\<^verbatim>\<open>t.Sub(u)\<close> saturates at the limits of a Duration.\<close>

definition time_sub :: "go_time \<Rightarrow> go_time \<Rightarrow> go_duration" where
  "time_sub t u = max min_int64 (min max_int64 (t - u))"

section \<open>Decimal text\<close>

definition digit_char :: "nat \<Rightarrow> char" where
  "digit_char d = char_of (48 + d)"

definition is_digit :: "char \<Rightarrow> bool" where
  "is_digit c \<longleftrightarrow> 48 \<le> (of_char c :: nat) \<and> (of_char c :: nat) \<le> 57"

definition digit_val :: "char \<Rightarrow> nat" where
  "digit_val c = of_char c - 48"

fun nat_digits :: "nat \<Rightarrow> string" where
  "nat_digits n = (if n < 10 then [digit_char n] else nat_digits (n div 10) @ [digit_char (n mod 10)])"

declare nat_digits.simps [simp del]

definition int_digits :: "int \<Rightarrow> string" where
  "int_digits i = (if i < 0 then ''-'' @ nat_digits (nat (- i)) else nat_digits (nat i))"

definition digits_val :: "string \<Rightarrow> nat" where
  "digits_val s = foldl (\<lambda>a c. 10 * a + digit_val c) 0 s"

text \<open>
  \<^verbatim>\<open>strconv.Atoi\<close>: an optional sign, then one or more decimal digits, then the range check of a
  64-bit \<^verbatim>\<open>int\<close>.  The error carries no information the callers use.
\<close>

definition atoi :: "string \<Rightarrow> int option" where
  "atoi s =
     (let neg = (s \<noteq> [] \<and> hd s = CHR ''-'');
          body = (if s \<noteq> [] \<and> (hd s = CHR ''-'' \<or> hd s = CHR ''+'') then tl s else s)
      in if body = [] \<or> \<not> list_all is_digit body then None
         else let v = (if neg then - int (digits_val body) else int (digits_val body))
              in if in_int64 v then Some v else None)"

text \<open>
  The value \<^verbatim>\<open>strconv.Atoi\<close> returns beside its error: 0 on a syntax error, the nearest limit of
  \<^verbatim>\<open>int\<close> on a range error.  The flag tells whether the error is nil.
\<close>

definition Atoi :: "string \<Rightarrow> int \<times> bool" where
  "Atoi s =
     (case atoi s of
        Some v \<Rightarrow> (v, True)
      | None \<Rightarrow>
          (let body = (if s \<noteq> [] \<and> (hd s = CHR ''-'' \<or> hd s = CHR ''+'') then tl s else s)
           in if body = [] \<or> \<not> list_all is_digit body then (0, False)
              else if hd s = CHR ''-'' then (min_int64, False) else (max_int64, False)))"

text \<open>\<^verbatim>\<open>strings.SplitN(s, sep, n)\<close> for a one-character separator.\<close>

fun split_n :: "nat \<Rightarrow> char \<Rightarrow> string \<Rightarrow> string list" where
  "split_n 0 c s = []"
| "split_n (Suc 0) c s = [s]"
| "split_n (Suc (Suc n)) c s =
     (let a = takeWhile (\<lambda>x. x \<noteq> c) s; r = dropWhile (\<lambda>x. x \<noteq> c) s
      in if r = [] then [a] else a # split_n (Suc n) c (tl r))"

section \<open>State machines\<close>

text \<open>
  A component whose operations interleave is given by its events: \<open>step e s\<close> is the state after
  \<open>e\<close>, or \<open>None\<close> where the code cannot perform \<open>e\<close> in \<open>s\<close>.  A schedule is a list of events.
\<close>

fun exec :: "('e \<Rightarrow> 's \<Rightarrow> 's option) \<Rightarrow> 'e list \<Rightarrow> 's \<Rightarrow> 's option" where
  "exec step [] s = Some s"
| "exec step (e # es) s = (case step e s of None \<Rightarrow> None | Some t \<Rightarrow> exec step es t)"

lemma exec_append:
  "exec step (xs @ ys) s = (case exec step xs s of None \<Rightarrow> None | Some t \<Rightarrow> exec step ys t)"
  by (induction xs arbitrary: s) (auto split: option.splits)

text \<open>The contract of a state machine: what its invariant promises and that every step keeps it.\<close>

locale invariant_machine =
  fixes step :: "'e \<Rightarrow> 's \<Rightarrow> 's option"
    and inv :: "'s \<Rightarrow> bool"
  assumes step_inv: "inv s \<Longrightarrow> step e s = Some t \<Longrightarrow> inv t"
begin

lemma exec_inv: "inv s \<Longrightarrow> exec step es s = Some t \<Longrightarrow> inv t"
proof (induction es arbitrary: s)
  case Nil
  then show ?case by simp
next
  case (Cons e es)
  from Cons.prems(2) obtain u where u: "step e s = Some u" "exec step es u = Some t"
    by (auto split: option.splits)
  from step_inv [OF Cons.prems(1) u(1)] u(2) show ?case by (rule Cons.IH)
qed

lemma exec_inv_prefix:
  assumes "inv s" and "exec step (es @ fs) s = Some t"
  shows "\<exists>u. exec step es s = Some u \<and> inv u \<and> exec step fs u = Some t"
  using assms exec_inv [of s es] by (auto simp: exec_append split: option.splits)

end

section \<open>Shared lemmas\<close>

lemma wrap64_id: "in_int64 x \<Longrightarrow> wrap64 x = x"
  by (simp add: wrap64_def in_int64_def min_int64_def max_int64_def)

lemma wrap64_range: "in_int64 (wrap64 x)"
  by (simp add: wrap64_def in_int64_def min_int64_def max_int64_def)

lemma sum_list_update_int:
  fixes g :: "'a \<Rightarrow> int"
  assumes "k < length xs"
  shows "sum_list (map g (xs[k := x])) = sum_list (map g xs) + g x - g (xs ! k)"
  using assms by (induction xs arbitrary: k) (auto split: nat.splits)

lemma sum_list_update_less:
  fixes g :: "'a \<Rightarrow> nat"
  assumes "k < length xs" and "g x < g (xs ! k)"
  shows "sum_list (map g (xs[k := x])) < sum_list (map g xs)"
  using assms by (induction xs arbitrary: k) (auto split: nat.splits)

lemma of_char_digit_char: "d < 10 \<Longrightarrow> (of_char (digit_char d) :: nat) = 48 + d"
  by (simp add: digit_char_def)

lemma digit_char_props [simp]:
  assumes "d < 10"
  shows "is_digit (digit_char d)" and "digit_val (digit_char d) = d"
  using assms by (simp_all add: is_digit_def digit_val_def of_char_digit_char)

lemma nat_digits_nonempty [simp]: "nat_digits n \<noteq> []"
  by (subst nat_digits.simps) simp

lemma nat_digits_all_digits [simp]: "list_all is_digit (nat_digits n)"
proof (induction n rule: nat_digits.induct)
  case (1 n)
  then show ?case by (cases "n < 10") (simp_all add: nat_digits.simps [of n])
qed

lemma digits_val_snoc: "digits_val (s @ [c]) = 10 * digits_val s + digit_val c"
  by (simp add: digits_val_def)

lemma digits_val_nat_digits [simp]: "digits_val (nat_digits n) = n"
proof (induction n rule: nat_digits.induct)
  case (1 n)
  show ?case
  proof (cases "n < 10")
    case True
    then show ?thesis by (simp add: nat_digits.simps [of n] digits_val_def)
  next
    case False
    with 1 show ?thesis by (simp add: nat_digits.simps [of n] digits_val_snoc)
  qed
qed

lemma nat_digits_inject [simp]: "nat_digits m = nat_digits n \<longleftrightarrow> m = n"
  by (metis digits_val_nat_digits)

lemma nat_digits_set: "c \<in> set (nat_digits n) \<Longrightarrow> is_digit c"
  using nat_digits_all_digits [of n] by (simp add: list_all_iff)

lemma not_digit [simp]:
  "\<not> is_digit (CHR ''-'')" "\<not> is_digit (CHR ''+'')" "\<not> is_digit (CHR '':'')"
  by (simp_all add: is_digit_def)

lemma hd_nat_digits: "is_digit (hd (nat_digits n))"
  by (rule nat_digits_set [of _ n]) simp

lemma atoi_int_digits: "in_int64 i \<Longrightarrow> atoi (int_digits i) = Some i"
  using hd_nat_digits [of "nat i"]
  by (auto simp: atoi_def int_digits_def Let_def)

lemma Atoi_int_digits [simp]: "in_int64 i \<Longrightarrow> Atoi (int_digits i) = (i, True)"
  by (simp add: Atoi_def atoi_int_digits)

lemma int_digits_no_colon: "CHR '':'' \<notin> set (int_digits i)"
  using nat_digits_set [of "CHR '':''"] by (auto simp: int_digits_def)

lemma split_n_one:
  assumes "c \<notin> set a"
  shows "split_n (Suc (Suc n)) c (a @ c # r) = a # split_n (Suc n) c r"
proof -
  have "takeWhile (\<lambda>x. x \<noteq> c) (a @ c # r) = a" "dropWhile (\<lambda>x. x \<noteq> c) (a @ c # r) = c # r"
    using assms by (auto simp: takeWhile_tail dropWhile_append3 intro!: takeWhile_eq_all_conv [THEN iffD2])
  then show ?thesis by simp
qed

end
