(* ===== verification/Eventlog.thy ===== *)
theory Eventlog
  imports Prelude
begin

text \<open>
  The bounded event log of \<^verbatim>\<open>v4/eventlog/eventlog.go\<close>: a slice used as a ring, with adjacent
  duplicates coalesced into one counted entry.  The abstract view \<open>log_view\<close> is the list of
  entries, newest first; the interface \<open>bounded_log\<close> states what \<^verbatim>\<open>Add\<close> promises about it, and the
  ring is interpreted as an implementation.
\<close>

section \<open>The ring\<close>

record entry =
  tstamp :: go_time
  message :: string
  count :: nat

record recent =
  elements :: "entry list"
  lastpos :: nat
  capacity :: nat  \<comment> \<open>cap(p.elements)\<close>

definition NewRecent :: "nat \<Rightarrow> recent" where
  "NewRecent sizelimit = \<lparr>elements = [], lastpos = 0, capacity = sizelimit\<rparr>"

text \<open>\<^verbatim>\<open>if pos--; pos < 0 { pos = len(p.elements) - 1 }\<close>\<close>

definition prev_pos :: "recent \<Rightarrow> nat \<Rightarrow> nat" where
  "prev_pos p pos = (if pos = 0 then length (elements p) - 1 else pos - 1)"

text \<open>\<open>None\<close> is the index panic of \<^verbatim>\<open>p.elements[p.lastpos]\<close> (or of the division by the capacity).\<close>

definition Add :: "go_time \<Rightarrow> string \<Rightarrow> recent \<Rightarrow> recent option" where
  "Add timestamp msg p =
     (let pos = prev_pos p (lastpos p);
          last = elements p ! pos;
          element = \<lparr>tstamp = timestamp, message = msg, count = 1\<rparr>
      in if elements p \<noteq> [] \<and> \<not> pos < length (elements p) then None
         else if elements p \<noteq> [] \<and> message last = msg
         then Some (p\<lparr>elements := (elements p)[pos := last\<lparr>tstamp := timestamp, count := Suc (count last)\<rparr>]\<rparr>)
         else if length (elements p) < capacity p
         then Some (p\<lparr>elements := elements p @ [element], lastpos := (lastpos p + 1) mod capacity p\<rparr>)
         else if lastpos p < length (elements p)
         then Some (p\<lparr>elements := (elements p)[lastpos p := element],
                      lastpos := (lastpos p + 1) mod length (elements p)\<rparr>)
         else None)"

text \<open>One line of \<^verbatim>\<open>Format\<close>; \<open>fmt\<close> renders an instant with the layout of the logging library.\<close>

definition format_entry :: "(go_time \<Rightarrow> string) \<Rightarrow> entry \<Rightarrow> string" where
  "format_entry fmt e =
     (if count e = 1 then fmt (tstamp e) @ '' '' @ message e @ [CHR 0x0A]
      else fmt (tstamp e) @ '' '' @ message e @ '' (x'' @ nat_digits (count e) @ '')'' @ [CHR 0x0A])"

text \<open>
  The loop of \<^verbatim>\<open>Format\<close>: \<open>wr\<close> is the writer's \<^verbatim>\<open>Write\<close> (an error stops the loop and is returned),
  \<open>k\<close> the iterations left.
\<close>

fun Format_loop ::
  "(go_time \<Rightarrow> string) \<Rightarrow> ('w \<Rightarrow> string \<Rightarrow> 'err option \<times> 'w) \<Rightarrow> recent \<Rightarrow> nat \<Rightarrow> nat \<Rightarrow> 'w \<Rightarrow> 'err option \<times> 'w" where
  "Format_loop fmt wr p 0 pos w = (None, w)"
| "Format_loop fmt wr p (Suc k) pos w =
     (let pos' = prev_pos p pos
      in case wr w (format_entry fmt (elements p ! pos')) of
           (Some err, w') \<Rightarrow> (Some err, w')
         | (None, w') \<Rightarrow> Format_loop fmt wr p k pos' w')"

definition Format ::
  "(go_time \<Rightarrow> string) \<Rightarrow> ('w \<Rightarrow> string \<Rightarrow> 'err option \<times> 'w) \<Rightarrow> recent \<Rightarrow> int \<Rightarrow> 'w \<Rightarrow> 'err option \<times> 'w" where
  "Format fmt wr p n w =
     (let n' = (if n > int (length (elements p)) then int (length (elements p)) else n)
      in Format_loop fmt wr p (nat n') (lastpos p) w)"

section \<open>Abstract log and invariant\<close>

definition log_view :: "recent \<Rightarrow> entry list" where
  "log_view p = rev (drop (lastpos p) (elements p) @ take (lastpos p) (elements p))"

definition recent_inv :: "recent \<Rightarrow> bool" where
  "recent_inv p \<longleftrightarrow> 0 < capacity p \<and> length (elements p) \<le> capacity p \<and> lastpos p < capacity p \<and>
     (length (elements p) < capacity p \<longrightarrow> lastpos p = length (elements p)) \<and>
     (\<forall>e \<in> set (elements p). 0 < count e)"

text \<open>What adding an event means for a newest-first log of at most \<open>c\<close> entries.\<close>

fun spec_add :: "nat \<Rightarrow> go_time \<Rightarrow> string \<Rightarrow> entry list \<Rightarrow> entry list" where
  "spec_add c ts msg [] = [\<lparr>tstamp = ts, message = msg, count = 1\<rparr>]"
| "spec_add c ts msg (e # es) =
     (if message e = msg then e\<lparr>tstamp := ts, count := Suc (count e)\<rparr> # es
      else take c (\<lparr>tstamp = ts, message = msg, count = 1\<rparr> # e # es))"

text \<open>A sequence of events, oldest first.\<close>

fun add_seq :: "(go_time \<Rightarrow> string \<Rightarrow> 'l \<Rightarrow> 'l option) \<Rightarrow> (go_time \<times> string) list \<Rightarrow> 'l \<Rightarrow> 'l option" where
  "add_seq add [] l = Some l"
| "add_seq add (x # xs) l = (case add (fst x) (snd x) l of None \<Rightarrow> None | Some l' \<Rightarrow> add_seq add xs l')"

section \<open>Lemmas on the abstract log\<close>

definition total_count :: "entry list \<Rightarrow> nat" where
  "total_count es = sum_list (map count es)"

lemma spec_add_nonempty: "0 < c \<Longrightarrow> spec_add c ts msg es \<noteq> []"
  by (cases es) auto

lemma spec_add_head: "0 < c \<Longrightarrow> message (hd (spec_add c ts msg es)) = msg \<and> tstamp (hd (spec_add c ts msg es)) = ts"
  by (cases es; cases c) auto

lemma sum_list_take_le: "sum_list (take k xs) \<le> sum_list (xs :: nat list)"
  by (metis append_take_drop_id le_add1 sum_list_append)

lemma spec_add_sum:
  assumes "length es \<le> c"
  shows "total_count (spec_add c ts msg es) \<le> Suc (total_count es)
    \<and> (length es < c \<longrightarrow> total_count (spec_add c ts msg es) = Suc (total_count es))"
proof (cases es)
  case (Cons e rest)
  have "sum_list (map count (take k (e # rest))) \<le> count e + sum_list (map count rest)" for k
    using sum_list_take_le [of k "map count (e # rest)"] by (simp only: take_map) simp
  with Cons assms show ?thesis
    by (cases c) (auto simp: total_count_def)
qed (simp add: total_count_def)

lemma add_seq_append:
  "add_seq add (xs @ ys) l = (case add_seq add xs l of None \<Rightarrow> None | Some l' \<Rightarrow> add_seq add ys l')"
  by (induction xs arbitrary: l) (auto split: option.splits)

lemma spec_add_length: "length es \<le> c \<Longrightarrow> 0 < c \<Longrightarrow>
    length es \<le> length (spec_add c ts msg es) \<and> length (spec_add c ts msg es) \<le> c"
  by (cases es) auto

lemma fold_spec_add_length: "length es \<le> c \<Longrightarrow> 0 < c \<Longrightarrow>
    length es \<le> length (fold (\<lambda>x. spec_add c (fst x) (snd x)) xs es)"
proof (induction xs arbitrary: es)
  case (Cons x xs)
  have "length (spec_add c (fst x) (snd x) es) \<le> c" and "length es \<le> length (spec_add c (fst x) (snd x) es)"
    using spec_add_length [OF Cons.prems] by auto
  with Cons.IH [OF this(1) Cons.prems(2)] show ?case by simp
qed simp

section \<open>The interface of a bounded log\<close>

locale bounded_log =
  fixes add :: "go_time \<Rightarrow> string \<Rightarrow> 'l \<Rightarrow> 'l option"
    and view :: "'l \<Rightarrow> entry list"
    and inv :: "'l \<Rightarrow> bool"
    and size_limit :: "'l \<Rightarrow> nat"
  assumes add_total: "inv l \<Longrightarrow> \<exists>l'. add ts msg l = Some l'"
    and add_view: "inv l \<Longrightarrow> add ts msg l = Some l' \<Longrightarrow> view l' = spec_add (size_limit l) ts msg (view l)"
    and add_inv: "inv l \<Longrightarrow> add ts msg l = Some l' \<Longrightarrow> inv l'"
    and add_limit: "inv l \<Longrightarrow> add ts msg l = Some l' \<Longrightarrow> size_limit l' = size_limit l"
    and inv_limit: "inv l \<Longrightarrow> 0 < size_limit l \<and> length (view l) \<le> size_limit l"
begin

lemma add_all_total:
  "inv l \<Longrightarrow> \<exists>l'. add_seq add xs l = Some l' \<and> inv l' \<and> size_limit l' = size_limit l
     \<and> view l' = fold (\<lambda>x. spec_add (size_limit l) (fst x) (snd x)) xs (view l)"
proof (induction xs arbitrary: l)
  case Nil
  then show ?case by simp
next
  case (Cons x xs)
  obtain l1 where l1: "add (fst x) (snd x) l = Some l1"
    using add_total [OF Cons.prems] by blast
  show ?case
    using Cons.IH [OF add_inv [OF Cons.prems l1]] l1
      add_view [OF Cons.prems l1] add_limit [OF Cons.prems l1] by simp
qed

text \<open>The newest entry is the event added last, and a log that never filled up lost nothing.\<close>

lemma add_all_newest:
  assumes "inv l" and "add_seq add (xs @ [x]) l = Some l'"
  shows "view l' \<noteq> [] \<and> message (hd (view l')) = snd x \<and> tstamp (hd (view l')) = fst x"
proof -
  obtain l1 where l1: "inv l1" "size_limit l1 = size_limit l" "add_seq add (xs @ [x]) l = add (fst x) (snd x) l1"
    using add_all_total [OF assms(1), of xs] add_all_total [OF assms(1), of "xs @ [x]"]
    by (auto simp: add_seq_append split: option.splits)
  with assms(2) have "view l' = spec_add (size_limit l1) (fst x) (snd x) (view l1)"
    using add_view by simp
  with inv_limit [OF l1(1)] show ?thesis using spec_add_nonempty spec_add_head by metis
qed

lemma add_all_count:
  "inv l \<Longrightarrow> add_seq add xs l = Some l' \<Longrightarrow>
     total_count (view l') \<le> total_count (view l) + length xs
     \<and> (length (view l') < size_limit l' \<longrightarrow> total_count (view l') = total_count (view l) + length xs)"
proof (induction xs arbitrary: l)
  case Nil
  then show ?case by simp
next
  case (Cons x xs)
  then obtain l1 where l1: "add (fst x) (snd x) l = Some l1" "add_seq add xs l1 = Some l'"
    by (auto split: option.splits)
  have v: "view l1 = spec_add (size_limit l) (fst x) (snd x) (view l)" "size_limit l1 = size_limit l" "inv l1"
    using l1(1) add_view add_limit add_inv Cons.prems(1) by auto
  have mono: "length (view l1) \<le> length (view l')"
    using add_all_total [OF v(3), of xs] l1(2) fold_spec_add_length inv_limit [OF v(3)] by auto
  have lim: "size_limit l' = size_limit l1" using add_all_total [OF v(3), of xs] l1(2) by auto
  have "length (view l1) < size_limit l \<Longrightarrow> length (view l) < size_limit l"
    using v(1) spec_add_length [of "view l" "size_limit l" "fst x" "snd x"] inv_limit [OF Cons.prems(1)] by simp
  then show ?case
    using Cons.IH [OF v(3) l1(2)] spec_add_sum [of "view l" "size_limit l" "fst x" "snd x"]
      inv_limit [OF Cons.prems(1)] v mono lim by fastforce
qed

end

section \<open>The ring implements the log\<close>

lemma log_view_length [simp]: "length (log_view p) = length (elements p)"
  by (simp add: log_view_def)

lemma log_view_set [simp]: "set (log_view p) = set (elements p)"
proof -
  have "set (elements p) = set (take (lastpos p) (elements p) @ drop (lastpos p) (elements p))"
    by (simp only: append_take_drop_id)
  then show ?thesis by (auto simp: log_view_def simp del: append_take_drop_id)
qed

text \<open>The newest entry sits just before \<open>lastpos\<close>, cyclically.\<close>

lemma log_view_nth:
  assumes "recent_inv p" and "k < length (elements p)"
  shows "log_view p ! k = elements p !
           (if k < lastpos p then lastpos p - 1 - k else length (elements p) + lastpos p - 1 - k)"
proof -
  let ?l = "lastpos p" and ?es = "elements p"
  have l: "?l \<le> length ?es" using assms(1) by (cases "length ?es < capacity p") (auto simp: recent_inv_def)
  have "log_view p ! k = (drop ?l ?es @ take ?l ?es) ! (length ?es - 1 - k)"
    using assms(2) l by (simp only: log_view_def rev_nth length_append length_drop length_take) simp
  then show ?thesis
    using assms(2) l by (auto simp: nth_append min_def intro!: arg_cong [where f = "(!) ?es"])
qed

lemma prev_pos_mod:
  assumes "recent_inv p" and "elements p \<noteq> []"
  shows "prev_pos p (lastpos p) < length (elements p)"
    and "log_view p = elements p ! prev_pos p (lastpos p) # tl (log_view p)"
proof -
  have l: "lastpos p \<le> length (elements p)"
    using assms(1) by (cases "length (elements p) < capacity p") (auto simp: recent_inv_def)
  then show "prev_pos p (lastpos p) < length (elements p)"
    using assms(2) by (cases "elements p") (auto simp: prev_pos_def)
  have "log_view p ! 0 = elements p ! prev_pos p (lastpos p)"
    using log_view_nth [OF assms(1), of 0] assms(2) l by (auto simp: prev_pos_def)
  moreover have "log_view p \<noteq> []" using assms(2) by (metis length_0_conv log_view_length)
  ultimately show "log_view p = elements p ! prev_pos p (lastpos p) # tl (log_view p)"
    by (metis hd_conv_nth list.collapse)
qed

lemma Add_coalesce_view:
  assumes "recent_inv p" and "elements p \<noteq> []"
  shows "log_view (p\<lparr>elements := (elements p)[prev_pos p (lastpos p) := e]\<rparr>) = e # tl (log_view p)"
proof (cases "lastpos p = 0")
  case True
  then show ?thesis using assms(2)
    by (cases "elements p" rule: rev_cases) (auto simp: log_view_def prev_pos_def)
next
  case False
  define k where "k = lastpos p - 1"
  have lp: "lastpos p = Suc k" and pp: "prev_pos p (lastpos p) = k"
    using False by (auto simp: k_def prev_pos_def)
  have "Suc k \<le> length (elements p)"
    using assms lp by (cases "length (elements p) < capacity p") (auto simp: recent_inv_def)
  then show ?thesis
    using pp lp by (simp add: log_view_def take_Suc_conv_app_nth)
qed

lemma Add_wrap_view:
  assumes "recent_inv p" and "length (elements p) = capacity p"
  shows "log_view (p\<lparr>elements := (elements p)[lastpos p := e], lastpos := (lastpos p + 1) mod length (elements p)\<rparr>)
       = take (capacity p) (e # log_view p)"
proof -
  let ?l = "lastpos p" and ?es = "elements p"
  have l: "?l < length ?es" using assms by (simp add: recent_inv_def)
  then have d: "drop ?l ?es = ?es ! ?l # drop (Suc ?l) ?es" by (simp add: Cons_nth_drop_Suc)
  have "take (capacity p) (e # log_view p) = e # rev (drop (Suc ?l) ?es @ take ?l ?es)"
    using l assms(2) [symmetric] by (cases "elements p = []") (simp_all add: log_view_def d take_Cons')
  moreover have "log_view (p\<lparr>elements := ?es[?l := e], lastpos := (?l + 1) mod length ?es\<rparr>)
      = e # rev (drop (Suc ?l) ?es @ take ?l ?es)"
  proof (cases "Suc ?l = length ?es")
    case True
    then have "?es[?l := e] = take ?l ?es @ [e]"
      using l by (simp add: upd_conv_take_nth_drop)
    with True show ?thesis by (simp add: log_view_def)
  next
    case False
    with l have "Suc ?l < length ?es" by simp
    then show ?thesis
      using l by (simp add: log_view_def take_Suc_conv_app_nth)
  qed
  ultimately show ?thesis by simp
qed

lemma Add_refines:
  assumes inv: "recent_inv p"
  shows "\<exists>p'. Add ts msg p = Some p' \<and> recent_inv p' \<and> capacity p' = capacity p
           \<and> log_view p' = spec_add (capacity p) ts msg (log_view p)"
proof (cases "elements p = []")
  case True
  then show ?thesis using inv
    by (auto simp: Add_def recent_inv_def log_view_def mod_Suc)
next
  case False
  let ?pos = "prev_pos p (lastpos p)" and ?es = "elements p"
  let ?new = "\<lparr>tstamp = ts, message = msg, count = 1\<rparr>"
  note pos = prev_pos_mod [OF inv False]
  have cap: "0 < capacity p" "lastpos p < capacity p" using inv by (auto simp: recent_inv_def)
  have view: "spec_add (capacity p) ts msg (log_view p) =
      (if message (?es ! ?pos) = msg
       then (?es ! ?pos)\<lparr>tstamp := ts, count := Suc (count (?es ! ?pos))\<rparr> # tl (log_view p)
       else take (capacity p) (?new # log_view p))"
    by (subst pos(2), subst (2) pos(2)) simp
  consider (same) "message (?es ! ?pos) = msg"
    | (grow) "message (?es ! ?pos) \<noteq> msg" "length ?es < capacity p"
    | (full) "message (?es ! ?pos) \<noteq> msg" "length ?es = capacity p"
    using inv by (fastforce simp: recent_inv_def)
  then show ?thesis
  proof cases
    case same
    then show ?thesis
      using inv False pos(1) Add_coalesce_view [OF inv False] view
      by (auto simp: Add_def Let_def recent_inv_def dest!: set_update_subset_insert [THEN subsetD])
  next
    case grow
    then have "lastpos p = length ?es" using inv by (simp add: recent_inv_def)
    with grow show ?thesis
      using inv False pos(1) view cap
      by (auto simp: Add_def Let_def recent_inv_def log_view_def mod_Suc take_Cons')
  next
    case full
    then show ?thesis
      using inv False pos(1) view cap Add_wrap_view [OF inv full(2), of ?new]
      by (auto simp: Add_def Let_def recent_inv_def dest!: set_update_subset_insert [THEN subsetD])
  qed
qed

interpretation ring: bounded_log Add log_view recent_inv capacity
proof unfold_locales
  fix l ts msg l'
  assume inv: "recent_inv l"
  show "\<exists>l'. Add ts msg l = Some l'" using Add_refines [OF inv] by blast
  assume "Add ts msg l = Some l'"
  then show "log_view l' = spec_add (capacity l) ts msg (log_view l)" and "recent_inv l'"
    and "capacity l' = capacity l"
    using Add_refines [OF inv, of ts msg] by auto
qed (auto simp: recent_inv_def)

lemma NewRecent_inv: "0 < n \<Longrightarrow> recent_inv (NewRecent n)"
  by (simp add: NewRecent_def recent_inv_def)

lemma NewRecent_view [simp]: "log_view (NewRecent n) = []" "capacity (NewRecent n) = n"
  by (simp_all add: NewRecent_def log_view_def)

section \<open>Format walks the log newest first\<close>

fun write_all :: "('w \<Rightarrow> string \<Rightarrow> 'err option \<times> 'w) \<Rightarrow> string list \<Rightarrow> 'w \<Rightarrow> 'err option \<times> 'w" where
  "write_all wr [] w = (None, w)"
| "write_all wr (s # ss) w =
     (case wr w s of (Some err, w') \<Rightarrow> (Some err, w') | (None, w') \<Rightarrow> write_all wr ss w')"

lemma Format_loop_view:
  assumes "recent_inv p" and "j + k \<le> length (elements p)"
    and "pos = (if j \<le> lastpos p then lastpos p - j else length (elements p) + lastpos p - j)"
  shows "Format_loop fmt wr p k pos w = write_all wr (map (format_entry fmt) (take k (drop j (log_view p)))) w"
  using assms(2,3)
proof (induction k arbitrary: j pos w)
  case 0
  then show ?case by simp
next
  case (Suc k)
  have l: "lastpos p \<le> length (elements p)"
    using assms(1) by (cases "length (elements p) < capacity p") (auto simp: recent_inv_def)
  have j: "j < length (elements p)" using Suc.prems(1) by simp
  have pos': "prev_pos p pos = (if j < lastpos p then lastpos p - 1 - j else length (elements p) + lastpos p - 1 - j)"
    using Suc.prems j l by (auto simp: prev_pos_def split: if_splits)
  then have e: "elements p ! prev_pos p pos = log_view p ! j"
    using log_view_nth [OF assms(1) j] by simp
  have d: "take (Suc k) (drop j (log_view p)) = log_view p ! j # take k (drop (Suc j) (log_view p))"
    using j by (simp add: Cons_nth_drop_Suc [symmetric])
  have IH: "Format_loop fmt wr p k (prev_pos p pos) w'
      = write_all wr (map (format_entry fmt) (take k (drop (Suc j) (log_view p)))) w'" for w'
    using Suc.prems(1) pos' by (intro Suc.IH) auto
  show ?case by (simp add: Let_def e IH d split: prod.splits option.splits)
qed

lemma Format_view:
  assumes "recent_inv p"
  shows "Format fmt wr p n w = write_all wr (map (format_entry fmt) (take (nat n) (log_view p))) w"
proof -
  have "take (nat (if n > int (length (elements p)) then int (length (elements p)) else n)) (log_view p)
      = take (nat n) (log_view p)"
    by (auto simp: nat_le_iff)
  then show ?thesis
    using Format_loop_view [OF assms, of 0 _ "lastpos p" fmt wr w]
    by (simp add: Format_def Let_def nat_le_iff)
qed

section \<open>Properties\<close>

text \<open>(C40) Starting from an empty log with room for \<open>n > 0\<close> entries, any sequence of \<^verbatim>\<open>Add\<close> calls
  returns (no index is ever out of range) and leaves exactly the entries of the abstract bounded log:
  adjacent equal messages coalesced with their count, the oldest entries dropped once \<open>n\<close> are held.\<close>

theorem eventlog_refines:
  assumes "0 < n"
  shows "\<exists>p. add_seq Add xs (NewRecent n) = Some p
           \<and> log_view p = fold (\<lambda>x. spec_add n (fst x) (snd x)) xs []
           \<and> length (elements p) \<le> n"
  using ring.add_all_total [OF NewRecent_inv [OF assms], of xs]
  by (auto simp: recent_inv_def)

theorem eventlog_refines_witness:
  "\<exists>p. add_seq Add [(1, ''a''), (2, ''a''), (3, ''b''), (4, ''c'')] (NewRecent 2) = Some p
     \<and> log_view p = [\<lparr>tstamp = 4, message = ''c'', count = 1\<rparr>, \<lparr>tstamp = 3, message = ''b'', count = 1\<rparr>]"
  using eventlog_refines [of 2 "[(1, ''a''), (2, ''a''), (3, ''b''), (4, ''c'')]"]
  by (auto simp: numeral_2_eq_2)

text \<open>The counts in the log never exceed the number of events added, and as long as the log is
  not full every event is accounted for: the counts sum up to exactly the number of \<^verbatim>\<open>Add\<close> calls.\<close>

theorem eventlog_counts:
  assumes "0 < n" and "add_seq Add xs (NewRecent n) = Some p"
  shows "total_count (log_view p) \<le> length xs
    \<and> (length (elements p) < n \<longrightarrow> total_count (log_view p) = length xs)"
  using ring.add_all_count [OF NewRecent_inv [OF assms(1)] assms(2)]
    ring.add_all_total [OF NewRecent_inv [OF assms(1)], of xs] assms(2)
  by (auto simp: total_count_def)

theorem eventlog_counts_witness:
  "\<exists>p. add_seq Add [(1, ''a''), (2, ''a''), (3, ''b'')] (NewRecent 5) = Some p \<and> total_count (log_view p) = 3"
proof -
  let ?p = "\<lparr>elements = [\<lparr>tstamp = 2, message = ''a'', count = 2\<rparr>, \<lparr>tstamp = 3, message = ''b'', count = 1\<rparr>],
    lastpos = 2, capacity = 5\<rparr>"
  have r: "add_seq Add [(1, ''a''), (2, ''a''), (3, ''b'')] (NewRecent 5) = Some ?p"
    by (simp add: NewRecent_def Add_def prev_pos_def)
  with eventlog_counts [OF _ r] show ?thesis by auto
qed

text \<open>\<^verbatim>\<open>Format(w, n)\<close> writes the \<open>n\<close> newest entries of the log, newest first, one line each, and
  stops at the first write error, which it returns; the most recently added event comes first.\<close>

theorem Format_newest_first:
  assumes "0 < n" and "add_seq Add (xs @ [x]) (NewRecent n) = Some p"
  shows "Format fmt wr p k w = write_all wr (map (format_entry fmt) (take (nat k) (log_view p))) w
    \<and> log_view p \<noteq> [] \<and> message (hd (log_view p)) = snd x"
  using ring.add_all_total [OF NewRecent_inv [OF assms(1)], of "xs @ [x]"] assms(2)
    ring.add_all_newest [OF NewRecent_inv [OF assms(1)] assms(2)] Format_view [of p fmt wr k w]
  by auto

theorem Format_newest_first_witness:
  "\<exists>p. add_seq Add ([(1, ''a'')] @ [(2, ''b'')]) (NewRecent 3) = Some p
     \<and> Format (\<lambda>t. ''t'') (\<lambda>w s. (None :: unit option, w @ s)) p 1 '''' = (None, ''t b'' @ [CHR 0x0A])"
proof -
  let ?p = "\<lparr>elements = [\<lparr>tstamp = 1, message = ''a'', count = 1\<rparr>, \<lparr>tstamp = 2, message = ''b'', count = 1\<rparr>],
    lastpos = 2, capacity = 3\<rparr>"
  have r: "add_seq Add ([(1, ''a'')] @ [(2, ''b'')]) (NewRecent 3) = Some ?p"
    by (simp add: NewRecent_def Add_def prev_pos_def)
  have v: "log_view ?p = [\<lparr>tstamp = 2, message = ''b'', count = 1\<rparr>, \<lparr>tstamp = 1, message = ''a'', count = 1\<rparr>]"
    by (simp add: log_view_def)
  have "Format (\<lambda>t. ''t'') (\<lambda>w s. (None :: unit option, w @ s)) ?p 1 ''''
      = write_all (\<lambda>w s. (None, w @ s)) (map (format_entry (\<lambda>t. ''t'')) (take (nat 1) (log_view ?p))) ''''"
    by (rule Format_newest_first [OF _ r, THEN conjunct1]) simp
  then show ?thesis using r v by (auto simp: format_entry_def)
qed

end
