(* ===== verification/Context_Mgr.thy ===== *)
theory Context_Mgr
  imports Prelude
begin

text \<open>
  The context manager of \<^verbatim>\<open>v4/context.go\<close>.  A context is identified by the number of the
  \<^verbatim>\<open>context.WithTimeout\<close> call that made it; the library's part of the state is the set of contexts
  whose cancel function has run and the timeout each was given.  \<open>contexts = None\<close> is the nil map
  that \<^verbatim>\<open>close\<close> leaves behind.
\<close>

type_synonym ctx = nat

record context_mgr =
  contexts :: "ctx set option"
  made :: nat                      \<comment> \<open>contexts created so far\<close>
  cancelled :: "ctx set"
  timeouts :: "ctx \<rightharpoonup> go_duration"

definition new_context_mgr :: context_mgr where
  "new_context_mgr = \<lparr>contexts = Some {}, made = 0, cancelled = {}, timeouts = Map.empty\<rparr>"

definition withTimeout :: "go_duration \<Rightarrow> context_mgr \<Rightarrow> ctx option \<times> context_mgr" where
  "withTimeout timeout m =
     (case contexts m of
        None \<Rightarrow> (None, m)
      | Some S \<Rightarrow> (Some (made m),
          m\<lparr>contexts := Some (insert (made m) S), made := Suc (made m),
            timeouts := (timeouts m)(made m \<mapsto> timeout)\<rparr>))"

definition cancel :: "ctx \<Rightarrow> context_mgr \<Rightarrow> context_mgr" where
  "cancel c m =
     (case contexts m of
        None \<Rightarrow> m
      | Some S \<Rightarrow> if c \<in> S then m\<lparr>cancelled := insert c (cancelled m), contexts := Some (S - {c})\<rparr> else m)"

definition close :: "context_mgr \<Rightarrow> context_mgr" where
  "close m = m\<lparr>cancelled := cancelled m \<union> (case contexts m of None \<Rightarrow> {} | Some S \<Rightarrow> S), contexts := None\<rparr>"

section \<open>Sequences of calls\<close>

datatype ctx_event = WithTimeout go_duration | Cancel ctx | Close

fun ctx_step :: "ctx_event \<Rightarrow> context_mgr \<Rightarrow> context_mgr option" where
  "ctx_step (WithTimeout d) m = Some (snd (withTimeout d m))"
| "ctx_step (Cancel c) m = Some (cancel c m)"
| "ctx_step Close m = Some (close m)"

text \<open>Every context handed out is either still tracked or cancelled, never both.\<close>

definition ctx_inv :: "context_mgr \<Rightarrow> bool" where
  "ctx_inv m \<longleftrightarrow>
     (let live = (case contexts m of None \<Rightarrow> {} | Some S \<Rightarrow> S)
      in live \<inter> cancelled m = {} \<and> live \<union> cancelled m = {..<made m} \<and> dom (timeouts m) = {..<made m})"

declare ctx_inv_def [inv_simps]

lemma withTimeout_inv: "ctx_inv m \<Longrightarrow> ctx_inv (snd (withTimeout d m))"
  by (cases "contexts m") (auto simp: inv_simps Let_def withTimeout_def lessThan_Suc)

lemma cancel_inv: "ctx_inv m \<Longrightarrow> ctx_inv (cancel c m)"
  by (cases "contexts m") (auto simp: inv_simps Let_def cancel_def)

lemma close_inv: "ctx_inv m \<Longrightarrow> ctx_inv (close m)"
  by (cases "contexts m") (simp_all add: inv_simps Let_def close_def Un_commute)

interpretation ctx_machine: invariant_machine ctx_step ctx_inv
proof unfold_locales
  fix s e t
  assume "ctx_inv s" and "ctx_step e s = Some t"
  then show "ctx_inv t"
    by (cases e) (auto intro: withTimeout_inv cancel_inv close_inv)
qed

lemma new_context_mgr_inv: "ctx_inv new_context_mgr"
  by (simp add: new_context_mgr_def inv_simps)

lemma ctx_closed_stays: "contexts m = None \<Longrightarrow> ctx_step e m = Some m' \<Longrightarrow> contexts m' = None"
  by (cases e) (auto simp: withTimeout_def cancel_def close_def)

lemma ctx_exec_closed: "contexts m = None \<Longrightarrow> exec ctx_step es m = Some m' \<Longrightarrow> contexts m' = None"
  by (induction es arbitrary: m) (auto split: option.splits dest: ctx_closed_stays)

section \<open>Properties\<close>

text \<open>Once \<^verbatim>\<open>close\<close> has run, whatever calls come before and after it, every context ever handed
  out has been cancelled and \<^verbatim>\<open>withTimeout\<close> returns nil from then on.\<close>

theorem close_cancels_all:
  assumes "exec ctx_step (es @ Close # fs) new_context_mgr = Some m"
  shows "cancelled m = {..<made m} \<and> fst (withTimeout d m) = None"
proof -
  obtain u where "exec ctx_step fs (close u) = Some m"
    using assms by (auto simp: exec_append split: option.splits)
  then have c: "contexts m = None" by (rule ctx_exec_closed [rotated]) (simp add: close_def)
  have "ctx_inv m" using ctx_machine.exec_inv [OF new_context_mgr_inv assms] .
  with c show ?thesis by (simp add: inv_simps withTimeout_def)
qed

theorem close_cancels_all_witness:
  "\<exists>m. exec ctx_step ([WithTimeout 15, WithTimeout 20, Cancel 0] @ Close # [WithTimeout 5]) new_context_mgr = Some m
     \<and> cancelled m = {..<2} \<and> fst (withTimeout 1 m) = None"
proof -
  have "\<exists>m. exec ctx_step ([WithTimeout 15, WithTimeout 20, Cancel 0] @ Close # [WithTimeout 5]) new_context_mgr = Some m
      \<and> made m = 2"
    by (simp add: new_context_mgr_def withTimeout_def cancel_def close_def)
  with close_cancels_all [of "[WithTimeout 15, WithTimeout 20, Cancel 0]" "[WithTimeout 5]" _ 1] show ?thesis
    by metis
qed

end
