(* ===== verification/Latency.thy ===== *)
theory Latency
  imports Prelude "HOL-Library.Multiset"
begin

text \<open>
  The latency ring of \<^verbatim>\<open>v4/utils.go\<close>: a fixed array of 256 samples written cyclically, its
  snapshot, and the percentiles computed from a sorted copy.  The percentile index is computed in
  float64; \<open>f64_mul_floor\<close> is that multiplication with IEEE rounding, so the index the code uses is
  the one reasoned about.
\<close>

section \<open>Float64 products\<close>

fun bit_len :: "nat \<Rightarrow> nat" where
  "bit_len n = (if n = 0 then 0 else Suc (bit_len (n div 2)))"

declare bit_len.simps [simp del]

text \<open>Round a natural number to 53 significant bits, ties to even.\<close>

definition round53 :: "nat \<Rightarrow> nat" where
  "round53 x =
     (let k = bit_len x - 53; q = x div 2 ^ k; r = x mod 2 ^ k
      in if k = 0 then x
         else if 2 * r > 2 ^ k \<or> (2 * r = 2 ^ k \<and> odd q) then (q + 1) * 2 ^ k else q * 2 ^ k)"

text \<open>
  \<^verbatim>\<open>int(math.Floor(float64(n) * p))\<close> where the float64 \<open>p\<close> is \<open>m / 2\<^sup>53\<close>.  For \<open>n < 2\<^sup>53\<close> the
  conversion \<^verbatim>\<open>float64(n)\<close> is exact.
\<close>

definition f64_mul_floor :: "nat \<Rightarrow> nat \<Rightarrow> nat" where
  "f64_mul_floor n m = round53 (n * m) div 2 ^ 53"

text \<open>The float64 constants 0.50, 0.90 and 0.99 as multiples of \<open>2\<^sup>-\<^sup>5\<^sup>3\<close>.\<close>

definition pct50 :: nat where "pct50 = 4503599627370496"
definition pct90 :: nat where "pct90 = 8106479329266893"
definition pct99 :: nat where "pct99 = 8917127262193582"

section \<open>The ring\<close>

definition latencyRingSize :: nat where
  "latencyRingSize = 256"

record latency_ring =
  buf :: "int list"
  pos :: nat
  num :: nat

definition new_latency_ring :: latency_ring where
  "new_latency_ring = \<lparr>buf = replicate latencyRingSize 0, pos = 0, num = 0\<rparr>"

definition Record :: "go_duration \<Rightarrow> latency_ring \<Rightarrow> latency_ring" where
  "Record d r = r\<lparr>buf := (buf r)[pos r := d], pos := (pos r + 1) mod latencyRingSize,
                  num := (if num r < latencyRingSize then Suc (num r) else num r)\<rparr>"

definition Snapshot :: "latency_ring \<Rightarrow> go_duration list" where
  "Snapshot r = map (\<lambda>i. if i < num r then buf r ! i else 0) [0..<latencyRingSize]"

record percentiles =
  p50 :: go_duration
  p90 :: go_duration
  p99 :: go_duration
  pmax :: go_duration

text \<open>The closure \<^verbatim>\<open>at\<close>, on the sorted samples.\<close>

definition at_pct :: "int list \<Rightarrow> nat \<Rightarrow> int" where
  "at_pct tmp m =
     (let n = length tmp; i = f64_mul_floor n m; i' = (if i \<ge> n then n - 1 else i) in tmp ! i')"

definition percentiles_of :: "int list \<Rightarrow> percentiles option" where
  "percentiles_of samples =
     (if samples = [] then None
      else let tmp = sort samples
           in Some \<lparr>p50 = at_pct tmp pct50, p90 = at_pct tmp pct90, p99 = at_pct tmp pct99,
                    pmax = tmp ! (length tmp - 1)\<rparr>)"

definition Percentiles :: "latency_ring \<Rightarrow> percentiles option" where
  "Percentiles r = (if num r = 0 then None else percentiles_of (take (num r) (buf r)))"

section \<open>Rounding\<close>

lemma bit_len_bounds: "n < 2 ^ bit_len n \<and> (n \<noteq> 0 \<longrightarrow> 2 ^ (bit_len n - 1) \<le> n)"
proof (induction n rule: bit_len.induct)
  case (1 n)
  show ?case
  proof (cases "n \<le> 1")
    case True
    then have "n = 0 \<or> n = 1" by auto
    then show ?thesis by (auto simp: bit_len.simps [of n] bit_len.simps [of 0])
  next
    case False
    then have "n div 2 \<noteq> 0" "n \<noteq> 0" by auto
    then have b: "bit_len (n div 2) = Suc (bit_len (n div 2) - 1)"
      by (simp add: bit_len.simps [of "n div 2"])
    have "n div 2 < 2 ^ bit_len (n div 2)" "2 ^ (bit_len (n div 2) - 1) \<le> n div 2"
      using "1.IH" \<open>n \<noteq> 0\<close> \<open>n div 2 \<noteq> 0\<close> by auto
    then have "n < 2 * 2 ^ bit_len (n div 2)" "2 * 2 ^ (bit_len (n div 2) - 1) \<le> n" by auto
    then show ?thesis using \<open>n \<noteq> 0\<close> b by (simp add: bit_len.simps [of n]) (metis power_Suc)
  qed
qed

lemma round53_bounds: "2 ^ 53 * round53 x \<le> (2 ^ 53 + 1) * x \<and> (2 ^ 53 - 1) * x \<le> 2 ^ 53 * round53 x"
proof -
  define k where "k = bit_len x - 53"
  define q where "q = x div 2 ^ k"
  define r where "r = x mod 2 ^ k"
  show ?thesis
  proof (cases "k = 0")
    case True
    then show ?thesis by (simp add: round53_def k_def)
  next
    case False
    then have "bit_len x - 1 = k + 52" and "x \<noteq> 0" by (auto simp: k_def bit_len.simps [of 0] intro!: Nat.gr0I)
    with bit_len_bounds [of x] have "2 ^ (k + 52) \<le> x" by metis
    then have half: "2 ^ 52 * 2 ^ k \<le> x" by (simp add: power_add mult.commute)
    have x: "x = q * 2 ^ k + r" and r: "r < 2 ^ k" unfolding q_def r_def by (rule div_mult_mod_eq [symmetric]) simp
    have "round53 x = (if 2 * r > 2 ^ k \<or> (2 * r = 2 ^ k \<and> odd q) then (q + 1) * 2 ^ k else q * 2 ^ k)"
      using False by (simp add: round53_def Let_def k_def q_def r_def)
    then have "2 * round53 x \<le> 2 * x + 2 ^ k \<and> 2 * x \<le> 2 * round53 x + 2 ^ k"
      using x r by (auto simp: algebra_simps)
    with half show ?thesis by (simp add: algebra_simps)
  qed
qed

lemma f64_index_mono:
  assumes "m * (2 ^ 53 + 1) \<le> m' * (2 ^ 53 - 1)"
  shows "f64_mul_floor n m \<le> f64_mul_floor n m'"
proof -
  have "2 ^ 53 * round53 (n * m) \<le> n * (m * (2 ^ 53 + 1))"
    using round53_bounds [of "n * m"] by (simp add: algebra_simps)
  also have "\<dots> \<le> n * (m' * (2 ^ 53 - 1))" using assms by (rule mult_left_mono) simp
  also have "\<dots> \<le> 2 ^ 53 * round53 (n * m')"
    using round53_bounds [of "n * m'"] by (simp add: algebra_simps)
  finally have "round53 (n * m) \<le> round53 (n * m')" by simp
  then show ?thesis by (simp add: f64_mul_floor_def div_le_mono)
qed

lemma pct_order:
  "f64_mul_floor n pct50 \<le> f64_mul_floor n pct90" "f64_mul_floor n pct90 \<le> f64_mul_floor n pct99"
  by (rule f64_index_mono, simp add: pct50_def pct90_def pct99_def)+

section \<open>The ring holds the most recent samples\<close>

definition ring_inv :: "latency_ring \<Rightarrow> bool" where
  "ring_inv r \<longleftrightarrow> length (buf r) = latencyRingSize \<and> pos r < latencyRingSize \<and> num r \<le> latencyRingSize
     \<and> (num r < latencyRingSize \<longrightarrow> pos r = num r)"

declare ring_inv_def [inv_simps]

text \<open>The samples in the order they were recorded, oldest first.\<close>

definition ring_view :: "latency_ring \<Rightarrow> int list" where
  "ring_view r = (if num r < latencyRingSize then take (num r) (buf r) else drop (pos r) (buf r) @ take (pos r) (buf r))"

definition last_n :: "nat \<Rightarrow> 'a list \<Rightarrow> 'a list" where
  "last_n k xs = drop (length xs - k) xs"

lemma size_pos [simp]: "0 < latencyRingSize" "latencyRingSize = 0 \<longleftrightarrow> False"
  by (simp_all add: latencyRingSize_def)

lemma Record_inv: "ring_inv r \<Longrightarrow> ring_inv (Record d r)"
  by (auto simp: inv_simps Record_def mod_Suc)

lemma Record_view:
  assumes "ring_inv r"
  shows "ring_view (Record d r) = last_n latencyRingSize (ring_view r @ [d])"
proof -
  let ?N = latencyRingSize
  have i: "length (buf r) = ?N" "pos r < ?N" "num r \<le> ?N" "num r < ?N \<longrightarrow> pos r = num r"
    using assms by (auto simp: inv_simps)
  have tl: "(buf r)[pos r := d] = take (pos r) (buf r) @ [d] @ drop (Suc (pos r)) (buf r)"
    using i by (simp add: upd_conv_take_nth_drop)
  have dr: "drop (pos r) (buf r) = buf r ! pos r # drop (Suc (pos r)) (buf r)"
    using i by (simp add: Cons_nth_drop_Suc)
  consider "Suc (num r) < ?N" | "Suc (num r) = ?N" | "num r = ?N" using i by linarith
  then show ?thesis
  proof cases
    case 1
    then show ?thesis using i
      by (simp add: ring_view_def Record_def last_n_def take_Suc_conv_app_nth)
  next
    case 2
    moreover have "(buf r)[num r := d] = take (num r) (buf r) @ [d]"
      using tl 2 i by simp
    ultimately show ?thesis using i
      by (simp add: ring_view_def Record_def last_n_def)
  next
    case 3
    then show ?thesis using i
      by (cases "Suc (pos r) = ?N") (simp_all add: ring_view_def Record_def last_n_def tl dr)
  qed
qed

lemma last_n_last_n: "last_n k (last_n k xs @ ys) = last_n k (xs @ ys)"
  by (cases "length xs \<le> k") (simp_all add: last_n_def add.commute)

lemma fold_Record:
  "fold Record xs new_latency_ring = r \<Longrightarrow> ring_inv r \<and> ring_view r = last_n latencyRingSize xs"
proof (induction xs arbitrary: r rule: rev_induct)
  case Nil
  then show ?case by (auto simp: new_latency_ring_def inv_simps ring_view_def last_n_def)
next
  case (snoc x xs)
  then show ?case
    using Record_inv Record_view [of "fold Record xs new_latency_ring" x] last_n_last_n
    by auto
qed

lemma ring_view_mset: "ring_inv r \<Longrightarrow> mset (take (num r) (buf r)) = mset (ring_view r)"
  by (auto simp: ring_view_def inv_simps mset_append [symmetric] union_commute simp del: mset_append)
     (metis append_take_drop_id mset_append union_commute)

lemma ring_num: "ring_inv r \<Longrightarrow> length (ring_view r) = num r"
  by (auto simp: ring_view_def inv_simps)

section \<open>Percentiles\<close>

lemma at_pct_mem: "tmp \<noteq> [] \<Longrightarrow> at_pct tmp m \<in> set tmp"
  by (auto simp: at_pct_def Let_def)

lemma at_pct_mono:
  assumes "sorted tmp" and "tmp \<noteq> []" and "f64_mul_floor (length tmp) m \<le> f64_mul_floor (length tmp) m'"
  shows "at_pct tmp m \<le> at_pct tmp m'"
  using assms by (auto simp: at_pct_def Let_def intro!: sorted_nth_mono)

lemma at_pct_le_max:
  assumes "sorted tmp" and "tmp \<noteq> []"
  shows "at_pct tmp m \<le> tmp ! (length tmp - 1)"
  using assms by (auto simp: at_pct_def Let_def intro!: sorted_nth_mono)

lemma percentiles_of_perm:
  assumes "mset xs = mset ys"
  shows "percentiles_of xs = percentiles_of ys"
proof -
  have "sort xs = sort ys" by (rule properties_for_sort) (simp_all add: assms)
  moreover have "xs = [] \<longleftrightarrow> ys = []" using assms by auto
  ultimately show ?thesis by (simp add: percentiles_of_def)
qed

lemma percentiles_of_ordered:
  assumes "percentiles_of xs = Some q"
  shows "p50 q \<le> p90 q \<and> p90 q \<le> p99 q \<and> p99 q \<le> pmax q \<and> {p50 q, p90 q, p99 q, pmax q} \<subseteq> set xs
    \<and> (\<forall>x \<in> set xs. x \<le> pmax q)"
proof -
  obtain t where t: "t = sort xs" by blast
  have ne2: "xs \<noteq> []" using assms by (auto simp: percentiles_of_def split: if_splits)
  have st: "set t = set xs" and s: "sorted t" by (simp_all add: t)
  have ne: "t \<noteq> []" using ne2 st by auto
  have q: "q = \<lparr>p50 = at_pct t pct50, p90 = at_pct t pct90, p99 = at_pct t pct99, pmax = t ! (length t - 1)\<rparr>"
    using assms ne2 by (simp add: percentiles_of_def Let_def t)
  have "x \<le> t ! (length t - 1)" if "x \<in> set t" for x
  proof -
    from that obtain i where "i < length t" "x = t ! i" by (auto simp: in_set_conv_nth)
    then show ?thesis using sorted_nth_mono [OF s, of i "length t - 1"] by simp
  qed
  moreover have "t ! (length t - 1) \<in> set t" using ne by simp
  ultimately show ?thesis
    using at_pct_mono [OF s ne pct_order(1)] at_pct_mono [OF s ne pct_order(2)]
      at_pct_le_max [OF s ne] at_pct_mem [OF ne] st by (simp add: q)
qed

section \<open>Properties\<close>

text \<open>After any number of recordings the ring holds exactly the 256 most recent samples (all of
  them while fewer were recorded), and its percentiles are those of that window.\<close>

theorem latency_window:
  "mset (take (num (fold Record xs new_latency_ring)) (buf (fold Record xs new_latency_ring)))
     = mset (last_n 256 xs)
   \<and> num (fold Record xs new_latency_ring) = min 256 (length xs)
   \<and> Percentiles (fold Record xs new_latency_ring) = percentiles_of (last_n 256 xs)"
proof -
  let ?r = "fold Record xs new_latency_ring"
  have i: "ring_inv ?r" and v: "ring_view ?r = last_n latencyRingSize xs"
    using fold_Record [of xs ?r] by auto
  have m: "mset (take (num ?r) (buf ?r)) = mset (last_n 256 xs)"
    using ring_view_mset [OF i] v by (simp add: latencyRingSize_def)
  have n: "num ?r = min 256 (length xs)"
    using ring_num [OF i] v by (auto simp: last_n_def latencyRingSize_def)
  have "Percentiles ?r = percentiles_of (last_n 256 xs)"
  proof (cases "xs = []")
    case True
    with n show ?thesis by (simp add: Percentiles_def percentiles_of_def last_n_def)
  next
    case False
    with n have "num ?r \<noteq> 0" by simp
    with percentiles_of_perm [OF m] show ?thesis by (simp add: Percentiles_def)
  qed
  with m n show ?thesis by simp
qed

text \<open>The reported percentiles are samples of the window, are ordered
  P50 \<open>\<le>\<close> P90 \<open>\<le>\<close> P99 \<open>\<le>\<close> MAX, and MAX is the largest sample, for the indices the code computes in
  float64 arithmetic.\<close>

theorem percentiles_ordered:
  assumes "Percentiles (fold Record xs new_latency_ring) = Some q"
  shows "p50 q \<le> p90 q \<and> p90 q \<le> p99 q \<and> p99 q \<le> pmax q
    \<and> {p50 q, p90 q, p99 q, pmax q} \<subseteq> set (last_n 256 xs) \<and> (\<forall>x \<in> set (last_n 256 xs). x \<le> pmax q)"
proof -
  let ?r = "fold Record xs new_latency_ring"
  have i: "ring_inv ?r" and v: "ring_view ?r = last_n latencyRingSize xs"
    using fold_Record [of xs ?r] by auto
  have "percentiles_of (last_n 256 xs) = Some q"
    using assms percentiles_of_perm [OF ring_view_mset [OF i]] v
    by (auto simp: Percentiles_def latencyRingSize_def split: if_splits)
  then show ?thesis by (rule percentiles_of_ordered)
qed

theorem percentiles_ordered_witness:
  "\<exists>q. Percentiles (fold Record [30, 10, 20] new_latency_ring) = Some q \<and> p50 q \<le> p99 q \<and> pmax q \<in> {30, 10, 20}"
proof -
  have "\<exists>q. Percentiles (fold Record [30, 10, 20] new_latency_ring) = Some q"
    by (simp add: Percentiles_def percentiles_of_def Record_def new_latency_ring_def Let_def)
  then obtain q where q: "Percentiles (fold Record [30, 10, 20] new_latency_ring) = Some q" ..
  with percentiles_ordered [OF q] show ?thesis by (auto simp: last_n_def)
qed

end
