(* ===== verification/Config.thy ===== *)
theory Config
  imports Prelude
begin

text \<open>
  The configuration package \<^verbatim>\<open>v4/config\<close>: the data model (\<^verbatim>\<open>config.go\<close>), loading, validation and
  clamping (\<^verbatim>\<open>loader.go\<close>), and the derived values (\<^verbatim>\<open>utils.go\<close>).  The parts of the standard library
  that read the outside world or parse foreign formats are arguments of the definitions that use
  them: \<open>parse_media\<close> for \<^verbatim>\<open>mime.ParseMediaType\<close>, \<open>read_file\<close> for \<^verbatim>\<open>os.ReadFile\<close>, \<open>unmarshal\<close> for
  \<^verbatim>\<open>json.Unmarshal\<close> onto a default, \<open>key_pair\<close> for \<^verbatim>\<open>tls.X509KeyPair\<close> and \<open>pem_certs\<close> for the
  certificates \<^verbatim>\<open>AppendCertsFromPEM\<close> finds.  Log lines are not part of the model.
\<close>

section \<open>Data model\<close>

record tcp_cfg =
  tcp_KeepAlive :: bool
  tcp_NoDelay :: bool
  tcp_ReadBuffer :: int
  tcp_WriteBuffer :: int
  tcp_Backlog :: int

record mux_cfg =
  mux_TCP :: tcp_cfg
  SessionWindow :: int
  StreamWindow :: int
  MaxHalfOpen :: int
  MaxStreams :: int
  mux_ConnectTimeout :: int
  mux_PingTimeout :: int
  mux_KeepAlive :: int
  mux_SendTimeout :: int
  mux_IdleTimeout :: int

record tls_section =
  Certificate :: string
  PrivateKey :: string
  AuthCerts :: "string list"
  tls_ServerName :: string
  tls_ALPN :: string

record identity_cfg =
  Claim :: string
  id_MuxConnect :: "string list"
  id_Listen :: "(string \<times> string) list"  \<comment> \<open>a map: keys are distinct, the order is arbitrary\<close>

record config_file =
  cfg_Type :: string
  APIListen :: string
  MuxListen :: string
  MuxConnect :: string
  MuxProtocol :: string
  Listen :: string
  Connect :: string
  Identity :: identity_cfg
  Log :: string
  LogLevel :: int
  MaxSessions :: int
  MaxStartups :: string
  NoRedial :: bool
  TLS :: "tls_section option"
  Mux :: mux_cfg
  TCP :: tcp_cfg

definition mimeType :: string where
  "mimeType = ''application/x-tlswrapper-config''"

definition mimeVersion :: string where
  "mimeVersion = ''4''"

definition Type :: string where
  "Type = mimeType @ ''; version='' @ mimeVersion"

definition default_tcp :: tcp_cfg where
  "default_tcp = \<lparr>tcp_KeepAlive = False, tcp_NoDelay = True, tcp_ReadBuffer = 0, tcp_WriteBuffer = 0,
                  tcp_Backlog = 16\<rparr>"

definition Default :: config_file where
  "Default = \<lparr>cfg_Type = Type, APIListen = '''', MuxListen = '''', MuxConnect = '''', MuxProtocol = '''',
     Listen = '''', Connect = '''', Identity = \<lparr>Claim = '''', id_MuxConnect = [], id_Listen = []\<rparr>,
     Log = ''stdout'', LogLevel = 4, MaxSessions = 128, MaxStartups = ''10:30:60'', NoRedial = False,
     TLS = None,
     Mux = \<lparr>mux_TCP = default_tcp, SessionWindow = 0, StreamWindow = 0, MaxHalfOpen = 256, MaxStreams = 0,
            mux_ConnectTimeout = 15, mux_PingTimeout = 15, mux_KeepAlive = 300, mux_SendTimeout = 15,
            mux_IdleTimeout = 0\<rparr>,
     TCP = default_tcp\<rparr>"

definition FindListen :: "config_file \<Rightarrow> string \<Rightarrow> string" where
  "FindListen c name =
     (if name = '''' then Listen c
      else case map_of (id_Listen (Identity c)) name of None \<Rightarrow> '''' | Some a \<Rightarrow> a)"

section \<open>Errors\<close>

datatype startups_error = BadFormat string | BadStart string | BadRate string | BadFull string

datatype cfg_error =
    InvalidType string
  | IncompatibleVersion string
  | H3muxNeedsTLS
  | MaxStartupsError startups_error
  | UnknownLogOutput string
  | ReadFileError string
  | UnmarshalError
  | CertificateError
  | AuthCertError nat

section \<open>loader.go\<close>

definition loadPEM :: "(string \<Rightarrow> string option) \<Rightarrow> string \<Rightarrow> cfg_error + string" where
  "loadPEM read_file s =
     (case s of
        CHR ''@'' # fileName \<Rightarrow>
          (case read_file fileName of None \<Rightarrow> Inl (ReadFileError fileName) | Some b \<Rightarrow> Inr b)
      | _ \<Rightarrow> Inr s)"

fun loadPEMs :: "(string \<Rightarrow> string option) \<Rightarrow> string list \<Rightarrow> cfg_error + string list" where
  "loadPEMs read_file [] = Inr []"
| "loadPEMs read_file (c # cs) =
     (case loadPEM read_file c of
        Inl e \<Rightarrow> Inl e
      | Inr b \<Rightarrow> (case loadPEMs read_file cs of Inl e \<Rightarrow> Inl e | Inr bs \<Rightarrow> Inr (b # bs)))"

definition tls_load :: "(string \<Rightarrow> string option) \<Rightarrow> tls_section \<Rightarrow> cfg_error + tls_section" where
  "tls_load read_file t =
     (case loadPEM read_file (Certificate t) of
        Inl e \<Rightarrow> Inl e
      | Inr certPEM \<Rightarrow>
          (case loadPEM read_file (PrivateKey t) of
             Inl e \<Rightarrow> Inl e
           | Inr keyPEM \<Rightarrow>
               (case loadPEMs read_file (AuthCerts t) of
                  Inl e \<Rightarrow> Inl e
                | Inr certs \<Rightarrow> Inr (t\<lparr>Certificate := certPEM, PrivateKey := keyPEM, AuthCerts := certs\<rparr>))))"

definition file_load :: "(string \<Rightarrow> string option) \<Rightarrow> config_file \<Rightarrow> cfg_error + config_file" where
  "file_load read_file cfg =
     (case TLS cfg of
        None \<Rightarrow> Inr cfg
      | Some t \<Rightarrow> (case tls_load read_file t of Inl e \<Rightarrow> Inl e | Inr t' \<Rightarrow> Inr (cfg\<lparr>TLS := Some t'\<rparr>)))"

definition clampInt :: "int \<Rightarrow> int \<Rightarrow> int \<Rightarrow> int" where
  "clampInt v lo hi = (if v < lo then lo else if v > hi then hi else v)"

definition checkType ::
  "(string \<Rightarrow> (string \<times> (string \<rightharpoonup> string)) option) \<Rightarrow> string \<Rightarrow> cfg_error option" where
  "checkType parse_media s =
     (case parse_media s of
        None \<Rightarrow> Some (InvalidType s)
      | Some (mediatype, params) \<Rightarrow>
          if mediatype \<noteq> mimeType then Some (InvalidType s)
          else (case params ''version'' of
                  None \<Rightarrow> Some (InvalidType s)
                | Some version \<Rightarrow>
                    if version \<noteq> mimeVersion then Some (IncompatibleVersion version) else None))"

text \<open>
  \<^verbatim>\<open>parseMaxStartups\<close> has named results, so an error return still carries the values assigned
  before it: the result is start, rate, full and the error.
\<close>

definition parseMaxStartups :: "string \<Rightarrow> int \<times> int \<times> int \<times> startups_error option" where
  "parseMaxStartups s =
     (let parts = split_n 3 (CHR '':'') s
      in if length parts \<noteq> 3 then (0, 0, 0, Some (BadFormat s))
         else let (start, ok1) = Atoi (parts ! 0)
              in if \<not> ok1 \<or> start < 1 then (start, 0, 0, Some (BadStart (parts ! 0)))
                 else let (rate, ok2) = Atoi (parts ! 1)
                      in if \<not> ok2 \<or> rate < 0 \<or> rate > 100 then (start, rate, 0, Some (BadRate (parts ! 1)))
                         else let (full, ok3) = Atoi (parts ! 2)
                              in if \<not> ok3 \<or> full < start then (start, rate, full, Some (BadFull (parts ! 2)))
                                 else (start, rate, full, None))"

definition ParsedMaxStartups :: "config_file \<Rightarrow> int \<times> int \<times> int" where
  "ParsedMaxStartups c =
     (if MaxStartups c = '''' then (0, 0, 0)
      else let (start, rate, full, _) = parseMaxStartups (MaxStartups c) in (start, rate, full))"

definition clamp_nonzero :: "int \<Rightarrow> int \<Rightarrow> int \<Rightarrow> int" where
  "clamp_nonzero v lo hi = (if v \<noteq> 0 then clampInt v lo hi else v)"

definition clamp_tcp :: "tcp_cfg \<Rightarrow> tcp_cfg" where
  "clamp_tcp t = t\<lparr>tcp_ReadBuffer := clamp_nonzero (tcp_ReadBuffer t) 1 max_int32,
                   tcp_WriteBuffer := clamp_nonzero (tcp_WriteBuffer t) 1 max_int32,
                   tcp_Backlog := clampInt (tcp_Backlog t) 1 4096\<rparr>"

definition clamp_mux :: "mux_cfg \<Rightarrow> mux_cfg" where
  "clamp_mux m = m\<lparr>
     MaxStreams := clampInt (MaxStreams m) 0 max_int32,
     MaxHalfOpen := clampInt (MaxHalfOpen m) 0 max_int32,
     mux_PingTimeout := clampInt (mux_PingTimeout m) 10 86400,
     mux_KeepAlive := clampInt (mux_KeepAlive m) 10 86400,
     mux_SendTimeout := clampInt (mux_SendTimeout m) 10 86400,
     mux_ConnectTimeout := clampInt (mux_ConnectTimeout m) 10 86400,
     mux_IdleTimeout := clamp_nonzero (mux_IdleTimeout m) 10 86400,
     SessionWindow := clamp_nonzero (SessionWindow m) 65535 max_int32,
     StreamWindow := clamp_nonzero (StreamWindow m) 65535 max_int32,
     mux_TCP := clamp_tcp (mux_TCP m)\<rparr>"

definition Validate ::
  "(string \<Rightarrow> (string \<times> (string \<rightharpoonup> string)) option) \<Rightarrow> config_file \<Rightarrow> cfg_error + config_file" where
  "Validate parse_media c =
     (case checkType parse_media (cfg_Type c) of
        Some e \<Rightarrow> Inl e
      | None \<Rightarrow>
          if MuxProtocol c = ''h3mux'' \<and> TLS c = None then Inl H3muxNeedsTLS
          else case (if MaxStartups c \<noteq> '''' then snd (snd (snd (parseMaxStartups (MaxStartups c)))) else None) of
                 Some e \<Rightarrow> Inl (MaxStartupsError e)
               | None \<Rightarrow> Inr (c\<lparr>MaxSessions := clampInt (MaxSessions c) 0 max_int32,
                               Mux := clamp_mux (Mux c), TCP := clamp_tcp (TCP c)\<rparr>))"

section \<open>utils.go\<close>

datatype log_output = OutputStdout | OutputDiscard | OutputStderr | OutputSyslog | OutputTerminal

definition SetLogger :: "config_file \<Rightarrow> cfg_error + log_output" where
  "SetLogger cfg =
     (if Log cfg = '''' \<or> Log cfg = ''stdout'' then Inr OutputStdout
      else if Log cfg = ''discard'' then Inr OutputDiscard
      else if Log cfg = ''stderr'' then Inr OutputStderr
      else if Log cfg = ''syslog'' then Inr OutputSyslog
      else Inl (UnknownLogOutput (Log cfg)))"

text \<open>\<^verbatim>\<open>Load\<close> returns the config together with the logger settings it applied.\<close>

definition Load ::
  "(string \<Rightarrow> config_file \<Rightarrow> config_file option) \<Rightarrow> (string \<Rightarrow> string option) \<Rightarrow>
   (string \<Rightarrow> (string \<times> (string \<rightharpoonup> string)) option) \<Rightarrow> string \<Rightarrow> cfg_error + config_file \<times> log_output \<times> int" where
  "Load unmarshal read_file parse_media b =
     (case unmarshal b Default of
        None \<Rightarrow> Inl UnmarshalError
      | Some cfg0 \<Rightarrow>
          (case file_load read_file cfg0 of
             Inl e \<Rightarrow> Inl e
           | Inr cfg1 \<Rightarrow>
               (case Validate parse_media cfg1 of
                  Inl e \<Rightarrow> Inl e
                | Inr cfg \<Rightarrow>
                    (case SetLogger cfg of
                       Inl e \<Rightarrow> Inl e
                     | Inr out \<Rightarrow> Inr (cfg, out, LogLevel cfg)))))"

definition LoadFile ::
  "(string \<Rightarrow> config_file \<Rightarrow> config_file option) \<Rightarrow> (string \<Rightarrow> string option) \<Rightarrow>
   (string \<Rightarrow> (string \<times> (string \<rightharpoonup> string)) option) \<Rightarrow> string \<Rightarrow> cfg_error + config_file \<times> log_output \<times> int" where
  "LoadFile unmarshal read_file parse_media path =
     (case read_file path of
        None \<Rightarrow> Inl (ReadFileError path)
      | Some b \<Rightarrow> Load unmarshal read_file parse_media b)"

definition LoadReader ::
  "(string \<Rightarrow> config_file \<Rightarrow> config_file option) \<Rightarrow> (string \<Rightarrow> string option) \<Rightarrow>
   (string \<Rightarrow> (string \<times> (string \<rightharpoonup> string)) option) \<Rightarrow> string option \<Rightarrow> (cfg_error + config_file \<times> log_output \<times> int) option" where
  "LoadReader unmarshal read_file parse_media r =
     (case r of
        None \<Rightarrow> None  \<comment> \<open>the error of io.ReadAll, passed on\<close>
      | Some b \<Rightarrow> Some (Load unmarshal read_file parse_media b))"

text \<open>\<^verbatim>\<open>Clone\<close> copies through JSON, onto the zero value of \<^verbatim>\<open>File\<close> rather than onto \<^verbatim>\<open>Default\<close>.\<close>

definition zero_tcp :: tcp_cfg where
  "zero_tcp = \<lparr>tcp_KeepAlive = False, tcp_NoDelay = False, tcp_ReadBuffer = 0, tcp_WriteBuffer = 0, tcp_Backlog = 0\<rparr>"

definition zero_file :: config_file where
  "zero_file = \<lparr>cfg_Type = '''', APIListen = '''', MuxListen = '''', MuxConnect = '''', MuxProtocol = '''',
     Listen = '''', Connect = '''', Identity = \<lparr>Claim = '''', id_MuxConnect = [], id_Listen = []\<rparr>,
     Log = '''', LogLevel = 0, MaxSessions = 0, MaxStartups = '''', NoRedial = False, TLS = None,
     Mux = \<lparr>mux_TCP = zero_tcp, SessionWindow = 0, StreamWindow = 0, MaxHalfOpen = 0, MaxStreams = 0,
            mux_ConnectTimeout = 0, mux_PingTimeout = 0, mux_KeepAlive = 0, mux_SendTimeout = 0,
            mux_IdleTimeout = 0\<rparr>,
     TCP = zero_tcp\<rparr>"

definition Clone :: "(config_file \<Rightarrow> string option) \<Rightarrow> (string \<Rightarrow> config_file \<Rightarrow> config_file option) \<Rightarrow>
    config_file \<Rightarrow> config_file option" where
  "Clone marshal unmarshal cfg =
     (case marshal cfg of None \<Rightarrow> None | Some b \<Rightarrow> unmarshal b zero_file)"

definition Dump :: "(config_file \<Rightarrow> string option) \<Rightarrow> (config_file \<Rightarrow> string option) \<Rightarrow>
    (string \<Rightarrow> config_file \<Rightarrow> config_file option) \<Rightarrow> config_file \<Rightarrow> string option" where
  "Dump marshal marshal_indent unmarshal cfg =
     (case Clone marshal unmarshal cfg of None \<Rightarrow> None | Some c \<Rightarrow> marshal_indent c)"

text \<open>\<^verbatim>\<open>time.Duration(v) * time.Second\<close> is 64-bit arithmetic.\<close>

definition seconds :: "int \<Rightarrow> go_duration" where
  "seconds v = wrap64 (v * second)"

definition ConnectTimeout :: "config_file \<Rightarrow> go_duration" where
  "ConnectTimeout c = seconds (mux_ConnectTimeout (Mux c))"

definition PingTimeout :: "config_file \<Rightarrow> go_duration" where
  "PingTimeout c = seconds (mux_PingTimeout (Mux c))"

definition KeepAlive :: "config_file \<Rightarrow> go_duration" where
  "KeepAlive c = seconds (mux_KeepAlive (Mux c))"

definition SendTimeout :: "config_file \<Rightarrow> go_duration" where
  "SendTimeout c = seconds (mux_SendTimeout (Mux c))"

definition IdleTimeout :: "config_file \<Rightarrow> go_duration" where
  "IdleTimeout c = seconds (mux_IdleTimeout (Mux c))"

definition DefaultServerName :: string where
  "DefaultServerName = ''example.com''"

definition ServerName :: "config_file \<Rightarrow> string" where
  "ServerName c =
     (case TLS c of
        None \<Rightarrow> ''''
      | Some t \<Rightarrow> if tls_ServerName t \<noteq> '''' then tls_ServerName t else DefaultServerName)"

definition ALPN :: "config_file \<Rightarrow> string" where
  "ALPN c = (case TLS c of None \<Rightarrow> '''' | Some t \<Rightarrow> tls_ALPN t)"

text \<open>The fields of \<^verbatim>\<open>tls.Config\<close> the program sets.\<close>

datatype client_auth = NoClientCert | RequireAndVerifyClientCert
datatype tls_version = VersionTLS12 | VersionTLS13

record ('k, 'c) tls_config =
  Certificates :: "'k list"
  ClientAuth :: client_auth
  ClientCAs :: "'c list"
  RootCAs :: "'c list"
  MinVersion :: tls_version
  cfg_ServerName :: string
  NextProtos :: "string list"

fun newX509CertPool_from ::
  "(string \<Rightarrow> 'c list) \<Rightarrow> nat \<Rightarrow> string list \<Rightarrow> 'c list \<Rightarrow> cfg_error + 'c list" where
  "newX509CertPool_from pem_certs i [] pool = Inr pool"
| "newX509CertPool_from pem_certs i (cert # rest) pool =
     (if pem_certs cert = [] then Inl (AuthCertError i)
      else newX509CertPool_from pem_certs (Suc i) rest (pool @ pem_certs cert))"

definition newX509CertPool :: "(string \<Rightarrow> 'c list) \<Rightarrow> string list \<Rightarrow> cfg_error + 'c list" where
  "newX509CertPool pem_certs authCerts = newX509CertPool_from pem_certs 0 authCerts []"

definition NewTLSConfig ::
  "(string \<Rightarrow> string \<Rightarrow> 'k option) \<Rightarrow> (string \<Rightarrow> 'c list) \<Rightarrow> config_file \<Rightarrow>
   cfg_error + ('k, 'c) tls_config option" where
  "NewTLSConfig key_pair pem_certs c =
     (case TLS c of
        None \<Rightarrow> Inr None
      | Some t \<Rightarrow>
          (case key_pair (Certificate t) (PrivateKey t) of
             None \<Rightarrow> Inl CertificateError
           | Some tlsCert \<Rightarrow>
               (case newX509CertPool pem_certs (AuthCerts t) of
                  Inl e \<Rightarrow> Inl e
                | Inr certPool \<Rightarrow>
                    Inr (Some \<lparr>Certificates = [tlsCert], ClientAuth = RequireAndVerifyClientCert,
                               ClientCAs = certPool, RootCAs = certPool, MinVersion = VersionTLS13,
                               cfg_ServerName = '''', NextProtos = []\<rparr>))))"

section \<open>What validation guarantees\<close>

definition tcp_ok :: "tcp_cfg \<Rightarrow> bool" where
  "tcp_ok t \<longleftrightarrow> 0 \<le> tcp_ReadBuffer t \<and> tcp_ReadBuffer t \<le> max_int32 \<and>
     0 \<le> tcp_WriteBuffer t \<and> tcp_WriteBuffer t \<le> max_int32 \<and> 1 \<le> tcp_Backlog t \<and> tcp_Backlog t \<le> 4096"

definition timing_ok :: "int \<Rightarrow> bool" where
  "timing_ok v \<longleftrightarrow> 10 \<le> v \<and> v \<le> 86400"

definition window_ok :: "int \<Rightarrow> bool" where
  "window_ok v \<longleftrightarrow> v = 0 \<or> (65535 \<le> v \<and> v \<le> max_int32)"

definition mux_ok :: "mux_cfg \<Rightarrow> bool" where
  "mux_ok m \<longleftrightarrow> tcp_ok (mux_TCP m) \<and> window_ok (SessionWindow m) \<and> window_ok (StreamWindow m) \<and>
     0 \<le> MaxHalfOpen m \<and> MaxHalfOpen m \<le> max_int32 \<and> 0 \<le> MaxStreams m \<and> MaxStreams m \<le> max_int32 \<and>
     timing_ok (mux_ConnectTimeout m) \<and> timing_ok (mux_PingTimeout m) \<and> timing_ok (mux_KeepAlive m) \<and>
     timing_ok (mux_SendTimeout m) \<and> (mux_IdleTimeout m = 0 \<or> timing_ok (mux_IdleTimeout m))"

definition limits_ok :: "config_file \<Rightarrow> bool" where
  "limits_ok c \<longleftrightarrow> 0 \<le> MaxSessions c \<and> MaxSessions c \<le> max_int32 \<and> mux_ok (Mux c) \<and> tcp_ok (TCP c)"

definition startups_ok :: "config_file \<Rightarrow> bool" where
  "startups_ok c \<longleftrightarrow> MaxStartups c = '''' \<or>
     (let (start, rate, full) = ParsedMaxStartups c in 1 \<le> start \<and> start \<le> full \<and> 0 \<le> rate \<and> rate \<le> 100)"

lemmas clamp_defs = clampInt_def clamp_nonzero_def clamp_tcp_def clamp_mux_def
lemmas limit_defs = limits_ok_def mux_ok_def tcp_ok_def timing_ok_def window_ok_def

lemma clampInt_bounds: "lo \<le> hi \<Longrightarrow> lo \<le> clampInt v lo hi \<and> clampInt v lo hi \<le> hi"
  by (simp add: clampInt_def)

lemma clampInt_id: "lo \<le> v \<Longrightarrow> v \<le> hi \<Longrightarrow> clampInt v lo hi = v"
  by (simp add: clampInt_def)

lemma clamp_tcp_ok: "tcp_ok (clamp_tcp t)"
  by (simp add: tcp_ok_def clamp_defs max_int32_def)

lemma clamp_mux_ok: "mux_ok (clamp_mux m)"
  by (simp add: mux_ok_def clamp_mux_def clamp_tcp_ok)
     (simp add: window_ok_def timing_ok_def clamp_defs max_int32_def)

lemma clamp_tcp_id: "tcp_ok t \<Longrightarrow> clamp_tcp t = t"
  by (auto simp: tcp_ok_def clamp_defs)

lemma timing_ok_clamp: "timing_ok v \<Longrightarrow> clampInt v 10 86400 = v"
  by (simp add: timing_ok_def clampInt_def)

lemma window_ok_clamp: "window_ok v \<Longrightarrow> clamp_nonzero v 65535 max_int32 = v"
  by (auto simp: window_ok_def clamp_nonzero_def clampInt_def)

lemma idle_ok_clamp: "v = 0 \<or> timing_ok v \<Longrightarrow> clamp_nonzero v 10 86400 = v"
  by (auto simp: clamp_nonzero_def timing_ok_clamp)

lemma clamp_mux_id: "mux_ok m \<Longrightarrow> clamp_mux m = m"
  unfolding mux_ok_def clamp_mux_def
  by (elim conjE) (simp only: clamp_tcp_id timing_ok_clamp window_ok_clamp idle_ok_clamp clampInt_id, simp)

lemma parse_ok_bounds:
  assumes "parseMaxStartups s = (a, r, f, None)"
  shows "1 \<le> a \<and> a \<le> f \<and> 0 \<le> r \<and> r \<le> 100"
proof -
  obtain v0 k0 v1 k1 v2 k2
    where v: "Atoi (split_n 3 (CHR '':'') s ! 0) = (v0, k0)" "Atoi (split_n 3 (CHR '':'') s ! 1) = (v1, k1)"
      "Atoi (split_n 3 (CHR '':'') s ! 2) = (v2, k2)"
    by fastforce
  show ?thesis
    using assms unfolding parseMaxStartups_def Let_def v prod.case by (simp split: if_splits)
qed

lemma parse_printed:
  assumes "in_int64 start" and "in_int64 rate" and "in_int64 full"
  shows "parseMaxStartups (int_digits start @ '':'' @ int_digits rate @ '':'' @ int_digits full) =
    (if start < 1 then (start, 0, 0, Some (BadStart (int_digits start)))
     else if rate < 0 \<or> rate > 100 then (start, rate, 0, Some (BadRate (int_digits rate)))
     else if full < start then (start, rate, full, Some (BadFull (int_digits full)))
     else (start, rate, full, None))"
proof -
  have "split_n 3 (CHR '':'') (int_digits start @ '':'' @ int_digits rate @ '':'' @ int_digits full)
      = [int_digits start, int_digits rate, int_digits full]"
    using split_n_one [OF int_digits_no_colon, of 1] split_n_one [OF int_digits_no_colon, of 0]
    by (simp add: numeral_3_eq_3)
  then show ?thesis using assms by (simp add: parseMaxStartups_def)
qed

lemma Validate_cases:
  assumes "Validate pm c = Inr d"
  shows "d = c\<lparr>MaxSessions := clampInt (MaxSessions c) 0 max_int32, Mux := clamp_mux (Mux c), TCP := clamp_tcp (TCP c)\<rparr>"
    and "checkType pm (cfg_Type c) = None" and "MuxProtocol c = ''h3mux'' \<longrightarrow> TLS c \<noteq> None"
    and "MaxStartups c = '''' \<or> snd (snd (snd (parseMaxStartups (MaxStartups c)))) = None"
  using assms by (auto simp: Validate_def split: option.splits if_splits)

lemma Validate_fixed:
  assumes "limits_ok d" and "checkType pm (cfg_Type d) = None" and "MuxProtocol d = ''h3mux'' \<longrightarrow> TLS d \<noteq> None"
    and "MaxStartups d = '''' \<or> snd (snd (snd (parseMaxStartups (MaxStartups d)))) = None"
  shows "Validate pm d = Inr d"
proof -
  have "d\<lparr>MaxSessions := clampInt (MaxSessions d) 0 max_int32, Mux := clamp_mux (Mux d), TCP := clamp_tcp (TCP d)\<rparr> = d"
    using assms(1) by (simp add: limits_ok_def clamp_mux_id clamp_tcp_id clampInt_id)
  then show ?thesis using assms(2-) by (auto simp: Validate_def)
qed

lemma startups_ok_parse: "startups_ok c \<longleftrightarrow> MaxStartups c = '''' \<or>
    (case parseMaxStartups (MaxStartups c) of (a, r, f, _) \<Rightarrow> 1 \<le> a \<and> a \<le> f \<and> 0 \<le> r \<and> r \<le> 100)"
  by (auto simp: startups_ok_def ParsedMaxStartups_def split: prod.splits)

lemma seconds_exact: "0 \<le> v \<Longrightarrow> v \<le> 86400 \<Longrightarrow> seconds v = v * 1000000000"
  by (simp add: seconds_def second_def wrap64_id in_int64_def min_int64_def max_int64_def)

lemma newX509CertPool_from_eq:
  "newX509CertPool_from pem_certs i cs pool = Inr p \<Longrightarrow> p = pool @ concat (map pem_certs cs)"
  by (induction pem_certs i cs pool rule: newX509CertPool_from.induct) (auto split: if_splits)

section \<open>Properties\<close>

lemma Validate_limits: "Validate pm c = Inr d \<Longrightarrow> limits_ok d"
  by (drule Validate_cases(1)) (simp add: limits_ok_def clamp_mux_ok clamp_tcp_ok clampInt_bounds max_int32_def)



text \<open>Printing a triple of 64-bit integers as start:rate:full and parsing it gives the triple back
  without error exactly when \<open>1 \<le> start \<le> full\<close> and \<open>0 \<le> rate \<le> 100\<close>.\<close>

theorem max_startups_roundtrip:
  assumes "in_int64 start" and "in_int64 rate" and "in_int64 full"
  shows "parseMaxStartups (int_digits start @ '':'' @ int_digits rate @ '':'' @ int_digits full)
           = (start, rate, full, None) \<longleftrightarrow> 1 \<le> start \<and> start \<le> full \<and> 0 \<le> rate \<and> rate \<le> 100"
  unfolding parse_printed [OF assms] by auto

theorem max_startups_roundtrip_witness:
  "parseMaxStartups (int_digits 10 @ '':'' @ int_digits 30 @ '':'' @ int_digits 60) = (10, 30, 60, None)
   \<and> int_digits 10 @ '':'' @ int_digits 30 @ '':'' @ int_digits 60 = ''10:30:60''"
proof
  show "parseMaxStartups (int_digits 10 @ '':'' @ int_digits 30 @ '':'' @ int_digits 60) = (10, 30, 60, None)"
    by (subst max_startups_roundtrip) (simp_all add: in_int64_def min_int64_def max_int64_def)
  show "int_digits 10 @ '':'' @ int_digits 30 @ '':'' @ int_digits 60 = ''10:30:60''"
    by code_simp
qed

text \<open>For a validated config none of the duration accessors overflows: each is the configured
  number of seconds, between ten seconds and a day, and the idle timeout may also be zero.\<close>

theorem timeouts_exact:
  assumes "Validate parse_media c = Inr d"
  shows "ConnectTimeout d = mux_ConnectTimeout (Mux d) * 1000000000
    \<and> PingTimeout d = mux_PingTimeout (Mux d) * 1000000000
    \<and> KeepAlive d = mux_KeepAlive (Mux d) * 1000000000
    \<and> SendTimeout d = mux_SendTimeout (Mux d) * 1000000000
    \<and> IdleTimeout d = mux_IdleTimeout (Mux d) * 1000000000
    \<and> 10 * second \<le> ConnectTimeout d \<and> ConnectTimeout d \<le> 86400 * second
    \<and> (IdleTimeout d = 0 \<or> 10 * second \<le> IdleTimeout d)"
proof -
  have "mux_ok (Mux d)" using Validate_cases(1) [OF assms] clamp_mux_ok by simp
  then show ?thesis
    by (auto simp: ConnectTimeout_def PingTimeout_def KeepAlive_def SendTimeout_def IdleTimeout_def
        mux_ok_def timing_ok_def seconds_exact second_def)
qed

theorem timeouts_exact_witness:
  "\<exists>d. Validate (\<lambda>_. Some (mimeType, [''version'' \<mapsto> ''4''])) Default = Inr d \<and> IdleTimeout d = 0
     \<and> ConnectTimeout d = mux_ConnectTimeout (Mux d) * 1000000000"
proof -
  have v: "Validate (\<lambda>_. Some (mimeType, [''version'' \<mapsto> ''4''])) Default = Inr Default"
    by code_simp
  have "IdleTimeout Default = 0" by code_simp
  with v timeouts_exact [OF v] show ?thesis by blast
qed

text \<open>(C24) Whenever a TLS section is configured, a successfully built TLS config demands and verifies a
  client certificate, accepts nothing below TLS 1.3, and trusts exactly the certificates listed in
  authcerts, for both directions; plaintext (nil) results only from a missing TLS section.\<close>

theorem tls_config_mutual:
  assumes "NewTLSConfig key_pair pem_certs c = Inr r"
  shows "case r of
           None \<Rightarrow> TLS c = None
         | Some t \<Rightarrow> \<exists>sec. TLS c = Some sec \<and> ClientAuth t = RequireAndVerifyClientCert \<and> MinVersion t = VersionTLS13
             \<and> ClientCAs t = concat (map pem_certs (AuthCerts sec)) \<and> RootCAs t = ClientCAs t
             \<and> (\<exists>k. key_pair (Certificate sec) (PrivateKey sec) = Some k \<and> Certificates t = [k])"
  using assms
  by (auto simp: NewTLSConfig_def newX509CertPool_def split: option.splits sum.splits dest!: newX509CertPool_from_eq)

theorem tls_config_mutual_witness:
  "\<exists>t. NewTLSConfig (\<lambda>a b. Some (a, b)) (\<lambda>s. [s])
        (Default\<lparr>TLS := Some \<lparr>Certificate = ''c'', PrivateKey = ''k'', AuthCerts = [''x'', ''y''], tls_ServerName = '''', tls_ALPN = ''''\<rparr>\<rparr>)
      = Inr (Some t) \<and> ClientCAs t = [''x'', ''y'']"
proof -
  let ?c = "Default\<lparr>TLS := Some \<lparr>Certificate = ''c'', PrivateKey = ''k'', AuthCerts = [''x'', ''y''], tls_ServerName = '''', tls_ALPN = ''''\<rparr>\<rparr>"
  obtain t where t: "NewTLSConfig (\<lambda>a b. Some (a, b)) (\<lambda>s. [s]) ?c = Inr (Some t)"
    by (auto simp: NewTLSConfig_def newX509CertPool_def)
  from tls_config_mutual [OF t] t show ?thesis by auto
qed

text \<open>The throttle string is validated as 64-bit integers but handed to the listener as uint32
  values: a validated config exists whose start and full thresholds both become zero in that
  conversion, which turns the throttle off.\<close>

theorem max_startups_wraps:
  "\<exists>c start rate full. Validate (\<lambda>_. Some (mimeType, [''version'' \<mapsto> ''4''])) c = Inr c
     \<and> ParsedMaxStartups c = (start, rate, full) \<and> 1 \<le> start \<and> start \<le> full \<and> to_u32 start = 0 \<and> to_u32 full = 0"
proof -
  let ?pm = "\<lambda>_::string. Some (mimeType, [''version'' \<mapsto> ''4''])"
  let ?s = "int_digits 4294967296 @ '':'' @ int_digits 100 @ '':'' @ int_digits 4294967296"
  let ?c = "Default\<lparr>MaxStartups := ?s\<rparr>"
  have p: "parseMaxStartups ?s = (4294967296, 100, 4294967296, None)"
    by (subst parse_printed) (simp_all add: in_int64_def min_int64_def max_int64_def)
  have l: "limits_ok ?c" by (simp add: Default_def default_tcp_def limit_defs max_int32_def)
  have "Validate ?pm ?c = Inr ?c"
    by (rule Validate_fixed [OF l]) (use p in \<open>simp_all add: Default_def checkType_def mimeVersion_def\<close>)
  moreover have "ParsedMaxStartups ?c = (4294967296, 100, 4294967296)" by (simp add: ParsedMaxStartups_def p del: append_Cons)
  moreover have "to_u32 4294967296 = 0" by (simp add: to_u32_def)
  ultimately show ?thesis by (intro exI [of _ ?c] exI [of _ 4294967296] exI [of _ 100]) simp
qed

end
