(* ===== verification/Forwarder.thy ===== *)
theory Forwarder
  imports Prelude
begin

text \<open>
  The stream forwarder of \<^verbatim>\<open>v4/forwarder/forwarder.go\<close>, at the granularity of its atomic operations.
  Each call of \<^verbatim>\<open>Start\<close> makes a connection pair; the goroutine that calls \<^verbatim>\<open>Start\<close> and the two
  goroutines that run the copy directions have their own program counters, and a schedule is any
  interleaving of their steps.  The outcomes the code does not determine are carried by the events:
  whether the goroutine group is closed, whether \<^verbatim>\<open>g.Go\<close> succeeds and how \<^verbatim>\<open>io.CopyBuffer\<close> ends.
  Pair \<open>i\<close> owns the connections \<open>Accepted i\<close> and \<open>Dialed i\<close>: every caller passes two fresh
  connections.  The copy buffer pool only recycles memory.
\<close>

datatype conn = Accepted nat | Dialed nat
datatype side = SideAccepted | SideDialed
datatype fwd_error = ErrClosed | ErrConnLimit | GoFailed

text \<open>Direction \<open>D1\<close> is \<^verbatim>\<open>run(accepted, dialed)\<close>, direction \<open>D2\<close> is \<^verbatim>\<open>run(dialed, accepted)\<close>.\<close>

datatype dir = D1 | D2

fun dst_side :: "dir \<Rightarrow> side" where
  "dst_side D1 = SideAccepted"
| "dst_side D2 = SideDialed"

fun src_side :: "dir \<Rightarrow> side" where
  "src_side D1 = SideDialed"
| "src_side D2 = SideAccepted"

text \<open>How \<^verbatim>\<open>io.CopyBuffer\<close> ends; a panic is recovered and \<^verbatim>\<open>connCopy\<close> then returns nil.\<close>

datatype copy_result = CopyEOF | CopyError | CopyPanic

definition connCopy :: "copy_result \<Rightarrow> bool" where
  "connCopy r = (r = CopyError)"  \<comment> \<open>whether the returned error is not nil\<close>

datatype start_pc =
    SInc       \<comment> \<open>before count.Add(1)\<close>
  | SLoad      \<comment> \<open>before the comparison with limit.Load()\<close>
  | SDecr      \<comment> \<open>before count.Add(-1) of a refused pair\<close>
  | SAdd       \<comment> \<open>before addConn\<close>
  | SGo1 | SGo2
  | SClean1 | SClean2 | SClean3  \<comment> \<open>cleanup after the first g.Go failed\<close>
  | SRet "fwd_error option"

datatype dir_pc =
    DIdle | DCopy | DClose bool | DNotify bool | DDec
  | DHalf | DFull | DClean1 | DClean2 | DClean3 | DClosed
  | DDoneFirst | DDoneLast

record pair =
  cw_accepted :: bool      \<comment> \<open>accepted implements CloseWriter\<close>
  cw_dialed :: bool
  has_handler :: bool
  spc :: start_pc
  ticket :: int            \<comment> \<open>the value count.Add(1) returned\<close>
  pc1 :: dir_pc
  pc2 :: dir_pc
  remaining :: int
  once :: bool             \<comment> \<open>closeOnce has fired\<close>
  write_closed :: "(side \<times> bool) list"  \<comment> \<open>OnWriteClosed calls: source side, error\<close>
  on_closed :: nat                       \<comment> \<open>OnClosed calls\<close>

text \<open>What one step of a pair does to the shared state.\<close>

datatype tracking = Track | Untrack

record effect =
  e_count :: int
  e_half :: int
  e_track :: "tracking option"
  e_close :: bool
  e_close_write :: "side option"

definition no_effect :: effect where
  "no_effect = \<lparr>e_count = 0, e_half = 0, e_track = None, e_close = False, e_close_write = None\<rparr>"

fun pc_of :: "dir \<Rightarrow> pair \<Rightarrow> dir_pc" where
  "pc_of D1 q = pc1 q"
| "pc_of D2 q = pc2 q"

fun set_pc :: "dir \<Rightarrow> dir_pc \<Rightarrow> pair \<Rightarrow> pair" where
  "set_pc D1 x q = q\<lparr>pc1 := x\<rparr>"
| "set_pc D2 x q = q\<lparr>pc2 := x\<rparr>"

fun close_writer :: "side \<Rightarrow> pair \<Rightarrow> bool" where
  "close_writer SideAccepted q = cw_accepted q"
| "close_writer SideDialed q = cw_dialed q"

text \<open>The closure \<^verbatim>\<open>run\<close> inside \<^verbatim>\<open>Start\<close>, one atomic operation at a time.\<close>

definition run_step :: "dir \<Rightarrow> copy_result \<Rightarrow> pair \<Rightarrow> (pair \<times> effect) option" where
  "run_step d r q =
     (case pc_of d q of
        DCopy \<Rightarrow> Some (set_pc d (DClose (connCopy r)) q, no_effect)
      | DClose err \<Rightarrow>
          if \<not> err \<and> close_writer (dst_side d) q
          then Some (set_pc d (DNotify err) q, no_effect\<lparr>e_close_write := Some (dst_side d)\<rparr>)
          else Some (set_pc d (DNotify err) (q\<lparr>once := True\<rparr>), no_effect\<lparr>e_close := \<not> once q\<rparr>)
      | DNotify err \<Rightarrow>
          Some (set_pc d DDec (if has_handler q then q\<lparr>write_closed := write_closed q @ [(src_side d, err)]\<rparr> else q),
                no_effect)
      | DDec \<Rightarrow>
          Some (set_pc d (if remaining q - 1 = 1 then DHalf else if remaining q - 1 = 0 then DFull else DDoneFirst)
                  (q\<lparr>remaining := remaining q - 1\<rparr>), no_effect)
      | DHalf \<Rightarrow> Some (set_pc d DDoneFirst q, no_effect\<lparr>e_half := 1\<rparr>)
      | DFull \<Rightarrow> Some (set_pc d DClean1 q, no_effect\<lparr>e_half := -1\<rparr>)
      | DClean1 \<Rightarrow> Some (set_pc d DClean2 q, no_effect\<lparr>e_close := True\<rparr>)
      | DClean2 \<Rightarrow> Some (set_pc d DClean3 q, no_effect\<lparr>e_track := Some Untrack\<rparr>)
      | DClean3 \<Rightarrow> Some (set_pc d DClosed q, no_effect\<lparr>e_count := -1\<rparr>)
      | DClosed \<Rightarrow>
          Some (set_pc d DDoneLast (if has_handler q then q\<lparr>on_closed := Suc (on_closed q)\<rparr> else q), no_effect)
      | _ \<Rightarrow> None)"

text \<open>
  The goroutine that calls \<^verbatim>\<open>Start\<close>.  \<open>go_ok\<close> is the outcome of \<^verbatim>\<open>g.Go\<close>.  When the second \<^verbatim>\<open>g.Go\<close>
  fails, \<^verbatim>\<open>Start\<close> itself performs what \<^verbatim>\<open>run\<close> would have done after a failed copy, so the second
  direction continues there.
\<close>

definition start_step :: "bool \<Rightarrow> int \<Rightarrow> int \<Rightarrow> pair \<Rightarrow> (pair \<times> effect) option" where
  "start_step go_ok cnt lim q =
     (case spc q of
        SInc \<Rightarrow> Some (q\<lparr>spc := SLoad, ticket := cnt + 1\<rparr>, no_effect\<lparr>e_count := 1\<rparr>)
      | SLoad \<Rightarrow> Some (q\<lparr>spc := if ticket q > lim then SDecr else SAdd\<rparr>, no_effect)
      | SDecr \<Rightarrow> Some (q\<lparr>spc := SRet (Some ErrConnLimit)\<rparr>, no_effect\<lparr>e_count := -1\<rparr>)
      | SAdd \<Rightarrow> Some (q\<lparr>spc := SGo1\<rparr>, no_effect\<lparr>e_track := Some Track\<rparr>)
      | SGo1 \<Rightarrow>
          if go_ok then Some (q\<lparr>spc := SGo2, pc1 := DCopy\<rparr>, no_effect)
          else Some (q\<lparr>spc := SClean1\<rparr>, no_effect)
      | SClean1 \<Rightarrow> Some (q\<lparr>spc := SClean2\<rparr>, no_effect\<lparr>e_close := True\<rparr>)
      | SClean2 \<Rightarrow> Some (q\<lparr>spc := SClean3\<rparr>, no_effect\<lparr>e_track := Some Untrack\<rparr>)
      | SClean3 \<Rightarrow> Some (q\<lparr>spc := SRet (Some GoFailed)\<rparr>, no_effect\<lparr>e_count := -1\<rparr>)
      | SGo2 \<Rightarrow>
          if go_ok then Some (q\<lparr>spc := SRet None, pc2 := DCopy\<rparr>, no_effect)
          else Some (q\<lparr>spc := SRet (Some GoFailed), pc2 := DClose True\<rparr>, no_effect)
      | SRet r \<Rightarrow> None)"

section \<open>The forwarder\<close>

record fwd =
  pairs :: "pair list"
  conns :: "conn set"            \<comment> \<open>the map conn\<close>
  count :: int
  limit :: int
  numHalfOpen :: int
  closed_conns :: "conn set"     \<comment> \<open>connections whose Close has been called\<close>
  write_shut :: "conn set"       \<comment> \<open>connections whose CloseWrite has been called\<close>

definition New :: "int \<Rightarrow> fwd" where
  "New maxConn = \<lparr>pairs = [], conns = {}, count = 0, limit = maxConn, numHalfOpen = 0,
                  closed_conns = {}, write_shut = {}\<rparr>"

definition SetLimit :: "int \<Rightarrow> fwd \<Rightarrow> fwd" where
  "SetLimit maxConn f = f\<lparr>limit := maxConn\<rparr>"

definition addConn :: "nat \<Rightarrow> conn set \<Rightarrow> conn set" where
  "addConn p C = insert (Accepted p) (insert (Dialed p) C)"

definition delConn :: "nat \<Rightarrow> conn set \<Rightarrow> conn set" where
  "delConn p C = C - {Accepted p, Dialed p}"

fun side_conn :: "nat \<Rightarrow> side \<Rightarrow> conn" where
  "side_conn p SideAccepted = Accepted p"
| "side_conn p SideDialed = Dialed p"

definition apply_effect :: "nat \<Rightarrow> pair \<times> effect \<Rightarrow> fwd \<Rightarrow> fwd" where
  "apply_effect p qe f =
     (let e = snd qe in
      f\<lparr>pairs := (pairs f)[p := fst qe],
        count := count f + e_count e,
        numHalfOpen := numHalfOpen f + e_half e,
        conns := (case e_track e of None \<Rightarrow> conns f | Some Track \<Rightarrow> addConn p (conns f)
                                 | Some Untrack \<Rightarrow> delConn p (conns f)),
        closed_conns := (if e_close e then {Accepted p, Dialed p} \<union> closed_conns f else closed_conns f),
        write_shut := (case e_close_write e of None \<Rightarrow> write_shut f
                                             | Some s \<Rightarrow> insert (side_conn p s) (write_shut f))\<rparr>)"

definition Count :: "fwd \<Rightarrow> int" where
  "Count f = count f"

definition HalfOpenCount :: "fwd \<Rightarrow> int" where
  "HalfOpenCount f = numHalfOpen f"

definition Close :: "fwd \<Rightarrow> fwd" where
  "Close f = f\<lparr>closed_conns := conns f \<union> closed_conns f\<rparr>"

text \<open>The first select of \<^verbatim>\<open>Start\<close>: a closed group is refused before anything else happens.\<close>

definition start_pair :: "bool \<Rightarrow> bool \<Rightarrow> bool \<Rightarrow> bool \<Rightarrow> pair" where
  "start_pair cwa cwd h group_closed =
     \<lparr>cw_accepted = cwa, cw_dialed = cwd, has_handler = h,
      spc = (if group_closed then SRet (Some ErrClosed) else SInc),
      ticket = 0, pc1 = DIdle, pc2 = DIdle, remaining = 2, once = False, write_closed = [], on_closed = 0\<rparr>"

datatype fwd_event =
    FStart bool bool bool bool   \<comment> \<open>a call of Start: CloseWriter flags, handler present, group closed\<close>
  | FMain nat bool               \<comment> \<open>a step of the caller of Start; outcome of g.Go\<close>
  | FRun nat dir copy_result     \<comment> \<open>a step of a direction; outcome of the copy\<close>
  | FSetLimit int
  | FClose

fun fwd_step :: "fwd_event \<Rightarrow> fwd \<Rightarrow> fwd option" where
  "fwd_step (FStart cwa cwd h gc) f = Some (f\<lparr>pairs := pairs f @ [start_pair cwa cwd h gc]\<rparr>)"
| "fwd_step (FMain p ok) f =
     (if p < length (pairs f)
      then map_option (\<lambda>qe. apply_effect p qe f) (start_step ok (count f) (limit f) (pairs f ! p))
      else None)"
| "fwd_step (FRun p d r) f =
     (if p < length (pairs f)
      then map_option (\<lambda>qe. apply_effect p qe f) (run_step d r (pairs f ! p))
      else None)"
| "fwd_step (FSetLimit n) f = Some (SetLimit n f)"
| "fwd_step FClose f = Some (Close f)"

section \<open>Invariant of one pair\<close>

text \<open>Which decrement of \<^verbatim>\<open>remaining\<close> the direction made: none yet, the first or the last.\<close>

datatype phase = Pending | First | Last

fun phase_of :: "dir_pc \<Rightarrow> phase" where
  "phase_of DHalf = First"
| "phase_of DDoneFirst = First"
| "phase_of DFull = Last"
| "phase_of DClean1 = Last"
| "phase_of DClean2 = Last"
| "phase_of DClean3 = Last"
| "phase_of DClosed = Last"
| "phase_of DDoneLast = Last"
| "phase_of _ = Pending"

fun phases_ok :: "phase \<Rightarrow> phase \<Rightarrow> bool" where
  "phases_ok First First = False"
| "phases_ok Last Last = False"
| "phases_ok Last Pending = False"
| "phases_ok Pending Last = False"
| "phases_ok _ _ = True"

fun notified :: "dir_pc \<Rightarrow> bool" where
  "notified DIdle = False"
| "notified DCopy = False"
| "notified (DClose e) = False"
| "notified (DNotify e) = False"
| "notified _ = True"

text \<open>What a direction has added to \<^verbatim>\<open>numHalfOpen\<close> and \<^verbatim>\<open>count\<close> so far, and whether it has removed the
  pair from the map or closed its connections in \<^verbatim>\<open>cleanup\<close>.\<close>

fun half_of :: "dir_pc \<Rightarrow> int" where
  "half_of DDoneFirst = 1"
| "half_of DClean1 = -1"
| "half_of DClean2 = -1"
| "half_of DClean3 = -1"
| "half_of DClosed = -1"
| "half_of DDoneLast = -1"
| "half_of _ = 0"

fun count_of :: "dir_pc \<Rightarrow> int" where
  "count_of DClosed = -1"
| "count_of DDoneLast = -1"
| "count_of _ = 0"

fun untracked :: "dir_pc \<Rightarrow> bool" where
  "untracked DClean3 = True"
| "untracked DClosed = True"
| "untracked DDoneLast = True"
| "untracked _ = False"

fun shut_by :: "dir_pc \<Rightarrow> bool" where
  "shut_by DClean2 = True"
| "shut_by DClean3 = True"
| "shut_by DClosed = True"
| "shut_by DDoneLast = True"
| "shut_by _ = False"

text \<open>Which directions may have been spawned at each point of \<^verbatim>\<open>Start\<close>, given whether they are idle.\<close>

fun spawned_ok :: "start_pc \<Rightarrow> bool \<Rightarrow> bool \<Rightarrow> bool" where
  "spawned_ok SGo2 i1 i2 = (\<not> i1 \<and> i2)"
| "spawned_ok (SRet None) i1 i2 = (\<not> i1 \<and> \<not> i2)"
| "spawned_ok (SRet (Some GoFailed)) i1 i2 = (i1 = i2)"
| "spawned_ok _ i1 i2 = (i1 \<and> i2)"

text \<open>Whether \<^verbatim>\<open>Start\<close> holds its unit of \<^verbatim>\<open>count\<close>, and its entry in the map; \<open>i1\<close> says that the first
  direction never ran.\<close>

fun start_holds :: "start_pc \<Rightarrow> bool \<Rightarrow> bool" where
  "start_holds SInc i1 = False"
| "start_holds (SRet (Some e)) i1 = (\<not> i1)"
| "start_holds _ i1 = True"

fun start_tracks :: "start_pc \<Rightarrow> bool \<Rightarrow> bool" where
  "start_tracks SInc i1 = False"
| "start_tracks SLoad i1 = False"
| "start_tracks SDecr i1 = False"
| "start_tracks SAdd i1 = False"
| "start_tracks SClean3 i1 = False"
| "start_tracks (SRet (Some e)) i1 = (\<not> i1)"
| "start_tracks _ i1 = True"

fun start_shut :: "start_pc \<Rightarrow> bool \<Rightarrow> bool" where
  "start_shut SClean2 i1 = True"
| "start_shut SClean3 i1 = True"
| "start_shut (SRet (Some GoFailed)) i1 = i1"
| "start_shut _ i1 = False"

definition holds :: "pair \<Rightarrow> int" where
  "holds q = of_bool (start_holds (spc q) (pc1 q = DIdle)) + count_of (pc1 q) + count_of (pc2 q)"

definition half :: "pair \<Rightarrow> int" where
  "half q = half_of (pc1 q) + half_of (pc2 q)"

definition tracked :: "pair \<Rightarrow> bool" where
  "tracked q \<longleftrightarrow> start_tracks (spc q) (pc1 q = DIdle) \<and> \<not> untracked (pc1 q) \<and> \<not> untracked (pc2 q)"

definition shut :: "pair \<Rightarrow> bool" where
  "shut q \<longleftrightarrow> once q \<or> start_shut (spc q) (pc1 q = DIdle) \<or> shut_by (pc1 q) \<or> shut_by (pc2 q)"

definition calls_of :: "side \<Rightarrow> pair \<Rightarrow> nat" where
  "calls_of s q = length (filter (\<lambda>c. fst c = s) (write_closed q))"

definition pair_inv :: "pair \<Rightarrow> bool" where
  "pair_inv q \<longleftrightarrow>
     phases_ok (phase_of (pc1 q)) (phase_of (pc2 q))
   \<and> remaining q = of_bool (phase_of (pc1 q) = Pending) + of_bool (phase_of (pc2 q) = Pending)
   \<and> spawned_ok (spc q) (pc1 q = DIdle) (pc2 q = DIdle)
   \<and> calls_of SideDialed q = of_bool (has_handler q \<and> notified (pc1 q))
   \<and> calls_of SideAccepted q = of_bool (has_handler q \<and> notified (pc2 q))
   \<and> on_closed q = of_bool (has_handler q \<and> (pc1 q = DDoneLast \<or> pc2 q = DDoneLast))
   \<and> (\<not> once q \<longrightarrow> pc1 q \<noteq> DNotify True \<and> pc2 q \<noteq> DNotify True
        \<and> (SideAccepted, True) \<notin> set (write_closed q) \<and> (SideDialed, True) \<notin> set (write_closed q))"

declare pair_inv_def [inv_simps]

lemma start_pair_inv: "pair_inv (start_pair a b h g)"
  by (cases g) (simp_all add: inv_simps start_pair_def calls_of_def)

text \<open>What a step does to the pair and what it does to the shared state agree.\<close>

definition consistent :: "pair \<Rightarrow> pair \<times> effect \<Rightarrow> bool" where
  "consistent q qe \<longleftrightarrow>
     pair_inv (fst qe)
   \<and> holds (fst qe) = holds q + e_count (snd qe)
   \<and> half (fst qe) = half q + e_half (snd qe)
   \<and> tracked (fst qe) = (case e_track (snd qe) of None \<Rightarrow> tracked q | Some Track \<Rightarrow> True | Some Untrack \<Rightarrow> False)
   \<and> (shut (fst qe) \<longrightarrow> shut q \<or> e_close (snd qe))"

lemmas pair_defs = consistent_def holds_def half_def tracked_def shut_def calls_of_def no_effect_def

lemma spawned_idle:
  assumes "pair_inv q" and "spc q \<noteq> SGo2" and "\<forall>r. spc q \<noteq> SRet r"
  shows "pc1 q = DIdle" and "pc2 q = DIdle"
  using assms by (cases "spc q"; simp add: inv_simps)+

lemma start_step_idle_consistent:
  assumes "pair_inv q" and "pc1 q = DIdle" and "pc2 q = DIdle"
  shows "case start_step ok c l q of None \<Rightarrow> True | Some qe \<Rightarrow> consistent q qe"
  using assms
  by (cases "spc q") (simp_all add: start_step_def inv_simps pair_defs)

lemma start_step_go2_consistent:
  assumes "pair_inv q" and "spc q = SGo2"
  shows "case start_step ok c l q of None \<Rightarrow> True | Some qe \<Rightarrow> consistent q qe"
proof -
  have "pc2 q = DIdle" using assms by (simp add: inv_simps)
  with assms show ?thesis by (cases "pc1 q") (simp_all add: start_step_def inv_simps pair_defs)
qed

lemma start_step_consistent:
  assumes "pair_inv q" and "start_step ok c l q = Some qe"
  shows "consistent q qe"
proof (cases "spc q = SGo2")
  case True
  with start_step_go2_consistent [OF assms(1) True, of ok c l] assms(2) show ?thesis by simp
next
  case False
  have "\<forall>r. spc q \<noteq> SRet r" using assms(2) by (auto simp: start_step_def)
  from start_step_idle_consistent [OF assms(1) spawned_idle [OF assms(1) False this], of ok c l] assms(2)
  show ?thesis by simp
qed

lemma phase_Pending_simps:
  assumes "phase_of x = Pending"
  shows "half_of x = 0" "count_of x = 0" "\<not> untracked x" "\<not> shut_by x" "x \<noteq> DDoneLast"
  using assms by (cases x; simp)+

lemma phase_First_simps:
  assumes "phase_of x = First"
  shows "count_of x = 0" "\<not> untracked x" "\<not> shut_by x" "x \<noteq> DDoneLast" "x \<noteq> DIdle" "notified x"
  using assms by (cases x; simp)+

lemma phase_Last_simps:
  assumes "phase_of x = Last"
  shows "x \<noteq> DIdle" "notified x"
  using assms by (cases x; simp)+

lemmas phase_simps = phase_Pending_simps phase_First_simps phase_Last_simps

lemma run_step_D1_consistent:
  assumes "pair_inv q"
  shows "case run_step D1 r q of None \<Rightarrow> True | Some qe \<Rightarrow> consistent q qe"
  using assms
  by (cases "phase_of (pc2 q)"; cases "pc1 q")
     (simp_all add: run_step_def inv_simps pair_defs phase_simps, blast+)

lemma run_step_D2_consistent:
  assumes "pair_inv q"
  shows "case run_step D2 r q of None \<Rightarrow> True | Some qe \<Rightarrow> consistent q qe"
  using assms
  by (cases "phase_of (pc1 q)"; cases "pc2 q")
     (simp_all add: run_step_def inv_simps pair_defs phase_simps, blast+)

lemma run_step_consistent:
  assumes "pair_inv q" and "run_step d r q = Some qe"
  shows "consistent q qe"
  using run_step_D1_consistent [OF assms(1), of r] run_step_D2_consistent [OF assms(1), of r] assms(2)
  by (cases d) simp_all

section \<open>Invariant of the forwarder\<close>

definition fwd_inv :: "fwd \<Rightarrow> bool" where
  "fwd_inv f \<longleftrightarrow>
     (\<forall>p < length (pairs f). pair_inv (pairs f ! p))
   \<and> count f = sum_list (map holds (pairs f))
   \<and> numHalfOpen f = sum_list (map half (pairs f))
   \<and> (\<forall>p. (Accepted p \<in> conns f \<longleftrightarrow> p < length (pairs f) \<and> tracked (pairs f ! p))
         \<and> (Dialed p \<in> conns f \<longleftrightarrow> p < length (pairs f) \<and> tracked (pairs f ! p)))
   \<and> (\<forall>p < length (pairs f). shut (pairs f ! p) \<longrightarrow> {Accepted p, Dialed p} \<subseteq> closed_conns f)"

lemma New_inv: "fwd_inv (New n)"
  by (simp add: fwd_inv_def New_def)

lemma start_pair_props:
  "holds (start_pair a b h g) = 0" "half (start_pair a b h g) = 0" "\<not> tracked (start_pair a b h g)"
  "\<not> shut (start_pair a b h g)"
  by (cases g; simp add: start_pair_def pair_defs)+

lemma fwd_start_inv:
  assumes "fwd_inv f"
  shows "fwd_inv (f\<lparr>pairs := pairs f @ [start_pair a b h g]\<rparr>)"
  using assms start_pair_props [of a b h g] start_pair_inv [of a b h g]
  by (simp add: fwd_inv_def nth_append less_Suc_eq)

lemma apply_effect_inv:
  assumes "fwd_inv f" and p: "p < length (pairs f)" and c: "consistent (pairs f ! p) qe"
  shows "fwd_inv (apply_effect p qe f)"
proof -
  let ?f = "apply_effect p qe f"
  have len: "length (pairs ?f) = length (pairs f)" by (simp add: apply_effect_def Let_def)
  have nth: "pairs ?f ! i = (if i = p then fst qe else pairs f ! i)" for i
    using p by (simp add: apply_effect_def Let_def nth_list_update)
  have "\<forall>i < length (pairs ?f). pair_inv (pairs ?f ! i)"
    using assms unfolding len nth by (simp add: fwd_inv_def consistent_def)
  moreover have "count ?f = sum_list (map holds (pairs ?f))"
    using assms sum_list_update_int [OF p, of holds] by (simp add: apply_effect_def Let_def fwd_inv_def consistent_def)
  moreover have "numHalfOpen ?f = sum_list (map half (pairs ?f))"
    using assms sum_list_update_int [OF p, of half] by (simp add: apply_effect_def Let_def fwd_inv_def consistent_def)
  moreover have "(Accepted i \<in> conns ?f \<longleftrightarrow> i < length (pairs ?f) \<and> tracked (pairs ?f ! i))
       \<and> (Dialed i \<in> conns ?f \<longleftrightarrow> i < length (pairs ?f) \<and> tracked (pairs ?f ! i))" for i
    using assms unfolding len nth
    by (auto simp: apply_effect_def Let_def fwd_inv_def consistent_def addConn_def delConn_def
        split: option.splits tracking.splits)
  moreover have "i < length (pairs ?f) \<Longrightarrow> shut (pairs ?f ! i) \<Longrightarrow> {Accepted i, Dialed i} \<subseteq> closed_conns ?f" for i
    using assms unfolding len nth
    by (cases "i = p") (auto simp: apply_effect_def Let_def fwd_inv_def consistent_def)
  ultimately show ?thesis unfolding fwd_inv_def by blast
qed

lemma fwd_inv_pair: "fwd_inv f \<Longrightarrow> p < length (pairs f) \<Longrightarrow> pair_inv (pairs f ! p)"
  by (simp add: fwd_inv_def)

lemma fwd_inv_set: "fwd_inv f \<Longrightarrow> \<forall>q \<in> set (pairs f). pair_inv q"
  by (auto simp: fwd_inv_def in_set_conv_nth)

interpretation forwarder: invariant_machine fwd_step fwd_inv
proof unfold_locales
  fix s e t
  assume i: "fwd_inv s" and st: "fwd_step e s = Some t"
  show "fwd_inv t"
  proof (cases e)
    case (FStart a b h g)
    with i st show ?thesis by (auto intro: fwd_start_inv)
  next
    case (FMain p ok)
    then obtain qe where "p < length (pairs s)" "start_step ok (count s) (limit s) (pairs s ! p) = Some qe"
      "t = apply_effect p qe s" using st by (auto split: if_splits)
    with i show ?thesis
      using apply_effect_inv [OF i _ start_step_consistent [OF fwd_inv_pair [OF i]]] by blast
  next
    case (FRun p d r)
    then obtain qe where "p < length (pairs s)" "run_step d r (pairs s ! p) = Some qe"
      "t = apply_effect p qe s" using st by (auto split: if_splits)
    with i show ?thesis
      using apply_effect_inv [OF i _ run_step_consistent [OF fwd_inv_pair [OF i]]] by blast
  next
    case (FSetLimit n)
    with i st show ?thesis by (auto simp: SetLimit_def fwd_inv_def)
  next
    case FClose
    with i st show ?thesis by (auto simp: Close_def fwd_inv_def)
  qed
qed

lemmas fwd_reachable_inv = forwarder.exec_inv [OF New_inv]

section \<open>Termination of a pair\<close>

fun dir_rank :: "dir_pc \<Rightarrow> nat" where
  "dir_rank DCopy = 10"
| "dir_rank (DClose e) = 9"
| "dir_rank (DNotify e) = 8"
| "dir_rank DDec = 7"
| "dir_rank DHalf = 1"
| "dir_rank DFull = 6"
| "dir_rank DClean1 = 5"
| "dir_rank DClean2 = 4"
| "dir_rank DClean3 = 3"
| "dir_rank DClosed = 2"
| "dir_rank _ = 0"

fun start_rank :: "start_pc \<Rightarrow> nat" where
  "start_rank SInc = 26"
| "start_rank SLoad = 25"
| "start_rank SAdd = 24"
| "start_rank SDecr = 1"
| "start_rank SGo1 = 22"
| "start_rank SGo2 = 11"
| "start_rank SClean1 = 3"
| "start_rank SClean2 = 2"
| "start_rank SClean3 = 1"
| "start_rank (SRet r) = 0"

definition rank :: "pair \<Rightarrow> nat" where
  "rank q = start_rank (spc q) + dir_rank (pc1 q) + dir_rank (pc2 q)"

definition finished :: "pair \<Rightarrow> bool" where
  "finished q \<longleftrightarrow> (case spc q of SRet r \<Rightarrow> True | _ \<Rightarrow> False)
     \<and> pc1 q \<in> {DIdle, DDoneFirst, DDoneLast} \<and> pc2 q \<in> {DIdle, DDoneFirst, DDoneLast}"

lemma start_step_rank:
  assumes "pair_inv q" and "start_step ok c l q = Some qe"
  shows "rank (fst qe) < rank q"
  using assms spawned_idle [OF assms(1)]
  by (cases "spc q"; cases ok) (auto simp: start_step_def rank_def inv_simps split: if_splits)

lemma run_step_rank:
  assumes "run_step d r q = Some qe"
  shows "rank (fst qe) < rank q"
  using assms by (cases d; cases "pc_of d q") (auto simp: run_step_def rank_def split: if_splits)

lemma unfinished_enabled:
  assumes "\<not> finished q"
  shows "(\<exists>qe. start_step True c l q = Some qe) \<or> (\<exists>d qe. run_step d CopyEOF q = Some qe)"
proof (cases "\<exists>r. spc q = SRet r")
  case False
  then show ?thesis by (cases "spc q") (simp_all add: start_step_def)
next
  case True
  with assms obtain d where d: "pc_of d q \<notin> {DIdle, DDoneFirst, DDoneLast}"
    by (auto simp: finished_def) (metis pc_of.simps)+
  then have "\<exists>qe. run_step d CopyEOF q = Some qe" by (cases "pc_of d q") (auto simp: run_step_def)
  then show ?thesis by blast
qed

definition total_rank :: "fwd \<Rightarrow> nat" where
  "total_rank f = sum_list (map rank (pairs f))"

definition internal :: "fwd_event \<Rightarrow> bool" where
  "internal e = (case e of FMain p b \<Rightarrow> True | FRun p d r \<Rightarrow> True | _ \<Rightarrow> False)"

lemma internal_decreases:
  assumes "fwd_inv f" and "internal e" and "fwd_step e f = Some g"
  shows "total_rank g < total_rank f"
proof -
  have "\<exists>p qe. p < length (pairs f) \<and> rank (fst qe) < rank (pairs f ! p) \<and> g = apply_effect p qe f"
  proof (cases e)
    case (FMain p ok)
    with assms(3) obtain qe where "p < length (pairs f)" "g = apply_effect p qe f"
      "start_step ok (count f) (limit f) (pairs f ! p) = Some qe" by (auto split: if_splits)
    with start_step_rank [OF fwd_inv_pair [OF assms(1)]] show ?thesis by blast
  next
    case (FRun p d r)
    with assms(3) obtain qe where "p < length (pairs f)" "g = apply_effect p qe f"
      "run_step d r (pairs f ! p) = Some qe" by (auto split: if_splits)
    with run_step_rank show ?thesis by blast
  qed (use assms(2) in \<open>simp_all add: internal_def\<close>)
  then show ?thesis by (auto simp: total_rank_def apply_effect_def Let_def intro: sum_list_update_less)
qed

lemma internal_bounded:
  "fwd_inv f \<Longrightarrow> list_all internal es \<Longrightarrow> exec fwd_step es f = Some g \<Longrightarrow> length es + total_rank g \<le> total_rank f"
proof (induction es arbitrary: f)
  case (Cons e es)
  then obtain h where h: "fwd_step e f = Some h" "exec fwd_step es h = Some g" by (auto split: option.splits)
  have "length es + total_rank g \<le> total_rank h"
    using Cons h by (intro Cons.IH forwarder.step_inv [OF Cons.prems(1) h(1)]) auto
  with internal_decreases [OF Cons.prems(1) _ h(1)] Cons.prems(2) show ?case by simp
qed simp

lemma stuck_finished:
  assumes "\<forall>e. internal e \<longrightarrow> fwd_step e f = None" and "p < length (pairs f)"
  shows "finished (pairs f ! p)"
proof (rule ccontr)
  assume "\<not> finished (pairs f ! p)"
  from unfinished_enabled [OF this, of "count f" "limit f"]
  have "\<exists>e. internal e \<and> fwd_step e f \<noteq> None"
  proof
    assume "\<exists>qe. start_step True (count f) (limit f) (pairs f ! p) = Some qe"
    with assms(2) show ?thesis by (intro exI [of _ "FMain p True"]) (auto simp: internal_def)
  next
    assume "\<exists>d qe. run_step d CopyEOF (pairs f ! p) = Some qe"
    then obtain d where "\<exists>qe. run_step d CopyEOF (pairs f ! p) = Some qe" by blast
    with assms(2) show ?thesis by (intro exI [of _ "FRun p d CopyEOF"]) (auto simp: internal_def)
  qed
  with assms(1) show False by auto
qed

lemma start_ran [simp]: "start_holds (SRet r) False" "start_tracks (SRet r) False" "\<not> start_shut (SRet r) False"
  by (cases r; cases "the r"; simp)+

lemma finished_cases:
  assumes "pair_inv q" and "finished q"
  obtains e where "spc q = SRet (Some e)" "pc1 q = DIdle" "pc2 q = DIdle"
  | r where "spc q = SRet r" "r = None \<or> r = Some GoFailed" "pc1 q = DDoneFirst" "pc2 q = DDoneLast"
  | r where "spc q = SRet r" "r = None \<or> r = Some GoFailed" "pc1 q = DDoneLast" "pc2 q = DDoneFirst"
proof -
  obtain r where r: "spc q = SRet r" using assms(2) by (cases "spc q") (auto simp: finished_def)
  have ok: "spawned_ok (SRet r) (pc1 q = DIdle) (pc2 q = DIdle)" "phases_ok (phase_of (pc1 q)) (phase_of (pc2 q))"
    using assms(1) r by (simp_all add: inv_simps)
  have mem: "pc1 q \<in> {DIdle, DDoneFirst, DDoneLast}" "pc2 q \<in> {DIdle, DDoneFirst, DDoneLast}"
    using assms(2) by (simp_all add: finished_def)
  show thesis
  proof (cases r)
    case None
    then show thesis using mem ok by (elim insertE emptyE) (auto intro: that(2,3) simp: r)
  next
    case (Some e)
    then show thesis using mem ok by (cases e; elim insertE emptyE) (auto intro: that simp: r)
  qed
qed

lemma finished_idle:
  assumes "pair_inv q" and "finished q"
  shows "holds q = 0 \<and> half q = 0 \<and> \<not> tracked q"
  using assms by (cases rule: finished_cases) (simp_all add: pair_defs)

section \<open>The connection limit\<close>

text \<open>A pair is admitted from the moment it passes the limit check until it gives its unit back.\<close>

definition admitted :: "pair \<Rightarrow> bool" where
  "admitted q \<longleftrightarrow> holds q = 1 \<and> spc q \<noteq> SLoad \<and> spc q \<noteq> SDecr"

text \<open>Units whose ticket does not exceed \<open>L\<close>: only their owners can pass a check against \<open>L\<close>.\<close>

definition eligible :: "int \<Rightarrow> pair \<Rightarrow> int" where
  "eligible L q = (if holds q = 1 \<and> ticket q \<le> L then 1 else 0)"

definition cap_inv :: "int \<Rightarrow> fwd \<Rightarrow> bool" where
  "cap_inv L f \<longleftrightarrow> fwd_inv f \<and> limit f \<le> L
     \<and> (\<forall>p < length (pairs f). admitted (pairs f ! p) \<longrightarrow> ticket (pairs f ! p) \<le> L)
     \<and> sum_list (map (eligible L) (pairs f)) \<le> max 0 L"

fun capped_step :: "int \<Rightarrow> fwd_event \<Rightarrow> fwd \<Rightarrow> fwd option" where
  "capped_step L (FSetLimit n) f = (if n \<le> L then fwd_step (FSetLimit n) f else None)"
| "capped_step L e f = fwd_step e f"

lemma start_holds_ran: "start_holds s False \<longleftrightarrow> s \<noteq> SInc"
  by (cases s) simp_all

lemma count_of_cases: "count_of x = 0 \<or> count_of x = -1 \<and> phase_of x = Last"
  by (cases x) simp_all

lemma spawned_order: "spawned_ok s i1 i2 \<Longrightarrow> i1 \<Longrightarrow> i2"
  by (induction s i1 i2 rule: spawned_ok.induct) auto

lemma holds_range:
  assumes "pair_inv q"
  shows "holds q = 0 \<or> holds q = 1"
proof (cases "pc1 q = DIdle")
  case True
  then have "pc2 q = DIdle" using assms spawned_order by (auto simp: inv_simps)
  with True show ?thesis by (simp add: holds_def)
next
  case False
  then have "spc q \<noteq> SInc" using assms by (auto simp: inv_simps)
  with False have "holds q = 1 + count_of (pc1 q) + count_of (pc2 q)" by (simp add: holds_def start_holds_ran)
  with count_of_cases [of "pc1 q"] count_of_cases [of "pc2 q"] assms show ?thesis by (auto simp: inv_simps)
qed

lemma eligible_le_holds: "pair_inv q \<Longrightarrow> eligible L q \<le> holds q"
  using holds_range [of q] by (auto simp: eligible_def)

lemma sum_eligible_le_holds:
  "\<forall>q \<in> set qs. pair_inv q \<Longrightarrow> sum_list (map (eligible L) qs) \<le> sum_list (map holds qs)"
  by (induction qs) (auto dest: eligible_le_holds [of _ L])

text \<open>A step keeps the admission discipline: it either takes a fresh unit or keeps ticket and status.\<close>

definition keeps_cap :: "int \<Rightarrow> int \<Rightarrow> int \<Rightarrow> pair \<Rightarrow> pair \<Rightarrow> bool" where
  "keeps_cap L c l q q' \<longleftrightarrow>
     (eligible L q' \<le> eligible L q \<or> (ticket q' = c + 1 \<and> holds q' = holds q + 1))
   \<and> (admitted q' \<longrightarrow> admitted q \<and> ticket q' = ticket q \<or> ticket q' \<le> l)"

lemma keeps_capI:
  assumes "holds q = 0 \<or> holds q = 1" and "holds q' \<le> holds q" and "ticket q' = ticket q"
    and "holds q' = 1 \<Longrightarrow> spc q' \<notin> {SLoad, SDecr} \<Longrightarrow> spc q \<notin> {SLoad, SDecr} \<or> ticket q \<le> l"
  shows "keeps_cap L c l q q'"
proof -
  have "eligible L q' \<le> eligible L q" using assms(1-3) by (auto simp: eligible_def)
  moreover have "admitted q' \<Longrightarrow> admitted q \<or> ticket q' \<le> l" using assms by (auto simp: admitted_def)
  ultimately show ?thesis using assms(3) unfolding keeps_cap_def by blast
qed

lemma start_step_cap:
  assumes "pair_inv q" and "start_step ok c l q = Some qe"
  shows "keeps_cap L c l q (fst qe)"
proof -
  have h: "holds (fst qe) = holds q + e_count (snd qe)"
    using start_step_consistent [OF assms] by (simp add: consistent_def)
  show ?thesis
  proof (cases "spc q = SInc")
    case True
    with assms(2) h show ?thesis
      by (auto simp: start_step_def keeps_cap_def admitted_def no_effect_def)
  next
    case False
    with assms(2) have f: "ticket (fst qe) = ticket q" "e_count (snd qe) \<le> 0"
      "spc q = SDecr \<Longrightarrow> e_count (snd qe) = -1" "spc q = SLoad \<Longrightarrow> spc (fst qe) = SDecr \<or> ticket q \<le> l"
      by (cases "spc q"; auto simp: start_step_def no_effect_def split: if_splits)+
    show ?thesis
      by (rule keeps_capI [OF holds_range [OF assms(1)]]) (use f h holds_range [OF assms(1)] in auto)
  qed
qed

lemma run_step_frame:
  assumes "run_step d r q = Some qe"
  shows "ticket (fst qe) = ticket q \<and> spc (fst qe) = spc q \<and> e_count (snd qe) \<le> 0"
  using assms by (cases d; cases "pc_of d q") (auto simp: run_step_def no_effect_def split: if_splits)

lemma run_step_cap:
  assumes "pair_inv q" and "run_step d r q = Some qe"
  shows "keeps_cap L c l q (fst qe)"
  using run_step_consistent [OF assms] run_step_frame [OF assms(2)]
  by (intro keeps_capI [OF holds_range [OF assms(1)]]) (auto simp: consistent_def)

lemma apply_effect_cap:
  assumes "cap_inv L f" and p: "p < length (pairs f)" and c: "consistent (pairs f ! p) qe"
    and k: "keeps_cap L (count f) (limit f) (pairs f ! p) (fst qe)"
  shows "cap_inv L (apply_effect p qe f)"
proof -
  let ?f = "apply_effect p qe f"
  have i: "fwd_inv f" "limit f \<le> L" using assms(1) by (simp_all add: cap_inv_def)
  have i': "fwd_inv ?f" using apply_effect_inv [OF i(1) p c] .
  have ps: "pairs ?f = (pairs f)[p := fst qe]" "limit ?f = limit f" by (simp_all add: apply_effect_def Let_def)
  have sum: "sum_list (map (eligible L) (pairs ?f))
      = sum_list (map (eligible L) (pairs f)) + eligible L (fst qe) - eligible L (pairs f ! p)"
    unfolding ps by (rule sum_list_update_int [OF p])
  have "sum_list (map (eligible L) (pairs ?f)) \<le> max 0 L"
  proof (cases "eligible L (fst qe) \<le> eligible L (pairs f ! p)")
    case True
    with sum assms(1) show ?thesis by (simp add: cap_inv_def)
  next
    case False
    with k have t: "ticket (fst qe) = count f + 1" "holds (fst qe) = holds (pairs f ! p) + 1"
      by (auto simp: keeps_cap_def)
    then have "count ?f = ticket (fst qe)" using c by (simp add: apply_effect_def Let_def consistent_def)
    moreover have "ticket (fst qe) \<le> L" using False by (simp add: eligible_def split: if_splits)
    moreover have "sum_list (map (eligible L) (pairs ?f)) \<le> count ?f"
      using sum_eligible_le_holds [OF fwd_inv_set [OF i'], of L] i' by (simp add: fwd_inv_def)
    ultimately show ?thesis by simp
  qed
  moreover have "admitted (pairs ?f ! n) \<longrightarrow> ticket (pairs ?f ! n) \<le> L" if "n < length (pairs ?f)" for n
    using that k assms(1) i(2) p unfolding ps
    by (cases "n = p") (auto simp: cap_inv_def keeps_cap_def)
  ultimately show ?thesis using i' i(2) unfolding cap_inv_def ps(2) by blast
qed

interpretation capped: invariant_machine "capped_step L" "cap_inv L" for L
proof unfold_locales
  fix s e t
  assume i: "cap_inv L s" and st: "capped_step L e s = Some t"
  have fi: "fwd_inv s" using i by (simp add: cap_inv_def)
  show "cap_inv L t"
  proof (cases e)
    case (FStart a b h g)
    with i st show ?thesis
      by (auto simp: cap_inv_def nth_append less_Suc_eq fwd_start_inv start_pair_props eligible_def admitted_def)
  next
    case (FMain p ok)
    then obtain qe where q: "p < length (pairs s)" "start_step ok (count s) (limit s) (pairs s ! p) = Some qe"
      "t = apply_effect p qe s" using st by (auto split: if_splits)
    note pi = fwd_inv_pair [OF fi q(1)]
    show ?thesis unfolding q(3)
      by (rule apply_effect_cap [OF i q(1) start_step_consistent [OF pi q(2)] start_step_cap [OF pi q(2)]])
  next
    case (FRun p d r)
    then obtain qe where q: "p < length (pairs s)" "run_step d r (pairs s ! p) = Some qe"
      "t = apply_effect p qe s" using st by (auto split: if_splits)
    note pi = fwd_inv_pair [OF fi q(1)]
    show ?thesis unfolding q(3)
      by (rule apply_effect_cap [OF i q(1) run_step_consistent [OF pi q(2)] run_step_cap [OF pi q(2)]])
  next
    case (FSetLimit n)
    with i st show ?thesis by (auto simp: cap_inv_def SetLimit_def fwd_inv_def split: if_splits)
  next
    case FClose
    with i st show ?thesis by (auto simp: cap_inv_def Close_def fwd_inv_def)
  qed
qed

lemma exec_capped:
  "\<forall>n. FSetLimit n \<in> set es \<longrightarrow> n \<le> L \<Longrightarrow> exec (capped_step L) es f = exec fwd_step es f"
proof (induction es arbitrary: f)
  case (Cons e es)
  then have "capped_step L e f = fwd_step e f" by (cases e) auto
  with Cons show ?case by (auto split: option.splits)
qed simp

lemma last_both_notified:
  assumes "pair_inv q" and "pc1 q = DDoneLast \<or> pc2 q = DDoneLast"
  shows "notified (pc1 q) \<and> notified (pc2 q)"
  using assms by (cases "phase_of (pc1 q)"; cases "phase_of (pc2 q)") (auto simp: inv_simps phase_simps)

lemma no_calls_empty: "calls_of SideDialed q = 0 \<Longrightarrow> calls_of SideAccepted q = 0 \<Longrightarrow> write_closed q = []"
proof (rule ccontr)
  assume c: "calls_of SideDialed q = 0" "calls_of SideAccepted q = 0" and "write_closed q \<noteq> []"
  then obtain x where "x \<in> set (write_closed q)" by (cases "write_closed q") auto
  moreover have "\<forall>x \<in> set (write_closed q). fst x \<noteq> SideDialed \<and> fst x \<noteq> SideAccepted"
    using c by (auto simp: calls_of_def filter_empty_conv)
  ultimately show False by (cases "fst x") auto
qed

lemma half_remaining:
  assumes "pair_inv q" and "{pc1 q, pc2 q} \<inter> {DHalf, DFull} = {}"
  shows "half q = of_bool (remaining q = 1)"
proof -
  have h: "half_of x = (case phase_of x of Pending \<Rightarrow> 0 | First \<Rightarrow> 1 | Last \<Rightarrow> -1)" if "x \<noteq> DHalf" "x \<noteq> DFull" for x
    using that by (cases x) simp_all
  have "half q = (case phase_of (pc1 q) of Pending \<Rightarrow> 0 | First \<Rightarrow> 1 | Last \<Rightarrow> -1)
      + (case phase_of (pc2 q) of Pending \<Rightarrow> 0 | First \<Rightarrow> 1 | Last \<Rightarrow> -1)"
    using assms(2) h [of "pc1 q"] h [of "pc2 q"] by (auto simp: half_def)
  then show ?thesis using assms(1)
    by (cases "phase_of (pc1 q)"; cases "phase_of (pc2 q)") (simp_all add: inv_simps)
qed

lemma on_closed_last:
  assumes "pair_inv q" and "on_closed q \<noteq> 0"
  shows "pc1 q = DDoneLast \<or> pc2 q = DDoneLast"
proof (rule ccontr)
  assume "\<not> ?thesis"
  then have "on_closed q = 0" using assms(1) unfolding pair_inv_def by simp
  with assms(2) show False by simp
qed

lemma finished_calls:
  assumes "pair_inv q" and "finished q" and "has_handler q"
  shows "if pc1 q = DIdle then write_closed q = [] \<and> on_closed q = 0
      else calls_of SideDialed q = 1 \<and> calls_of SideAccepted q = 1 \<and> on_closed q = 1"
proof -
  have "calls_of SideDialed q = of_bool (notified (pc1 q))" "calls_of SideAccepted q = of_bool (notified (pc2 q))"
    "on_closed q = of_bool (pc1 q = DDoneLast \<or> pc2 q = DDoneLast)"
    using assms(1,3) by (simp_all add: pair_inv_def)
  then show ?thesis using no_calls_empty [of q] by (cases rule: finished_cases [OF assms(1,2)]) simp_all
qed

lemma sum_list_zero: "\<forall>x \<in> set xs. g x = (0::int) \<Longrightarrow> sum_list (map g xs) = 0"
  by (induction xs) auto

lemma sum_of_bool_filter: "int (length (filter P xs)) = sum_list (map (\<lambda>x. of_bool (P x)) xs)"
  by (induction xs) auto

section \<open>Properties\<close>

text \<open>(C2) In every interleaving the handler of a pair hears of each direction at most once and of the
  end at most once, and of the end only when both directions have been reported, both connections
  have been closed and the pair has left the map; a pair that has run to its end was reported
  exactly twice and closed exactly once, and a refused pair is never reported.\<close>

theorem forwarder_callbacks:
  assumes "exec fwd_step es (New n) = Some f" and "p < length (pairs f)" and "has_handler (pairs f ! p)"
  shows "calls_of SideDialed (pairs f ! p) \<le> 1 \<and> calls_of SideAccepted (pairs f ! p) \<le> 1 \<and> on_closed (pairs f ! p) \<le> 1
    \<and> (on_closed (pairs f ! p) = 1 \<longrightarrow>
         calls_of SideDialed (pairs f ! p) = 1 \<and> calls_of SideAccepted (pairs f ! p) = 1
         \<and> {Accepted p, Dialed p} \<subseteq> closed_conns f \<and> {Accepted p, Dialed p} \<inter> conns f = {})
    \<and> (finished (pairs f ! p) \<longrightarrow>
         (if pc1 (pairs f ! p) = DIdle then write_closed (pairs f ! p) = [] \<and> on_closed (pairs f ! p) = 0
          else calls_of SideDialed (pairs f ! p) = 1 \<and> calls_of SideAccepted (pairs f ! p) = 1 \<and> on_closed (pairs f ! p) = 1))"
proof -
  let ?q = "pairs f ! p"
  have i: "fwd_inv f" by (rule fwd_reachable_inv [OF assms(1)])
  have pi: "pair_inv ?q" by (rule fwd_inv_pair [OF i assms(2)])
  have le: "calls_of SideDialed ?q \<le> 1" "calls_of SideAccepted ?q \<le> 1" "on_closed ?q \<le> 1"
    using pi by (simp_all add: inv_simps)
  have "calls_of SideDialed ?q = 1 \<and> calls_of SideAccepted ?q = 1
      \<and> {Accepted p, Dialed p} \<subseteq> closed_conns f \<and> {Accepted p, Dialed p} \<inter> conns f = {}" if "on_closed ?q = 1"
  proof -
    have l: "pc1 ?q = DDoneLast \<or> pc2 ?q = DDoneLast" by (rule on_closed_last [OF pi]) (simp add: that)
    then have "shut ?q" "\<not> tracked ?q" by (auto simp: shut_def tracked_def)
    then have "{Accepted p, Dialed p} \<subseteq> closed_conns f" "{Accepted p, Dialed p} \<inter> conns f = {}"
      using i assms(2) by (simp_all add: fwd_inv_def)
    moreover have "notified (pc1 ?q)" "notified (pc2 ?q)" using last_both_notified [OF pi l] by simp_all
    then have "calls_of SideDialed ?q = 1" "calls_of SideAccepted ?q = 1"
      using pi assms(3) by (simp_all add: pair_inv_def)
    ultimately show ?thesis by blast
  qed
  moreover have "if pc1 ?q = DIdle then write_closed ?q = [] \<and> on_closed ?q = 0
      else calls_of SideDialed ?q = 1 \<and> calls_of SideAccepted ?q = 1 \<and> on_closed ?q = 1" if "finished ?q"
    by (rule finished_calls [OF pi that assms(3)])
  ultimately show ?thesis using le by blast
qed

theorem forwarder_callbacks_witness:
  "\<exists>f. exec fwd_step (FStart True True True False # replicate 5 (FMain 0 True)
        @ replicate 5 (FRun 0 D1 CopyEOF) @ replicate 9 (FRun 0 D2 CopyEOF)) (New 1) = Some f
     \<and> calls_of SideDialed (pairs f ! 0) = 1 \<and> {Accepted 0, Dialed 0} \<subseteq> closed_conns f"
proof -
  let ?es = "FStart True True True False # replicate 5 (FMain 0 True)
        @ replicate 5 (FRun 0 D1 CopyEOF) @ replicate 9 (FRun 0 D2 CopyEOF)"
  have "case exec fwd_step ?es (New 1) of None \<Rightarrow> False
      | Some f \<Rightarrow> 0 < length (pairs f) \<and> has_handler (pairs f ! 0) \<and> on_closed (pairs f ! 0) = 1"
    by code_simp
  then obtain f where f: "exec fwd_step ?es (New 1) = Some f" "0 < length (pairs f)"
    "has_handler (pairs f ! 0)" "on_closed (pairs f ! 0) = 1" by (auto split: option.splits)
  with forwarder_callbacks [OF f(1-3)] show ?thesis by blast
qed

text \<open>When a copy fails both connections of the pair are closed before the handler learns of the
  error.\<close>

theorem forwarder_error_closes:
  assumes "exec fwd_step es (New n) = Some f" and "p < length (pairs f)"
    and "(s, True) \<in> set (write_closed (pairs f ! p))"
  shows "{Accepted p, Dialed p} \<subseteq> closed_conns f"
proof -
  have i: "fwd_inv f" by (rule fwd_reachable_inv [OF assms(1)])
  have "once (pairs f ! p)" using fwd_inv_pair [OF i assms(2)] assms(3) by (cases s) (auto simp: inv_simps)
  then have "shut (pairs f ! p)" by (simp add: shut_def)
  with i assms(2) show ?thesis by (simp add: fwd_inv_def)
qed

theorem forwarder_error_closes_witness:
  "\<exists>f. exec fwd_step (FStart True True True False # replicate 5 (FMain 0 True) @ replicate 3 (FRun 0 D2 CopyError)) (New 1)
      = Some f \<and> {Accepted 0, Dialed 0} \<subseteq> closed_conns f \<and> on_closed (pairs f ! 0) = 0"
proof -
  let ?es = "FStart True True True False # replicate 5 (FMain 0 True) @ replicate 3 (FRun 0 D2 CopyError)"
  have "case exec fwd_step ?es (New 1) of None \<Rightarrow> False
      | Some f \<Rightarrow> 0 < length (pairs f) \<and> (SideAccepted, True) \<in> set (write_closed (pairs f ! 0)) \<and> on_closed (pairs f ! 0) = 0"
    by code_simp
  then obtain f where f: "exec fwd_step ?es (New 1) = Some f" "0 < length (pairs f)"
    "(SideAccepted, True) \<in> set (write_closed (pairs f ! 0))" "on_closed (pairs f ! 0) = 0"
    by (auto split: option.splits)
  with forwarder_error_closes [OF f(1-3)] show ?thesis by blast
qed

text \<open>(C3) From every reachable state the goroutines of the pairs take at most \<open>total_rank\<close> further steps;
  when no further step is possible, every pair has finished, the counters are zero and no
  connection is tracked.\<close>

theorem forwarder_drains:
  assumes "exec fwd_step es (New n) = Some f" and "list_all internal fs" and "exec fwd_step fs f = Some g"
  shows "length fs \<le> total_rank f
    \<and> ((\<forall>e. internal e \<longrightarrow> fwd_step e g = None) \<longrightarrow>
         (\<forall>q \<in> set (pairs g). finished q) \<and> Count g = 0 \<and> HalfOpenCount g = 0 \<and> conns g = {})"
proof -
  have i: "fwd_inv f" by (rule fwd_reachable_inv [OF assms(1)])
  have ig: "fwd_inv g" by (rule forwarder.exec_inv [OF i assms(3)])
  have "length fs \<le> total_rank f" using internal_bounded [OF i assms(2,3)] by simp
  moreover have "(\<forall>q \<in> set (pairs g). finished q) \<and> Count g = 0 \<and> HalfOpenCount g = 0 \<and> conns g = {}"
    if "\<forall>e. internal e \<longrightarrow> fwd_step e g = None"
  proof -
    have fin: "p < length (pairs g) \<Longrightarrow> finished (pairs g ! p)" for p by (rule stuck_finished [OF that])
    then have all: "\<forall>q \<in> set (pairs g). finished q" by (auto simp: in_set_conv_nth)
    have z: "\<forall>q \<in> set (pairs g). holds q = 0 \<and> half q = 0" "p < length (pairs g) \<Longrightarrow> \<not> tracked (pairs g ! p)" for p
      using finished_idle all fwd_inv_set [OF ig] fin fwd_inv_pair [OF ig] by blast+
    have "count g = 0" "numHalfOpen g = 0" using ig sum_list_zero [of "pairs g"] z(1) by (auto simp: fwd_inv_def)
    moreover have "c \<notin> conns g" for c using ig z(2) by (cases c) (auto simp: fwd_inv_def)
    ultimately show ?thesis using all by (auto simp: Count_def HalfOpenCount_def)
  qed
  ultimately show ?thesis by blast
qed

theorem forwarder_drains_witness:
  "\<exists>f. exec fwd_step (FStart True False True False # replicate 4 (FMain 0 True)) (New 1) = Some f \<and> 1 \<le> total_rank f"
proof -
  let ?es = "FStart True False True False # replicate 4 (FMain 0 True)"
  have "case exec fwd_step ?es (New 1) of None \<Rightarrow> False
      | Some f \<Rightarrow> (case exec fwd_step [FRun 0 D1 CopyEOF] f of None \<Rightarrow> False | Some g \<Rightarrow> True)"
    by code_simp
  then obtain f g where f: "exec fwd_step ?es (New 1) = Some f" "exec fwd_step [FRun 0 D1 CopyEOF] f = Some g"
    by (auto split: option.splits)
  with forwarder_drains [OF f(1) _ f(2)] show ?thesis by (simp add: internal_def)
qed

text \<open>(C4) If the limit is never set above \<open>L\<close>, at most \<open>L\<close> pairs are admitted at any time, however the
  increments and the limit checks of concurrent calls interleave.\<close>

theorem forwarder_limit:
  assumes "exec fwd_step es (New n) = Some f" and "n \<le> L" and "0 \<le> L" and "\<forall>m. FSetLimit m \<in> set es \<longrightarrow> m \<le> L"
  shows "int (length (filter admitted (pairs f))) \<le> L"
proof -
  have "cap_inv L (New n)" using assms(2,3) New_inv by (simp add: cap_inv_def New_def)
  then have c: "cap_inv L f" using capped.exec_inv assms(1) exec_capped [OF assms(4)] by metis
  have "sum_list (map (\<lambda>q. of_bool (admitted q)) (pairs f)) \<le> sum_list (map (eligible L) (pairs f))"
  proof (rule sum_list_mono)
    fix q assume "q \<in> set (pairs f)"
    then obtain p where "p < length (pairs f)" "q = pairs f ! p" by (auto simp: in_set_conv_nth)
    with c show "of_bool (admitted q) \<le> eligible L q" by (auto simp: cap_inv_def eligible_def admitted_def)
  qed
  with c assms(3) show ?thesis by (simp add: sum_of_bool_filter cap_inv_def)
qed

theorem forwarder_limit_witness:
  "\<exists>f. exec fwd_step ([FStart True True True False, FStart True True True False, FMain 0 True, FMain 1 True,
         FMain 0 True, FMain 1 True, FMain 0 True]) (New 1) = Some f
     \<and> int (length (filter admitted (pairs f))) \<le> 1 \<and> Count f = 2"
proof -
  let ?es = "[FStart True True True False, FStart True True True False, FMain 0 True, FMain 1 True,
         FMain 0 True, FMain 1 True, FMain 0 True]"
  have "case exec fwd_step ?es (New 1) of None \<Rightarrow> False | Some f \<Rightarrow> Count f = 2" by code_simp
  then obtain f where f: "exec fwd_step ?es (New 1) = Some f" "Count f = 2" by (auto split: option.splits)
  with forwarder_limit [OF f(1), of 1] show ?thesis by simp
qed

text \<open>Whenever no direction is between its decrement of remaining and its update of numHalfOpen,
  HalfOpenCount is the number of pairs with exactly one direction left.\<close>

theorem half_open_exact:
  assumes "exec fwd_step es (New n) = Some f"
    and "\<forall>q \<in> set (pairs f). {pc1 q, pc2 q} \<inter> {DHalf, DFull} = {}"
  shows "HalfOpenCount f = int (length (filter (\<lambda>q. remaining q = 1) (pairs f)))"
proof -
  have i: "fwd_inv f" by (rule fwd_reachable_inv [OF assms(1)])
  have "half q = of_bool (remaining q = 1)" if "q \<in> set (pairs f)" for q
    using that fwd_inv_set [OF i] assms(2) by (intro half_remaining) auto
  then have "map half (pairs f) = map (\<lambda>q. of_bool (remaining q = 1)) (pairs f)" by simp
  with i show ?thesis by (simp add: HalfOpenCount_def fwd_inv_def sum_of_bool_filter)
qed

theorem half_open_exact_witness:
  "\<exists>f. exec fwd_step (FStart True True True False # replicate 5 (FMain 0 True) @ replicate 5 (FRun 0 D1 CopyEOF)) (New 1)
      = Some f \<and> HalfOpenCount f = int (length (filter (\<lambda>q. remaining q = 1) (pairs f))) \<and> HalfOpenCount f = 1"
proof -
  let ?es = "FStart True True True False # replicate 5 (FMain 0 True) @ replicate 5 (FRun 0 D1 CopyEOF)"
  have "case exec fwd_step ?es (New 1) of None \<Rightarrow> False
      | Some f \<Rightarrow> (\<forall>q \<in> set (pairs f). {pc1 q, pc2 q} \<inter> {DHalf, DFull} = {}) \<and> HalfOpenCount f = 1"
    by code_simp
  then obtain f where f: "exec fwd_step ?es (New 1) = Some f"
    "\<forall>q \<in> set (pairs f). {pc1 q, pc2 q} \<inter> {DHalf, DFull} = {}" "HalfOpenCount f = 1" by (auto split: option.splits)
  with half_open_exact [OF f(1,2)] show ?thesis by simp
qed

text \<open>The decrement of remaining and the counter update are separate operations, so the last
  direction can be counted before the first: HalfOpenCount is then -1, and the statistics, which
  convert it to uint32, report 4294967295 half-open streams.\<close>

theorem half_open_negative:
  "\<exists>es f. exec fwd_step es (New 10) = Some f \<and> HalfOpenCount f = -1 \<and> to_u32 (HalfOpenCount f) = 4294967295"
proof -
  let ?es = "FStart True True True False # replicate 5 (FMain 0 True) @ replicate 4 (FRun 0 D1 CopyEOF)
      @ replicate 5 (FRun 0 D2 CopyEOF)"
  have "case exec fwd_step ?es (New 10) of None \<Rightarrow> False | Some f \<Rightarrow> HalfOpenCount f = -1" by code_simp
  then obtain f where "exec fwd_step ?es (New 10) = Some f" "HalfOpenCount f = -1" by (auto split: option.splits)
  then show ?thesis by (intro exI [of _ ?es] exI [of _ f]) (simp add: to_u32_def del: exec.simps)
qed

end
