(* ===== verification/Tunnel.thy ===== *)
theory Tunnel
  imports Config Context_Mgr Latency
begin

text \<open>
  Tunnels and their sessions: \<^verbatim>\<open>v4/tunnel.go\<close>, with the session interface of \<^verbatim>\<open>v4/mux/session.go\<close>.
  A mux session is represented by what the tunnel can observe of it (closed or not, its metrics, its
  identity and addresses); sessions and tunnels live in stores indexed by numbers.  The \<open>world\<close>
  record holds the stores, the current config and the counters of the server that the tunnel code
  updates; \<^verbatim>\<open>Server\<close> extends it.  Each lock-protected section is one step; blocking calls
  (\<^verbatim>\<open>Dial\<close>, the selects) are where a step ends, so that every interleaving of dialers, the redial
  loop, watchers and \<^verbatim>\<open>Stop\<close> is a schedule.  Results of the mux layer, of \<^verbatim>\<open>g.Go\<close>, random numbers
  and times are arguments.
\<close>

section \<open>The session interface\<close>

record session_metrics =
  StreamsOpened :: u64
  StreamsAccepted :: u64
  StreamsSucceeded :: u64
  StreamsFailed :: u64
  NumStreams :: int
  BytesSent :: u64
  BytesReceived :: u64
  WireLengthSent :: u64
  WireLengthReceived :: u64

record session =
  sess_closed :: bool
  sess_metrics :: "session_metrics option"
  PeerIdentity :: string
  LocalAddr :: "addr option"    \<comment> \<open>a nil net.Addr is None, otherwise its String()\<close>
  RemoteAddr :: "addr option"
  idle_sig :: bool              \<comment> \<open>a pending signal on IdleChan\<close>

type_synonym sid = nat
type_synonym tid = nat

section \<open>Tunnel state\<close>

datatype dial_error =
    ErrNoDialAddress | ErrDialInProgress | ErrNoSession | ErrTunnelStopped
  | DialFailed | SpawnFailed | OpenFailed

text \<open>Where the redial loop \<^verbatim>\<open>run\<close> is: not started, before \<^verbatim>\<open>maintenance\<close>, inside \<^verbatim>\<open>Dial\<close>, or in its select,
  with or without a timer.\<close>

datatype loop_pc = LoopOff | LoopMaint | LoopDial | LoopWait "go_duration option" | LoopExit

datatype dial_holder = HeldByLoop | HeldByOpen

record tunnel =
  dialAddr :: addr
  tag :: string
  ss :: "sid option"
  idleSince :: go_time     \<comment> \<open>0 is the zero time\<close>
  stale :: bool
  idleEvicted :: bool
  lastIdentity :: string
  stopped :: bool          \<comment> \<open>closeSig is closed\<close>
  redialSig :: nat         \<comment> \<open>tokens in the channel of capacity 1\<close>
  redialCount :: int
  dialMu :: "dial_holder option"
  lastChanged :: go_time
  streamLatency :: latency_ring
  loop :: loop_pc

record server_counters =
  numSessions :: u32
  numSessionsCreated :: u64
  numSessionsFinalized :: u64
  numHalfOpen :: u32
  accepted :: u64
  served :: u64
  authorized :: u64
  request :: u64
  success :: u64
  muxBytesReceived :: u64
  muxBytesSent :: u64
  payloadBytesReceived :: u64
  payloadBytesSent :: u64

datatype watch_pc = WatchOff | WatchWait | WatchCheck | WatchTimer

record world =
  w_cfg :: config_file
  sessions :: "sid \<Rightarrow> session"
  next_sid :: sid
  tunnels :: "tid \<Rightarrow> tunnel"
  stats :: server_counters
  events :: "(go_time \<times> string) list"        \<comment> \<open>what was passed to recentEvents.Add, oldest first\<close>
  finalizers :: "(tid \<times> sid) set"             \<comment> \<open>goroutines waiting to call finalizeSession\<close>
  acceptedTunnels :: "sid \<rightharpoonup> tid"
  idle_watch :: "tid \<times> sid \<Rightarrow> watch_pc"       \<comment> \<open>goroutines in watchIdleSession\<close>

definition upd_tunnel :: "tid \<Rightarrow> (tunnel \<Rightarrow> tunnel) \<Rightarrow> 'a world_scheme \<Rightarrow> 'a world_scheme" where
  "upd_tunnel t f w = w\<lparr>tunnels := (tunnels w)(t := f (tunnels w t))\<rparr>"

definition sess_close :: "sid \<Rightarrow> 'a world_scheme \<Rightarrow> 'a world_scheme" where
  "sess_close s w = w\<lparr>sessions := (sessions w)(s := (sessions w s)\<lparr>sess_closed := True\<rparr>)\<rparr>"

definition IsClosed :: "'a world_scheme \<Rightarrow> sid \<Rightarrow> bool" where
  "IsClosed w s = sess_closed (sessions w s)"

definition add_event :: "go_time \<Rightarrow> string \<Rightarrow> 'a world_scheme \<Rightarrow> 'a world_scheme" where
  "add_event now msg w = w\<lparr>events := events w @ [(now, msg)]\<rparr>"

section \<open>Tags\<close>

text \<open>An address argument is \<open>None\<close> for nil; a connection is \<open>None\<close> for nil or its two addresses.\<close>

type_synonym conn_addrs = "(addr option \<times> addr option) option"

definition addr_label :: "addr option \<Rightarrow> string" where
  "addr_label a = (case a of None \<Rightarrow> ''?'' | Some x \<Rightarrow> if x \<noteq> '''' then x else ''?'')"

definition resolveMeLabel :: "string \<Rightarrow> addr option \<Rightarrow> conn_addrs \<Rightarrow> string" where
  "resolveMeLabel identity localAddr conn =
     (if identity \<noteq> '''' then identity
      else addr_label (if localAddr = None \<and> conn \<noteq> None then fst (the conn) else localAddr))"

definition resolvePeerLabel :: "string \<Rightarrow> string \<Rightarrow> addr option \<Rightarrow> conn_addrs \<Rightarrow> string" where
  "resolvePeerLabel peerIdentity peerID peerAddr conn =
     (if peerIdentity \<noteq> '''' then peerIdentity
      else if peerID \<noteq> '''' then peerID
      else addr_label (if peerAddr = None \<and> conn \<noteq> None then snd (the conn) else peerAddr))"

definition formatTunnelTag ::
  "bool \<Rightarrow> string \<Rightarrow> string \<Rightarrow> string \<Rightarrow> addr option \<Rightarrow> addr option \<Rightarrow> conn_addrs \<Rightarrow> string" where
  "formatTunnelTag outbound identity peerIdentity peerID localAddr peerAddr conn =
     resolveMeLabel identity localAddr conn @ '' '' @ (if outbound then ''=>'' else ''<='') @ '' ''
       @ resolvePeerLabel peerIdentity peerID peerAddr conn"

definition formatStreamTag ::
  "bool \<Rightarrow> string \<Rightarrow> string \<Rightarrow> string \<Rightarrow> addr option \<Rightarrow> addr option \<Rightarrow> conn_addrs \<Rightarrow> string" where
  "formatStreamTag outbound identity peerIdentity peerID localAddr peerAddr conn =
     resolveMeLabel identity localAddr conn @ '' '' @ (if outbound then ''->'' else ''<-'') @ '' ''
       @ resolvePeerLabel peerIdentity peerID peerAddr conn"

definition defaultDirectionOutbound :: "tunnel \<Rightarrow> bool" where
  "defaultDirectionOutbound t = (dialAddr t \<noteq> '''')"

definition buildTunnelTag :: "config_file \<Rightarrow> tunnel \<Rightarrow> session option \<Rightarrow> conn_addrs \<Rightarrow> string" where
  "buildTunnelTag cfg t sess conn =
     (case sess of
        None \<Rightarrow> formatTunnelTag (defaultDirectionOutbound t) (Claim (Identity cfg)) '''' (dialAddr t) None None conn
      | Some x \<Rightarrow> formatTunnelTag (defaultDirectionOutbound t) (Claim (Identity cfg)) (PeerIdentity x) (dialAddr t)
                    (LocalAddr x) (RemoteAddr x) conn)"

definition updateTagLocked :: "config_file \<Rightarrow> session option \<Rightarrow> conn_addrs \<Rightarrow> tunnel \<Rightarrow> tunnel" where
  "updateTagLocked cfg sess conn t = t\<lparr>tag := buildTunnelTag cfg t sess conn\<rparr>"

definition newTunnel :: "config_file \<Rightarrow> addr \<Rightarrow> tunnel" where
  "newTunnel cfg a =
     (let t = \<lparr>dialAddr = a, tag = '''', ss = None, idleSince = 0, stale = False, idleEvicted = False,
               lastIdentity = '''', stopped = False, redialSig = 0, redialCount = 0, dialMu = None,
               lastChanged = 0, streamLatency = new_latency_ring, loop = LoopOff\<rparr>
      in t\<lparr>tag := buildTunnelTag cfg t None None\<rparr>)"

section \<open>Operations\<close>

text \<open>\<open>go_ok\<close> is whether \<^verbatim>\<open>g.Go\<close> accepts the goroutine.\<close>

definition Start :: "bool \<Rightarrow> tid \<Rightarrow> 'a world_scheme \<Rightarrow> dial_error option \<times> 'a world_scheme" where
  "Start go_ok t w =
     (if dialAddr (tunnels w t) \<noteq> ''''
      then if go_ok then (None, upd_tunnel t (\<lambda>x. x\<lparr>loop := LoopMaint\<rparr>) w) else (Some SpawnFailed, w)
      else (None, w))"

definition close_current :: "tid \<Rightarrow> 'a world_scheme \<Rightarrow> 'a world_scheme" where
  "close_current t w =
     (case ss (tunnels w t) of
        None \<Rightarrow> w
      | Some s \<Rightarrow> if \<not> IsClosed w s then sess_close s w else w)"

definition Stop :: "tid \<Rightarrow> 'a world_scheme \<Rightarrow> 'a world_scheme" where
  "Stop t w =
     (if stopped (tunnels w t) then w
      else close_current t (upd_tunnel t (\<lambda>x. x\<lparr>stopped := True\<rparr>) w))"

definition num_streams :: "session \<Rightarrow> int" where
  "num_streams x = (case sess_metrics x of None \<Rightarrow> 0 | Some m \<Rightarrow> NumStreams m)"

definition checkIdle :: "go_time \<Rightarrow> tid \<Rightarrow> 'a world_scheme \<Rightarrow> 'a world_scheme" where
  "checkIdle now t w =
     (let x = tunnels w t; idleTimeout = IdleTimeout (w_cfg w)
      in case ss x of
           None \<Rightarrow> w
         | Some s \<Rightarrow>
             if IsClosed w s then w
             else let numStreams = num_streams (sessions w s)
                  in if stale x \<and> numStreams = 0 then sess_close s w
                     else let since = (if numStreams = 0 then if idleSince x = 0 then now else idleSince x else 0)
                          in if idleTimeout > 0 \<and> since \<noteq> 0 \<and> time_sub now since \<ge> idleTimeout
                             then sess_close s (upd_tunnel t (\<lambda>x. x\<lparr>idleSince := since, idleEvicted := True\<rparr>) w)
                             else upd_tunnel t (\<lambda>x. x\<lparr>idleSince := since\<rparr>) w)"

definition getSession :: "'a world_scheme \<Rightarrow> tid \<Rightarrow> sid option" where
  "getSession w t =
     (case ss (tunnels w t) of
        None \<Rightarrow> None
      | Some s \<Rightarrow> if IsClosed w s then None else Some s)"

definition flushSessionMetrics :: "sid \<Rightarrow> 'a world_scheme \<Rightarrow> 'a world_scheme" where
  "flushSessionMetrics s w =
     (case sess_metrics (sessions w s) of
        None \<Rightarrow> w
      | Some m \<Rightarrow> w\<lparr>stats := (stats w)\<lparr>
            payloadBytesReceived := payloadBytesReceived (stats w) + BytesReceived m,
            payloadBytesSent := payloadBytesSent (stats w) + BytesSent m,
            muxBytesReceived := muxBytesReceived (stats w) + WireLengthReceived m,
            muxBytesSent := muxBytesSent (stats w) + WireLengthSent m\<rparr>\<rparr>)"

text \<open>The idle watcher returns at once when the session has no \<^verbatim>\<open>IdleChan\<close>, which is when it keeps no
  statistics; its start is not checked for errors.\<close>

definition start_watch :: "bool \<Rightarrow> tid \<Rightarrow> sid \<Rightarrow> 'a world_scheme \<Rightarrow> 'a world_scheme" where
  "start_watch go_ok t s w =
     (if go_ok \<and> sess_metrics (sessions w s) \<noteq> None
      then w\<lparr>idle_watch := (idle_watch w)((t, s) := WatchWait)\<rparr> else w)"

text \<open>\<open>took\<close> is the formatted setup time; \<open>go_ok\<close> whether the idle watcher could be started.\<close>

definition addSession ::
  "go_time \<Rightarrow> string \<Rightarrow> bool \<Rightarrow> tid \<Rightarrow> sid \<Rightarrow> 'a world_scheme \<Rightarrow> bool \<times> 'a world_scheme" where
  "addSession now took go_ok t s w =
     (if stopped (tunnels w t) then (False, w)
      else
        let w = close_current t w;
            w = upd_tunnel t (\<lambda>x. (updateTagLocked (w_cfg w) (Some (sessions w s)) None (x\<lparr>ss := Some s\<rparr>))
                  \<lparr>stale := False, idleEvicted := False, idleSince := 0,
                   lastIdentity := PeerIdentity (sessions w s), lastChanged := now\<rparr>) w;
            w = w\<lparr>stats := (stats w)\<lparr>numSessions := numSessions (stats w) + 1,
                                      numSessionsCreated := numSessionsCreated (stats w) + 1\<rparr>\<rparr>;
            w = add_event now (tag (tunnels w t) @ '': session established (setup: '' @ took @ '')'') w
        in (True, start_watch go_ok t s w))"

definition finalizeSession :: "go_time \<Rightarrow> tid \<Rightarrow> sid \<Rightarrow> 'a world_scheme \<Rightarrow> 'a world_scheme" where
  "finalizeSession now t s w =
     (let x = tunnels w t;
          current = (ss x = Some s);
          w = (if current
               then upd_tunnel t (\<lambda>x. x\<lparr>ss := None, idleSince := 0, idleEvicted := False, lastChanged := now,
                      redialSig := (if \<not> idleEvicted x \<and> dialAddr x \<noteq> '''' then 1 else redialSig x)\<rparr>) w
               else w);
          w = flushSessionMetrics s w;
          w = w\<lparr>stats := (stats w)\<lparr>numSessions := numSessions (stats w) - 1,
                                    numSessionsFinalized := numSessionsFinalized (stats w) + 1\<rparr>\<rparr>
      in add_event now (tag x @ '': session closed'') w)"

subsection \<open>Dialing\<close>

text \<open>\<^verbatim>\<open>dial\<close> up to the blocking call of the dialer: an error, or the dial lock is held.\<close>

definition dial_begin :: "dial_holder \<Rightarrow> tid \<Rightarrow> 'a world_scheme \<Rightarrow> dial_error option \<times> 'a world_scheme" where
  "dial_begin h t w =
     (if dialAddr (tunnels w t) = '''' then (Some ErrNoDialAddress, w)
      else if dialMu (tunnels w t) \<noteq> None then (Some ErrDialInProgress, w)
      else (None, upd_tunnel t (\<lambda>x. x\<lparr>dialMu := Some h\<rparr>) w))"

text \<open>What the dialer returned, and whether each of the goroutines started afterwards was accepted:
  the idle watcher, the finalizer, the closer and the acceptor.\<close>

record dial_outcome =
  dialed :: "session option"
  d_now :: go_time
  d_setup :: string
  go_watch :: bool
  go_final :: bool
  go_close :: bool
  go_accept :: bool

definition alloc_session :: "session \<Rightarrow> 'a world_scheme \<Rightarrow> sid \<times> 'a world_scheme" where
  "alloc_session x w = (next_sid w, w\<lparr>sessions := (sessions w)(next_sid w := x), next_sid := Suc (next_sid w)\<rparr>)"

text \<open>The rest of \<^verbatim>\<open>dial\<close>, while the dial lock is held, up to its deferred release.\<close>

definition dial_install :: "dial_outcome \<Rightarrow> tid \<Rightarrow> 'a world_scheme \<Rightarrow> (dial_error + sid) \<times> 'a world_scheme" where
  "dial_install d t w =
     (case dialed d of
        None \<Rightarrow> (Inl DialFailed, w)
      | Some x \<Rightarrow>
          let (s, w) = alloc_session x w;
              (ok, w) = addSession (d_now d) (d_setup d) (go_watch d) t s w
          in if \<not> ok then (Inl ErrTunnelStopped, sess_close s w)
             else if \<not> go_final d then (Inl SpawnFailed, finalizeSession (d_now d) t s (sess_close s w))
             else let w = w\<lparr>finalizers := insert (t, s) (finalizers w)\<rparr>
                  in if \<not> go_close d \<or> \<not> go_accept d then (Inl SpawnFailed, sess_close s w)
                     else (Inr s, w))"

definition dial_finish :: "dial_outcome \<Rightarrow> tid \<Rightarrow> 'a world_scheme \<Rightarrow> (dial_error + sid) \<times> 'a world_scheme" where
  "dial_finish d t w =
     (let (r, w) = dial_install d t w in (r, upd_tunnel t (\<lambda>x. x\<lparr>dialMu := None\<rparr>) w))"

text \<open>\<^verbatim>\<open>dial\<close> without interference while it blocks.\<close>

definition dial :: "dial_holder \<Rightarrow> dial_outcome \<Rightarrow> tid \<Rightarrow> 'a world_scheme \<Rightarrow> (dial_error + sid) \<times> 'a world_scheme" where
  "dial h d t w =
     (case dial_begin h t w of
        (Some e, w) \<Rightarrow> (Inl e, w)
      | (None, w) \<Rightarrow> dial_finish d t w)"

text \<open>The bookkeeping of \<^verbatim>\<open>redial\<close> after \<^verbatim>\<open>dial\<close> returned; \<^verbatim>\<open>redialCount\<close> saturates at \<^verbatim>\<open>math.MaxInt\<close>.\<close>

definition redial_result :: "dial_error option \<Rightarrow> tunnel \<Rightarrow> tunnel" where
  "redial_result e x =
     (case e of
        None \<Rightarrow> x\<lparr>redialCount := 0\<rparr>
      | Some err \<Rightarrow>
          if err \<notin> {ErrNoDialAddress, ErrDialInProgress, ErrTunnelStopped}
          then x\<lparr>redialCount := (if redialCount x < max_int64 then redialCount x + 1 else redialCount x)\<rparr>
          else x\<lparr>redialCount := 0\<rparr>)"

definition millisecond :: go_duration where
  "millisecond = 1000000"

definition minute :: go_duration where
  "minute = 60 * second"

definition waitTimeConst :: "go_duration list" where
  "waitTimeConst = [200 * millisecond, 2 * second, 2 * second, 5 * second, 5 * second,
     15 * second, 15 * second, 15 * second, 1 * minute, 1 * minute, 2 * minute, 5 * minute, 10 * minute]"

text \<open>\<open>rnd n\<close> stands for \<^verbatim>\<open>rand.Int63n(n)\<close>; the result is the duration of the timer, none for a nil channel.\<close>

definition schedule :: "(int \<Rightarrow> int) \<Rightarrow> config_file \<Rightarrow> tunnel \<Rightarrow> go_duration option" where
  "schedule rnd cfg x =
     (if NoRedial cfg \<or> dialAddr x = '''' \<or> redialCount x < 1 then None
      else let n = nat (redialCount x - 1);
               waitTime = (if n < length waitTimeConst then waitTimeConst ! n
                           else waitTimeConst ! (length waitTimeConst - 1))
           in Some (waitTime + (rnd (waitTime * 2 div 5) - waitTime div 5)))"

section \<open>The redial loop\<close>

text \<open>\<^verbatim>\<open>maintenance\<close> at the head of the loop; \<open>ctx\<close> is whether \<^verbatim>\<open>withTimeout\<close> returned a context.\<close>

definition loop_maintenance :: "bool \<Rightarrow> (int \<Rightarrow> int) \<Rightarrow> tid \<Rightarrow> 'a world_scheme \<Rightarrow> 'a world_scheme" where
  "loop_maintenance ctx rnd t w =
     (let wait = (\<lambda>w. upd_tunnel t (\<lambda>x. x\<lparr>loop := LoopWait (schedule rnd (w_cfg w) x)\<rparr>) w)
      in if getSession w t = None \<and> \<not> NoRedial (w_cfg w) \<and> dialAddr (tunnels w t) \<noteq> '''' \<and> ctx
         then (case dial_begin HeldByLoop t w of
                 (None, w) \<Rightarrow> upd_tunnel t (\<lambda>x. x\<lparr>loop := LoopDial\<rparr>) w
               | (Some e, w) \<Rightarrow> wait (upd_tunnel t (redial_result (Some e)) w))
         else wait w)"

definition err_of :: "'e + 'a \<Rightarrow> 'e option" where
  "err_of r = (case r of Inl e \<Rightarrow> Some e | Inr _ \<Rightarrow> None)"

definition loop_dialed :: "dial_outcome \<Rightarrow> (int \<Rightarrow> int) \<Rightarrow> tid \<Rightarrow> 'a world_scheme \<Rightarrow> 'a world_scheme" where
  "loop_dialed d rnd t w =
     (let (r, w) = dial_finish d t w;
          w = upd_tunnel t (redial_result (err_of r)) w
      in upd_tunnel t (\<lambda>x. x\<lparr>loop := LoopWait (schedule rnd (w_cfg w) x)\<rparr>) w)"

definition loop_exit :: "tid \<Rightarrow> 'a world_scheme \<Rightarrow> 'a world_scheme" where
  "loop_exit t w = upd_tunnel t (\<lambda>x. x\<lparr>loop := LoopExit\<rparr>) (close_current t w)"

section \<open>OpenStream\<close>

text \<open>\<^verbatim>\<open>OpenStream\<close> up to the dialer: an error, the session to open a stream on, or a dial in progress.\<close>

datatype open_begin = OpenErr dial_error | OpenOn sid | OpenDialing

definition OpenStream_begin :: "tid \<Rightarrow> 'a world_scheme \<Rightarrow> open_begin \<times> 'a world_scheme" where
  "OpenStream_begin t w =
     (case getSession w t of
        Some s \<Rightarrow> (OpenOn s, w)
      | None \<Rightarrow>
          if dialAddr (tunnels w t) = '''' then (OpenErr ErrNoSession, w)
          else (case dial_begin HeldByOpen t w of
                  (Some e, w) \<Rightarrow> (OpenErr e, w)
                | (None, w) \<Rightarrow> (OpenDialing, w)))"

text \<open>The end of \<^verbatim>\<open>OpenStream\<close>: \<open>opened\<close> is the time \<^verbatim>\<open>ss.Open\<close> took, none if it failed.\<close>

definition OpenStream_open :: "go_duration option \<Rightarrow> tid \<Rightarrow> 'a world_scheme \<Rightarrow> dial_error option \<times> 'a world_scheme" where
  "OpenStream_open opened t w =
     (case opened of
        None \<Rightarrow> (Some OpenFailed, w)
      | Some d \<Rightarrow> (None, upd_tunnel t (\<lambda>x. x\<lparr>streamLatency := Record d (streamLatency x)\<rparr>) w))"

definition OpenStream ::
  "dial_outcome \<Rightarrow> go_duration option \<Rightarrow> tid \<Rightarrow> 'a world_scheme \<Rightarrow> dial_error option \<times> 'a world_scheme" where
  "OpenStream d opened t w =
     (case OpenStream_begin t w of
        (OpenErr e, w) \<Rightarrow> (Some e, w)
      | (OpenOn s, w) \<Rightarrow> OpenStream_open opened t w
      | (OpenDialing, w) \<Rightarrow>
          (case dial_finish d t w of
             (Inl e, w) \<Rightarrow> (Some e, w)
           | (Inr s, w) \<Rightarrow> OpenStream_open opened t w))"

section \<open>The idle watcher\<close>

datatype watch_sig = SigIdle | SigClose | SigGroup | SigTimer | SigStep

text \<open>One turn of the loop in \<^verbatim>\<open>watchIdleSession\<close>: \<open>WatchWait\<close> is the first select, \<open>WatchCheck\<close> the
  immediate check after it and \<open>WatchTimer\<close> the select with the timer.\<close>

definition watchIdleSession :: "watch_sig \<Rightarrow> go_time \<Rightarrow> tid \<Rightarrow> sid \<Rightarrow> 'a world_scheme \<Rightarrow> 'a world_scheme option" where
  "watchIdleSession sg now t s w =
     (let goto = (\<lambda>pc w. w\<lparr>idle_watch := (idle_watch w)((t, s) := pc)\<rparr>);
          take = (\<lambda>w. w\<lparr>sessions := (sessions w)(s := (sessions w s)\<lparr>idle_sig := False\<rparr>)\<rparr>)
      in case idle_watch w (t, s) of
           WatchOff \<Rightarrow> None
         | WatchWait \<Rightarrow>
             (case sg of
                SigIdle \<Rightarrow> if idle_sig (sessions w s) then Some (goto WatchCheck (take w)) else None
              | SigClose \<Rightarrow> if IsClosed w s then Some (goto WatchOff w) else None
              | SigGroup \<Rightarrow> Some (goto WatchOff w)
              | _ \<Rightarrow> None)
         | WatchCheck \<Rightarrow>
             if sg \<noteq> SigStep then None
             else let w = checkIdle now t w
                  in if IsClosed w s then Some (goto WatchOff w)
                     else if IdleTimeout (w_cfg w) \<le> 0 then Some (goto WatchWait w)
                     else Some (goto WatchTimer w)
         | WatchTimer \<Rightarrow>
             (case sg of
                SigTimer \<Rightarrow> Some (goto WatchWait (checkIdle now t w))
              | SigIdle \<Rightarrow> if idle_sig (sessions w s) then Some (goto WatchCheck (take w)) else None
              | SigClose \<Rightarrow> if IsClosed w s then Some (goto WatchOff w) else None
              | SigGroup \<Rightarrow> Some (goto WatchOff w)
              | _ \<Rightarrow> None))"

section \<open>Statistics\<close>

record latency_stats =
  P50 :: go_duration
  P90 :: go_duration
  P99 :: go_duration
  Max :: go_duration
  Available :: bool

record session_stats =
  s_PeerIdentity :: string
  s_LastChanged :: go_time
  Active :: bool
  s_StreamsOpened :: u64
  s_StreamsAccepted :: u64
  s_StreamsSucceeded :: u64
  s_StreamsFailed :: u64
  s_NumStreams :: u32
  s_BytesSent :: u64
  s_BytesReceived :: u64
  s_WireLengthSent :: u64
  s_WireLengthReceived :: u64
  s_StreamLatency :: latency_stats

definition zero_metrics :: session_metrics where
  "zero_metrics = \<lparr>StreamsOpened = 0, StreamsAccepted = 0, StreamsSucceeded = 0, StreamsFailed = 0, NumStreams = 0,
     BytesSent = 0, BytesReceived = 0, WireLengthSent = 0, WireLengthReceived = 0\<rparr>"

definition latency_stats_of :: "percentiles option \<Rightarrow> latency_stats" where
  "latency_stats_of p =
     (case p of
        None \<Rightarrow> \<lparr>P50 = 0, P90 = 0, P99 = 0, Max = 0, Available = False\<rparr>
      | Some q \<Rightarrow> \<lparr>P50 = p50 q, P90 = p90 q, P99 = p99 q, Max = pmax q, Available = True\<rparr>)"

definition tunnel_Stats :: "'a world_scheme \<Rightarrow> tid \<Rightarrow> session_stats" where
  "tunnel_Stats w t =
     (let x = tunnels w t;
          m = (case getSession w t of None \<Rightarrow> zero_metrics
                 | Some s \<Rightarrow> (case sess_metrics (sessions w s) of None \<Rightarrow> zero_metrics | Some m \<Rightarrow> m))
      in \<lparr>s_PeerIdentity = (case getSession w t of None \<Rightarrow> '''' | Some s \<Rightarrow> PeerIdentity (sessions w s)),
          s_LastChanged = lastChanged x, Active = (getSession w t \<noteq> None),
          s_StreamsOpened = StreamsOpened m, s_StreamsAccepted = StreamsAccepted m,
          s_StreamsSucceeded = StreamsSucceeded m, s_StreamsFailed = StreamsFailed m,
          s_NumStreams = to_u32 (NumStreams m), s_BytesSent = BytesSent m, s_BytesReceived = BytesReceived m,
          s_WireLengthSent = WireLengthSent m, s_WireLengthReceived = WireLengthReceived m,
          s_StreamLatency = latency_stats_of (Percentiles (streamLatency x))\<rparr>)"

section \<open>Inbound sessions\<close>

text \<open>\<^verbatim>\<open>serveSession\<close> of the server up to its accept loop, and its deferred function.  \<open>t\<close> is the fresh
  inbound tunnel.  When the first goroutine cannot be started the function returns at once.\<close>

definition serveSession_begin ::
  "go_time \<Rightarrow> string \<Rightarrow> bool \<Rightarrow> bool \<Rightarrow> tid \<Rightarrow> sid \<Rightarrow> 'a world_scheme \<Rightarrow> 'a world_scheme" where
  "serveSession_begin now took gc gw t s w =
     (if \<not> gc then w
      else
        let inbound = (updateTagLocked (w_cfg w) (Some (sessions w s)) None ((newTunnel (w_cfg w) '''')\<lparr>ss := Some s\<rparr>))
                        \<lparr>lastChanged := now\<rparr>;
            w = upd_tunnel t (\<lambda>_. inbound) w;
            w = add_event now (tag inbound @ '': session established (setup: '' @ took @ '')'') w;
            w = w\<lparr>stats := (stats w)\<lparr>authorized := authorized (stats w) + 1,
                                      numSessions := numSessions (stats w) + 1,
                                      numSessionsCreated := numSessionsCreated (stats w) + 1\<rparr>,
                   acceptedTunnels := (acceptedTunnels w)(s \<mapsto> t)\<rparr>
        in start_watch gw t s w)"

definition serveSession_end :: "go_time \<Rightarrow> tid \<Rightarrow> sid \<Rightarrow> 'a world_scheme \<Rightarrow> 'a world_scheme" where
  "serveSession_end now t s w =
     (let w = add_event now (tag (tunnels w t) @ '': session closed'') w;
          w = flushSessionMetrics s w
      in w\<lparr>stats := (stats w)\<lparr>numSessions := numSessions (stats w) - 1,
                               numSessionsFinalized := numSessionsFinalized (stats w) + 1\<rparr>,
           acceptedTunnels := (acceptedTunnels w)(s := None)\<rparr>)"

section \<open>Schedules\<close>

datatype tun_event =
    EStart tid bool
  | EStop tid
  | ELoopMaint tid bool int               \<comment> \<open>context available, random number\<close>
  | ELoopDialed tid dial_outcome int
  | ELoopWake tid
  | ELoopTimer tid
  | ELoopExit tid
  | EOpen tid
  | EOpenDialed tid dial_outcome
  | EOpened tid "go_duration option"
  | ECloseSession sid                     \<comment> \<open>closed by the peer, the transport or the group\<close>
  | EFinalize go_time tid sid
  | EWatch watch_sig go_time tid sid
  | EStreams sid int                      \<comment> \<open>the mux layer changes NumStreams\<close>
  | EConfig config_file
  | EStale go_time tid
  | EServe go_time string bool bool tid session
  | EServeEnd go_time tid sid

definition set_streams :: "sid \<Rightarrow> int \<Rightarrow> 'a world_scheme \<Rightarrow> 'a world_scheme" where
  "set_streams s n w =
     w\<lparr>sessions := (sessions w)(s := (sessions w s)
         \<lparr>sess_metrics := map_option (\<lambda>m. m\<lparr>NumStreams := n\<rparr>) (sess_metrics (sessions w s)),
          idle_sig := (n = 0 \<or> idle_sig (sessions w s))\<rparr>)\<rparr>"

fun tun_step :: "tun_event \<Rightarrow> world \<Rightarrow> world option" where
  "tun_step (EStart t go) w = (if loop (tunnels w t) = LoopOff then Some (snd (Start go t w)) else None)"
| "tun_step (EStop t) w = Some (Stop t w)"
| "tun_step (ELoopMaint t ctx r) w =
     (if loop (tunnels w t) = LoopMaint then Some (loop_maintenance ctx (\<lambda>_. r) t w) else None)"
| "tun_step (ELoopDialed t d r) w =
     (if loop (tunnels w t) = LoopDial then Some (loop_dialed d (\<lambda>_. r) t w) else None)"
| "tun_step (ELoopWake t) w =
     (case loop (tunnels w t) of
        LoopWait _ \<Rightarrow> if redialSig (tunnels w t) > 0
          then Some (upd_tunnel t (\<lambda>x. x\<lparr>redialSig := redialSig x - 1, loop := LoopMaint\<rparr>) w) else None
      | _ \<Rightarrow> None)"
| "tun_step (ELoopTimer t) w =
     (case loop (tunnels w t) of
        LoopWait (Some d) \<Rightarrow> Some (upd_tunnel t (\<lambda>x. x\<lparr>loop := LoopMaint\<rparr>) w)
      | _ \<Rightarrow> None)"
| "tun_step (ELoopExit t) w =
     (case loop (tunnels w t) of LoopWait _ \<Rightarrow> Some (loop_exit t w) | _ \<Rightarrow> None)"
| "tun_step (EOpen t) w = Some (snd (OpenStream_begin t w))"
| "tun_step (EOpenDialed t d) w =
     (if dialMu (tunnels w t) = Some HeldByOpen then Some (snd (dial_finish d t w)) else None)"
| "tun_step (EOpened t d) w = Some (snd (OpenStream_open d t w))"
| "tun_step (ECloseSession s) w = Some (sess_close s w)"
| "tun_step (EFinalize now t s) w =
     (if (t, s) \<in> finalizers w \<and> IsClosed w s
      then Some ((finalizeSession now t s w)\<lparr>finalizers := finalizers w - {(t, s)}\<rparr>) else None)"
| "tun_step (EWatch sg now t s) w = watchIdleSession sg now t s w"
| "tun_step (EStreams s n) w = Some (set_streams s n w)"
| "tun_step (EConfig c) w = Some (w\<lparr>w_cfg := c\<rparr>)"
| "tun_step (EStale now t) w = Some (checkIdle now t (upd_tunnel t (\<lambda>x. x\<lparr>stale := True\<rparr>) w))"
| "tun_step (EServe now took gc gw t x) w =
     (if dialAddr (tunnels w t) = '''' \<and> ss (tunnels w t) = None
      then (let (s, w) = alloc_session x w in Some (serveSession_begin now took gc gw t s w)) else None)"
| "tun_step (EServeEnd now t s) w =
     (if acceptedTunnels w s = Some t then Some (serveSession_end now t s w) else None)"

definition zero_counters :: server_counters where
  "zero_counters = \<lparr>numSessions = 0, numSessionsCreated = 0, numSessionsFinalized = 0, numHalfOpen = 0, accepted = 0,
     served = 0, authorized = 0, request = 0, success = 0, muxBytesReceived = 0, muxBytesSent = 0,
     payloadBytesReceived = 0, payloadBytesSent = 0\<rparr>"

definition zero_session :: session where
  "zero_session = \<lparr>sess_closed = False, sess_metrics = None, PeerIdentity = '''', LocalAddr = None, RemoteAddr = None,
     idle_sig = False\<rparr>"

text \<open>The tunnels a server may use: the address of each, empty for those of inbound sessions.\<close>

definition init_world :: "config_file \<Rightarrow> (tid \<Rightarrow> addr) \<Rightarrow> world" where
  "init_world cfg addrs = \<lparr>w_cfg = cfg, sessions = (\<lambda>_. zero_session), next_sid = 0,
     tunnels = (\<lambda>t. newTunnel cfg (addrs t)), stats = zero_counters, events = [], finalizers = {},
     acceptedTunnels = Map.empty, idle_watch = (\<lambda>_. WatchOff)\<rparr>"

end
