(* ===== verification/Tunnel_Inv.thy ===== *)
theory Tunnel_Inv
  imports Tunnel
begin

text \<open>
  The invariant of tunnels and sessions and the properties that follow from it: session accounting,
  what \<^verbatim>\<open>Stop\<close> guarantees, when a redial is signalled, the bounds of the redial timer, and two
  schedules in which the code does less (a redial loop that sleeps) or more (a session evicted
  right after use) than intended.
\<close>

section \<open>What the primitive updates leave alone\<close>

lemma upd_tunnel_sel [simp]:
  "w_cfg (upd_tunnel t f w) = w_cfg w" "sessions (upd_tunnel t f w) = sessions w"
  "next_sid (upd_tunnel t f w) = next_sid w" "stats (upd_tunnel t f w) = stats w"
  "finalizers (upd_tunnel t f w) = finalizers w" "acceptedTunnels (upd_tunnel t f w) = acceptedTunnels w"
  "tunnels (upd_tunnel t f w) = (tunnels w)(t := f (tunnels w t))" "IsClosed (upd_tunnel t f w) = IsClosed w"
  by (simp_all add: upd_tunnel_def IsClosed_def fun_eq_iff)

lemma sess_close_sel [simp]:
  "w_cfg (sess_close s w) = w_cfg w" "next_sid (sess_close s w) = next_sid w" "stats (sess_close s w) = stats w"
  "finalizers (sess_close s w) = finalizers w" "acceptedTunnels (sess_close s w) = acceptedTunnels w"
  "tunnels (sess_close s w) = tunnels w" "IsClosed (sess_close s w) = (IsClosed w)(s := True)"
  by (simp_all add: sess_close_def IsClosed_def fun_eq_iff)

lemma add_event_sel [simp]:
  "w_cfg (add_event n m w) = w_cfg w" "sessions (add_event n m w) = sessions w"
  "next_sid (add_event n m w) = next_sid w" "stats (add_event n m w) = stats w"
  "finalizers (add_event n m w) = finalizers w" "acceptedTunnels (add_event n m w) = acceptedTunnels w"
  "tunnels (add_event n m w) = tunnels w" "IsClosed (add_event n m w) = IsClosed w"
  by (simp_all add: add_event_def IsClosed_def fun_eq_iff)

lemma start_watch_sel [simp]:
  "w_cfg (start_watch g t s w) = w_cfg w" "sessions (start_watch g t s w) = sessions w"
  "next_sid (start_watch g t s w) = next_sid w" "stats (start_watch g t s w) = stats w"
  "finalizers (start_watch g t s w) = finalizers w" "acceptedTunnels (start_watch g t s w) = acceptedTunnels w"
  "tunnels (start_watch g t s w) = tunnels w" "IsClosed (start_watch g t s w) = IsClosed w"
  by (simp_all add: start_watch_def IsClosed_def fun_eq_iff)

lemma flush_sel [simp]:
  "w_cfg (flushSessionMetrics s w) = w_cfg w" "sessions (flushSessionMetrics s w) = sessions w"
  "next_sid (flushSessionMetrics s w) = next_sid w"
  "finalizers (flushSessionMetrics s w) = finalizers w" "acceptedTunnels (flushSessionMetrics s w) = acceptedTunnels w"
  "tunnels (flushSessionMetrics s w) = tunnels w" "IsClosed (flushSessionMetrics s w) = IsClosed w"
  "numSessions (stats (flushSessionMetrics s w)) = numSessions (stats w)"
  "numSessionsCreated (stats (flushSessionMetrics s w)) = numSessionsCreated (stats w)"
  "numSessionsFinalized (stats (flushSessionMetrics s w)) = numSessionsFinalized (stats w)"
  by (cases "sess_metrics (sessions w s)"; simp add: flushSessionMetrics_def IsClosed_def fun_eq_iff)+

lemma close_current_sel [simp]:
  "w_cfg (close_current t w) = w_cfg w" "next_sid (close_current t w) = next_sid w"
  "stats (close_current t w) = stats w" "finalizers (close_current t w) = finalizers w"
  "acceptedTunnels (close_current t w) = acceptedTunnels w" "tunnels (close_current t w) = tunnels w"
  "ss (tunnels w t) = Some s \<Longrightarrow> IsClosed (close_current t w) s" "IsClosed w s \<Longrightarrow> IsClosed (close_current t w) s"
  by (auto simp: close_current_def split: option.splits)

lemma IsClosed_frame [simp]:
  "IsClosed (w\<lparr>stats := a\<rparr>) = IsClosed w" "IsClosed (w\<lparr>finalizers := b\<rparr>) = IsClosed w"
  "IsClosed (w\<lparr>acceptedTunnels := c\<rparr>) = IsClosed w" "IsClosed (w\<lparr>idle_watch := d\<rparr>) = IsClosed w"
  by (simp_all add: IsClosed_def fun_eq_iff)

section \<open>Invariant\<close>

text \<open>A tunnel's part: the signal channel holds at most one token, the dial lock and the program
  counter of the loop agree, a stopped tunnel has no open session, an installed session of an
  outbound tunnel has its finalizer.\<close>

definition tun_inv :: "world \<Rightarrow> tid \<Rightarrow> bool" where
  "tun_inv w t \<longleftrightarrow>
     (let x = tunnels w t in
        redialSig x \<le> 1
      \<and> (dialMu x = Some HeldByLoop \<longleftrightarrow> loop x = LoopDial)
      \<and> (dialAddr x = '''' \<longrightarrow> dialMu x = None)
      \<and> (\<forall>s. ss x = Some s \<longrightarrow> s < next_sid w
           \<and> (stopped x \<longrightarrow> IsClosed w s)
           \<and> (dialAddr x \<noteq> '''' \<longrightarrow> (t, s) \<in> finalizers w)))"

text \<open>The live sessions: outbound ones with a pending finalizer and inbound ones being served.\<close>

definition live :: "'a world_scheme \<Rightarrow> nat" where
  "live w = card (finalizers w) + card (dom (acceptedTunnels w))"

definition ledger_inv :: "world \<Rightarrow> bool" where
  "ledger_inv w \<longleftrightarrow>
     finite (finalizers w) \<and> finite (dom (acceptedTunnels w))
   \<and> snd ` finalizers w \<subseteq> {..<next_sid w} \<and> dom (acceptedTunnels w) \<subseteq> {..<next_sid w}
   \<and> inj_on snd (finalizers w) \<and> snd ` finalizers w \<inter> dom (acceptedTunnels w) = {}
   \<and> numSessions (stats w) = of_nat (live w)
   \<and> numSessionsCreated (stats w) = numSessionsFinalized (stats w) + of_nat (live w)"

definition world_inv :: "world \<Rightarrow> bool" where
  "world_inv w \<longleftrightarrow> ledger_inv w \<and> (\<forall>t. tun_inv w t)"

lemma init_world_inv: "world_inv (init_world cfg addrs)"
  by (simp add: world_inv_def ledger_inv_def tun_inv_def init_world_def live_def zero_counters_def newTunnel_def Let_def)

text \<open>A change that touches no session bookkeeping and keeps each tunnel's part keeps the invariant.\<close>

definition same_ledger :: "world \<Rightarrow> world \<Rightarrow> bool" where
  "same_ledger w v \<longleftrightarrow> finalizers v = finalizers w \<and> acceptedTunnels v = acceptedTunnels w \<and> next_sid v = next_sid w
     \<and> numSessions (stats v) = numSessions (stats w) \<and> numSessionsCreated (stats v) = numSessionsCreated (stats w)
     \<and> numSessionsFinalized (stats v) = numSessionsFinalized (stats w) \<and> (\<forall>s. IsClosed w s \<longrightarrow> IsClosed v s)"

lemma same_ledger_inv: "ledger_inv w \<Longrightarrow> same_ledger w v \<Longrightarrow> ledger_inv v"
  by (simp add: ledger_inv_def same_ledger_def live_def)

lemma same_ledger_trans: "same_ledger w v \<Longrightarrow> same_ledger v u \<Longrightarrow> same_ledger w u"
  by (simp add: same_ledger_def)

lemma frame_inv:
  assumes "world_inv w" and "same_ledger w v" and "\<And>u. u \<noteq> t \<Longrightarrow> tunnels v u = tunnels w u" and "tun_inv v t"
  shows "world_inv v"
proof -
  have "tun_inv v u" if "u \<noteq> t" for u
    using assms(1,2) assms(3) [OF that] by (auto simp: world_inv_def tun_inv_def same_ledger_def Let_def)
  with assms show ?thesis using same_ledger_inv unfolding world_inv_def by metis
qed

lemma same_ledger_upd [simp]: "same_ledger w (upd_tunnel t f w)"
  by (simp add: same_ledger_def)

lemma same_ledger_close [simp]: "same_ledger w (sess_close s w)"
  by (simp add: same_ledger_def)

lemma same_ledger_close_current [simp]: "same_ledger w (close_current t w)"
  by (simp add: same_ledger_def)

lemma sess_close_inv: "world_inv w \<Longrightarrow> world_inv (sess_close s w)"
  by (rule frame_inv [where t = undefined]) (auto simp: world_inv_def tun_inv_def Let_def)

lemma close_current_inv: "world_inv w \<Longrightarrow> world_inv (close_current t w)"
  by (auto simp: close_current_def sess_close_inv split: option.splits)

lemma upd_inv:
  assumes "world_inv w" and "tun_inv (upd_tunnel t f w) t"
  shows "world_inv (upd_tunnel t f w)"
  by (rule frame_inv [OF assms(1) same_ledger_upd _ assms(2)]) simp

text \<open>Updates of a tunnel that keep its session, lock, loop and stop flag.\<close>

lemma upd_keep_inv:
  assumes "world_inv w" and "redialSig (f (tunnels w t)) \<le> 1" and "dialMu (f (tunnels w t)) = dialMu (tunnels w t)"
    and "loop (f (tunnels w t)) = loop (tunnels w t) \<or> (loop (f (tunnels w t)) \<noteq> LoopDial \<and> loop (tunnels w t) \<noteq> LoopDial)"
    and "ss (f (tunnels w t)) = ss (tunnels w t)" and "stopped (f (tunnels w t)) = stopped (tunnels w t)"
    and "dialAddr (f (tunnels w t)) = dialAddr (tunnels w t)"
  shows "world_inv (upd_tunnel t f w)"
proof -
  have "tun_inv w t" using assms(1) by (simp add: world_inv_def)
  then show ?thesis using assms by (intro upd_inv) (auto simp: tun_inv_def Let_def)
qed

section \<open>Every step keeps the invariant\<close>

lemma tun_invD:
  assumes "world_inv w"
  shows "redialSig (tunnels w t) \<le> 1" "dialMu (tunnels w t) = Some HeldByLoop \<longleftrightarrow> loop (tunnels w t) = LoopDial"
    "dialAddr (tunnels w t) = '''' \<Longrightarrow> dialMu (tunnels w t) = None"
    "ss (tunnels w t) = Some s \<Longrightarrow> s < next_sid w"
    "ss (tunnels w t) = Some s \<Longrightarrow> stopped (tunnels w t) \<Longrightarrow> IsClosed w s"
    "ss (tunnels w t) = Some s \<Longrightarrow> dialAddr (tunnels w t) \<noteq> '''' \<Longrightarrow> (t, s) \<in> finalizers w"
  using assms by (auto simp: world_inv_def tun_inv_def Let_def)

lemma upd_upd [simp]: "upd_tunnel t g (upd_tunnel t f w) = upd_tunnel t (g \<circ> f) w"
  by (simp add: upd_tunnel_def)

lemma Start_inv:
  assumes "world_inv w" and "loop (tunnels w t) = LoopOff"
  shows "world_inv (snd (Start go t w))"
  using assms tun_invD [OF assms(1), of t]
  by (auto simp: Start_def intro!: upd_keep_inv)

lemma Stop_inv:
  assumes "world_inv w"
  shows "world_inv (Stop t w)"
proof (cases "stopped (tunnels w t)")
  case False
  let ?w = "upd_tunnel t (\<lambda>x. x\<lparr>stopped := True\<rparr>) w"
  have "tun_inv (close_current t ?w) t"
    using tun_invD [OF assms, of t] by (auto simp: tun_inv_def Let_def)
  then have "world_inv (close_current t ?w)"
    by (intro frame_inv [OF assms, of _ t]) (auto simp: same_ledger_def)
  then show ?thesis using False by (simp add: Stop_def)
qed (simp add: Stop_def assms)

text \<open>What \<^verbatim>\<open>checkIdle\<close> can do: nothing, close the session, or update the tunnel's idle fields and
  possibly close the session.\<close>

lemma checkIdle_cases:
  obtains "checkIdle now t w = w"
  | s where "ss (tunnels w t) = Some s" "checkIdle now t w = sess_close s w"
  | s a where "ss (tunnels w t) = Some s"
      "checkIdle now t w = sess_close s (upd_tunnel t (\<lambda>x. x\<lparr>idleSince := a, idleEvicted := True\<rparr>) w)"
  | a where "checkIdle now t w = upd_tunnel t (\<lambda>x. x\<lparr>idleSince := a\<rparr>) w"
proof (cases "ss (tunnels w t)")
  case None
  then show thesis by (intro that(1)) (simp add: checkIdle_def)
next
  case (Some s)
  define since where
    "since = (if num_streams (sessions w s) = 0 then if idleSince (tunnels w t) = 0 then now else idleSince (tunnels w t) else 0)"
  have e: "checkIdle now t w =
     (if IsClosed w s then w
      else if stale (tunnels w t) \<and> num_streams (sessions w s) = 0 then sess_close s w
      else if IdleTimeout (w_cfg w) > 0 \<and> since \<noteq> 0 \<and> time_sub now since \<ge> IdleTimeout (w_cfg w)
      then sess_close s (upd_tunnel t (\<lambda>x. x\<lparr>idleSince := since, idleEvicted := True\<rparr>) w)
      else upd_tunnel t (\<lambda>x. x\<lparr>idleSince := since\<rparr>) w)"
    by (simp only: checkIdle_def Some Let_def option.case since_def)
  show thesis
  proof (cases "IsClosed w s")
    case True
    then show thesis using e by (intro that(1)) simp
  next
    case False
    then show thesis using e that(2,3) [OF Some] that(4) by (simp split: if_splits)
  qed
qed

lemma checkIdle_inv:
  assumes "world_inv w"
  shows "world_inv (checkIdle now t w)"
  using tun_invD(1) [OF assms, of t]
  by (cases rule: checkIdle_cases [of now t w]) (auto intro!: sess_close_inv upd_keep_inv simp: assms)

lemma idle_watch_inv: "world_inv (w\<lparr>idle_watch := f\<rparr>) \<longleftrightarrow> world_inv w"
  by (simp add: world_inv_def ledger_inv_def tun_inv_def live_def Let_def IsClosed_def)

lemma sessions_inv:
  assumes "world_inv w" and "\<And>s. sess_closed (sessions w s) \<Longrightarrow> sess_closed (f s)"
  shows "world_inv (w\<lparr>sessions := f\<rparr>)"
  using assms by (auto simp: world_inv_def ledger_inv_def tun_inv_def live_def Let_def IsClosed_def)

lemma config_inv: "world_inv w \<Longrightarrow> world_inv (w\<lparr>w_cfg := c\<rparr>)"
  by (simp add: world_inv_def ledger_inv_def tun_inv_def live_def Let_def IsClosed_def)

lemma watch_inv:
  assumes "world_inv w" and "watchIdleSession sg now t s w = Some v"
  shows "world_inv v"
proof -
  have c: "world_inv (checkIdle now t w)" by (rule checkIdle_inv [OF assms(1)])
  have t: "world_inv (w\<lparr>sessions := (sessions w)(s := (sessions w s)\<lparr>idle_sig := False\<rparr>)\<rparr>)"
    by (rule sessions_inv [OF assms(1)]) auto
  show ?thesis using assms(2)
    by (auto simp: watchIdleSession_def Let_def idle_watch_inv assms(1) c t
        split: watch_pc.splits watch_sig.splits if_splits)
qed

lemma ledger_fresh:
  assumes "ledger_inv w" and "s \<ge> next_sid w"
  shows "s \<notin> snd ` finalizers w" "s \<notin> dom (acceptedTunnels w)"
proof -
  have "snd ` finalizers w \<subseteq> {..<next_sid w}" "dom (acceptedTunnels w) \<subseteq> {..<next_sid w}"
    using assms(1) by (simp_all add: ledger_inv_def)
  then show "s \<notin> snd ` finalizers w" "s \<notin> dom (acceptedTunnels w)"
    using assms(2) by (meson lessThan_iff linorder_not_less subsetD)+
qed

lemma alloc_inv:
  assumes "world_inv w" and "alloc_session x w = (s, v)"
  shows "world_inv v" "s < next_sid v" "s \<notin> snd ` finalizers v" "s \<notin> dom (acceptedTunnels v)"
    "tunnels v = tunnels w" "finalizers v = finalizers w"
proof -
  have v: "v = w\<lparr>sessions := (sessions w)(next_sid w := x), next_sid := Suc (next_sid w)\<rparr>" and s: "s = next_sid w"
    using assms(2) by (auto simp: alloc_session_def)
  have l: "ledger_inv w" and t: "\<And>t. tun_inv w t" using assms(1) by (simp_all add: world_inv_def)
  have "ledger_inv v" using l unfolding v by (simp add: ledger_inv_def live_def lessThan_Suc subset_insertI2)
  moreover have "tun_inv v t" for t
    using t [of t] unfolding v by (auto simp: tun_inv_def Let_def IsClosed_def)
  ultimately show "world_inv v" by (simp add: world_inv_def)
  show "s \<notin> snd ` finalizers v" "s \<notin> dom (acceptedTunnels v)" using ledger_fresh [OF l, of s] by (simp_all add: v s)
qed (use assms(2) in \<open>auto simp: alloc_session_def\<close>)

lemma ledger_insert_final:
  assumes "ledger_inv w" and "s < next_sid w" and "s \<notin> snd ` finalizers w" and "s \<notin> dom (acceptedTunnels w)"
    and "finalizers v = insert (t, s) (finalizers w)" and "acceptedTunnels v = acceptedTunnels w"
    and "next_sid v = next_sid w" and "numSessions (stats v) = numSessions (stats w) + 1"
    and "numSessionsCreated (stats v) = numSessionsCreated (stats w) + 1"
    and "numSessionsFinalized (stats v) = numSessionsFinalized (stats w)"
  shows "ledger_inv v"
proof -
  have "(t, s) \<notin> finalizers w" using assms(3) by force
  then have "live v = Suc (live w)" using assms by (simp add: live_def ledger_inv_def)
  with assms show ?thesis by (auto simp: ledger_inv_def algebra_simps)
qed

lemma ledger_remove_final:
  assumes "ledger_inv w" and "(t, s) \<in> finalizers w"
    and "finalizers v = finalizers w - {(t, s)}" and "acceptedTunnels v = acceptedTunnels w"
    and "next_sid v = next_sid w" and "numSessions (stats v) = numSessions (stats w) - 1"
    and "numSessionsCreated (stats v) = numSessionsCreated (stats w)"
    and "numSessionsFinalized (stats v) = numSessionsFinalized (stats w) + 1"
  shows "ledger_inv v"
proof -
  have "card (finalizers w) = Suc (card (finalizers v))"
    using assms(1,2,3) card_Suc_Diff1 [of "finalizers w" "(t, s)"] by (simp add: ledger_inv_def)
  then have l: "live w = Suc (live v)" using assms(4) by (simp add: live_def)
  have "inj_on snd (finalizers v)" using assms(1,3) by (auto simp: ledger_inv_def intro: inj_on_subset)
  moreover have "numSessions (stats v) = of_nat (live v)"
    "numSessionsCreated (stats v) = numSessionsFinalized (stats v) + of_nat (live v)"
    using assms(1,6,7,8) l by (simp_all add: ledger_inv_def)
  moreover have "snd ` finalizers v \<inter> dom (acceptedTunnels v) = {}"
    using assms(1,3,4) by (auto simp: ledger_inv_def)
  moreover have "snd ` finalizers v \<subseteq> {..<next_sid v}" using assms(1,3,5) by (auto simp: ledger_inv_def)
  ultimately show ?thesis using assms(1,3,4,5) unfolding ledger_inv_def by simp
qed

lemma addSession_sel:
  assumes "addSession now took go t s w = (True, v)"
  shows "\<not> stopped (tunnels w t)" "finalizers v = finalizers w" "acceptedTunnels v = acceptedTunnels w"
    "next_sid v = next_sid w" "numSessions (stats v) = numSessions (stats w) + 1"
    "numSessionsCreated (stats v) = numSessionsCreated (stats w) + 1"
    "numSessionsFinalized (stats v) = numSessionsFinalized (stats w)"
    "u \<noteq> t \<Longrightarrow> tunnels v u = tunnels w u" "IsClosed w r \<Longrightarrow> IsClosed v r"
    "ss (tunnels v t) = Some s" "stopped (tunnels v t) = stopped (tunnels w t)" "loop (tunnels v t) = loop (tunnels w t)"
    "dialMu (tunnels v t) = dialMu (tunnels w t)" "redialSig (tunnels v t) = redialSig (tunnels w t)"
    "dialAddr (tunnels v t) = dialAddr (tunnels w t)"
  using assms by (auto simp: addSession_def Let_def updateTagLocked_def split: if_splits)

lemma install_inv:
  assumes "world_inv w" and "s < next_sid w" and "s \<notin> snd ` finalizers w" and "s \<notin> dom (acceptedTunnels w)"
    and "addSession now took go t s w = (True, v)"
  shows "world_inv (v\<lparr>finalizers := insert (t, s) (finalizers v)\<rparr>)"
proof -
  let ?v = "v\<lparr>finalizers := insert (t, s) (finalizers v)\<rparr>"
  note a = addSession_sel [OF assms(5)]
  have l: "ledger_inv w" using assms(1) by (simp add: world_inv_def)
  have "ledger_inv ?v"
    by (rule ledger_insert_final [OF l assms(2-4), where t = t]) (simp_all add: a)
  moreover have "tun_inv ?v u" for u
  proof (cases "u = t")
    case True
    show ?thesis unfolding True tun_inv_def Let_def
      using tun_invD(1-3) [OF assms(1), of t] a assms(2) by simp
  next
    case False
    have "tun_inv w u" using assms(1) by (simp add: world_inv_def)
    then show ?thesis unfolding tun_inv_def Let_def using a(8) [OF False] a(2,4,9) by auto
  qed
  ultimately show ?thesis by (simp add: world_inv_def)
qed

lemma finalize_sel:
  "finalizers (finalizeSession now t s w) = finalizers w" "acceptedTunnels (finalizeSession now t s w) = acceptedTunnels w"
  "next_sid (finalizeSession now t s w) = next_sid w" "IsClosed (finalizeSession now t s w) = IsClosed w"
  "numSessions (stats (finalizeSession now t s w)) = numSessions (stats w) - 1"
  "numSessionsCreated (stats (finalizeSession now t s w)) = numSessionsCreated (stats w)"
  "numSessionsFinalized (stats (finalizeSession now t s w)) = numSessionsFinalized (stats w) + 1"
  "tunnels (finalizeSession now t s w) = (tunnels w)(t := (if ss (tunnels w t) = Some s
     then (tunnels w t)\<lparr>ss := None, idleSince := 0, idleEvicted := False, lastChanged := now,
        redialSig := (if \<not> idleEvicted (tunnels w t) \<and> dialAddr (tunnels w t) \<noteq> '''' then 1 else redialSig (tunnels w t))\<rparr>
     else tunnels w t))"
  by (auto simp: finalizeSession_def Let_def IsClosed_def fun_eq_iff)

lemma finalize_inv:
  assumes "world_inv w" and "(t, s) \<in> finalizers w"
  shows "world_inv ((finalizeSession now t s w)\<lparr>finalizers := finalizers w - {(t, s)}\<rparr>)"
proof -
  let ?v = "(finalizeSession now t s w)\<lparr>finalizers := finalizers w - {(t, s)}\<rparr>"
  have l: "ledger_inv w" using assms(1) by (simp add: world_inv_def)
  have inj: "inj_on snd (finalizers w)" using l by (simp add: ledger_inv_def)
  have i: "IsClosed ?v r = IsClosed w r" for r using finalize_sel(4) [of now t s w] by (simp add: IsClosed_def fun_eq_iff)
  have "ledger_inv ?v"
    by (rule ledger_remove_final [OF l assms(2)]) (simp_all add: finalize_sel)
  moreover have "tun_inv ?v u" for u
  proof (cases "u = t")
    case True
    show ?thesis unfolding True tun_inv_def Let_def i
      using tun_invD [OF assms(1), of t] by (auto simp: finalize_sel)
  next
    case False
    then have "(u, r) \<in> finalizers w \<Longrightarrow> (u, r) \<noteq> (t, s)" for r by simp
    with False show ?thesis unfolding tun_inv_def Let_def i
      using tun_invD [OF assms(1), of u] by (simp add: finalize_sel)
  qed
  ultimately show ?thesis by (simp add: world_inv_def)
qed

text \<open>When the finalizer cannot be started, \<^verbatim>\<open>dial\<close> finalizes the session itself; the outcome is the
  same as if the finalizer had been registered and had run at once.\<close>

lemma finalize_unregistered:
  assumes "(t, s) \<notin> finalizers w"
  shows "finalizeSession now t s (sess_close s w)
       = (finalizeSession now t s (sess_close s (w\<lparr>finalizers := insert (t, s) (finalizers w)\<rparr>)))
           \<lparr>finalizers := insert (t, s) (finalizers w) - {(t, s)}\<rparr>"
  using assms
  by (simp add: finalizeSession_def sess_close_def flushSessionMetrics_def upd_tunnel_def add_event_def Let_def
      split: option.split)

lemma dial_install_inv:
  assumes "world_inv w" and "dial_install d t w = (r, v)"
  shows "world_inv v"
proof (cases "dialed d")
  case None
  with assms show ?thesis by (simp add: dial_install_def)
next
  case (Some x)
  obtain s u where a: "alloc_session x w = (s, u)" by (cases "alloc_session x w")
  obtain ok y where b: "addSession (d_now d) (d_setup d) (go_watch d) t s u = (ok, y)"
    by (cases "addSession (d_now d) (d_setup d) (go_watch d) t s u")
  note u = alloc_inv [OF assms(1) a]
  show ?thesis
  proof (cases ok)
    case False
    then have "y = u" using b by (auto simp: addSession_def Let_def split: if_splits)
    with False assms(2) u(1) show ?thesis by (auto simp: dial_install_def Some a b sess_close_inv)
  next
    case True
    let ?y = "y\<lparr>finalizers := insert (t, s) (finalizers y)\<rparr>"
    have y: "world_inv ?y" by (rule install_inv [OF u(1-4)]) (use b True in simp)
    have n: "(t, s) \<notin> finalizers y" using addSession_sel(2) b True u(3) by force
    have "world_inv (finalizeSession (d_now d) t s (sess_close s y))"
      using finalize_inv [OF sess_close_inv [OF y, of s], of t s "d_now d"]
      by (simp add: finalize_unregistered [OF n])
    with y True assms(2) show ?thesis
      by (auto simp: dial_install_def Some a b Let_def sess_close_inv split: if_splits)
  qed
qed

lemma finalize_keeps:
  "dialMu (tunnels (finalizeSession now t s w) u) = dialMu (tunnels w u)"
  "loop (tunnels (finalizeSession now t s w) u) = loop (tunnels w u)"
  "dialAddr (tunnels (finalizeSession now t s w) u) = dialAddr (tunnels w u)"
  by (simp_all add: finalize_sel)

lemma dial_install_keeps:
  assumes "dial_install d t w = (r, v)"
  shows "dialMu (tunnels v t) = dialMu (tunnels w t)" "loop (tunnels v t) = loop (tunnels w t)"
    "dialAddr (tunnels v t) = dialAddr (tunnels w t)"
proof -
  have *: "dialMu (tunnels v t) = dialMu (tunnels w t) \<and> loop (tunnels v t) = loop (tunnels w t)
      \<and> dialAddr (tunnels v t) = dialAddr (tunnels w t)"
  proof (cases "dialed d")
    case None
    with assms show ?thesis by (simp add: dial_install_def)
  next
    case (Some x)
    obtain s u where a: "alloc_session x w = (s, u)" by (cases "alloc_session x w")
    have u: "tunnels u = tunnels w" using a by (auto simp: alloc_session_def)
    obtain ok y where b: "addSession (d_now d) (d_setup d) (go_watch d) t s u = (ok, y)"
      by (cases "addSession (d_now d) (d_setup d) (go_watch d) t s u")
    show ?thesis
    proof (cases ok)
      case False
      then have "y = u" using b by (auto simp: addSession_def Let_def split: if_splits)
      with False assms show ?thesis by (auto simp: dial_install_def Some a b u)
    next
      case True
      have "addSession (d_now d) (d_setup d) (go_watch d) t s u = (True, y)" using b True by simp
      note s = addSession_sel [OF this]
      show ?thesis using True assms s(12,13,15) u
        by (auto simp: dial_install_def Some a b Let_def finalize_keeps split: if_splits)
    qed
  qed
  then show "dialMu (tunnels v t) = dialMu (tunnels w t)" "loop (tunnels v t) = loop (tunnels w t)"
    "dialAddr (tunnels v t) = dialAddr (tunnels w t)" by simp_all
qed

lemma dial_begin_inv:
  assumes "world_inv w" and "dial_begin HeldByOpen t w = (r, v)" and "loop (tunnels w t) \<noteq> LoopDial"
  shows "world_inv v"
  using tun_invD [OF assms(1), of t] assms
  by (auto simp: dial_begin_def tun_inv_def Let_def intro!: upd_inv split: if_splits)

lemma dial_finish_open_inv:
  assumes "world_inv w" and "dialMu (tunnels w t) = Some HeldByOpen" and "dial_finish d t w = (r, v)"
  shows "world_inv v"
proof -
  obtain q u where i: "dial_install d t w = (q, u)" by (cases "dial_install d t w")
  have u: "world_inv u" by (rule dial_install_inv [OF assms(1) i])
  have m: "dialMu (tunnels u t) = Some HeldByOpen" using assms(2) dial_install_keeps [OF i] by simp
  have "world_inv (upd_tunnel t (\<lambda>x. x\<lparr>dialMu := None\<rparr>) u)"
    using tun_invD [OF u, of t] m by (intro upd_inv [OF u]) (auto simp: tun_inv_def Let_def)
  then show ?thesis using assms(3) i by (simp add: dial_finish_def)
qed

lemma redial_result_keeps [simp]:
  "dialMu (redial_result e x) = dialMu x" "loop (redial_result e x) = loop x" "ss (redial_result e x) = ss x"
  "stopped (redial_result e x) = stopped x" "dialAddr (redial_result e x) = dialAddr x"
  "redialSig (redial_result e x) = redialSig x"
  by (auto simp: redial_result_def split: option.splits)

lemma loop_dialed_inv:
  assumes "world_inv w" and "loop (tunnels w t) = LoopDial"
  shows "world_inv (loop_dialed d rnd t w)"
proof -
  obtain q u where i: "dial_install d t w = (q, u)" by (cases "dial_install d t w")
  have u: "world_inv u" by (rule dial_install_inv [OF assms(1) i])
  show ?thesis unfolding loop_dialed_def dial_finish_def i Let_def prod.case upd_upd
    using tun_invD [OF u, of t] by (intro upd_inv [OF u]) (auto simp: tun_inv_def Let_def)
qed

lemma loop_maintenance_inv:
  assumes "world_inv w" and "loop (tunnels w t) = LoopMaint"
  shows "world_inv (loop_maintenance ctx rnd t w)"
proof -
  note k = tun_invD [OF assms(1), of t]
  have wait: "world_inv (upd_tunnel t ((\<lambda>x. x\<lparr>loop := LoopWait (f x)\<rparr>) \<circ> g) w)"
    if "g = id \<or> g = redial_result e" for f g e
    using that k assms by (intro upd_inv) (auto simp: tun_inv_def Let_def)
  have wait1: "world_inv (upd_tunnel t (\<lambda>x. x\<lparr>loop := LoopWait (f x)\<rparr>) w)" for f
    using wait [of id undefined f] by simp
  have held: "dialMu (tunnels w t) = None \<Longrightarrow>
      world_inv (upd_tunnel t ((\<lambda>x. x\<lparr>loop := LoopDial\<rparr>) \<circ> (\<lambda>x. x\<lparr>dialMu := Some HeldByLoop\<rparr>)) w)"
    if "dialAddr (tunnels w t) \<noteq> ''''"
    using k that by (intro upd_inv [OF assms(1)]) (auto simp: tun_inv_def Let_def)
  show ?thesis
    using wait [of "redial_result (Some ErrDialInProgress)" "Some ErrDialInProgress"] wait1 held
    by (simp add: loop_maintenance_def dial_begin_def Let_def)
qed

lemma loop_exit_inv:
  assumes "world_inv w" and "loop (tunnels w t) \<noteq> LoopDial"
  shows "world_inv (loop_exit t w)"
proof -
  have c: "world_inv (close_current t w)" by (rule close_current_inv [OF assms(1)])
  show ?thesis unfolding loop_exit_def
    using tun_invD [OF c, of t] assms(2) by (intro upd_keep_inv [OF c]) auto
qed

lemma OpenStream_begin_inv:
  assumes "world_inv w"
  shows "world_inv (snd (OpenStream_begin t w))"
proof -
  have "world_inv (upd_tunnel t (\<lambda>x. x\<lparr>dialMu := Some HeldByOpen\<rparr>) w)" if "dialMu (tunnels w t) = None" "dialAddr (tunnels w t) \<noteq> ''''"
    using tun_invD [OF assms, of t] that by (intro upd_inv [OF assms]) (auto simp: tun_inv_def Let_def)
  then show ?thesis using assms by (auto simp: OpenStream_begin_def dial_begin_def split: option.splits)
qed

lemma OpenStream_open_inv:
  assumes "world_inv w"
  shows "world_inv (snd (OpenStream_open d t w))"
  using assms tun_invD(1) [OF assms, of t]
  by (cases d) (auto simp: OpenStream_open_def intro!: upd_keep_inv)

lemma stale_inv:
  assumes "world_inv w"
  shows "world_inv (checkIdle now t (upd_tunnel t (\<lambda>x. x\<lparr>stale := True\<rparr>) w))"
  using tun_invD(1) [OF assms, of t] by (intro checkIdle_inv upd_keep_inv [OF assms]) auto

lemma set_streams_inv: "world_inv w \<Longrightarrow> world_inv (set_streams s n w)"
  unfolding set_streams_def by (rule sessions_inv) auto

lemma serve_begin_inv:
  assumes "world_inv w" and "s < next_sid w" and "s \<notin> snd ` finalizers w" and "s \<notin> dom (acceptedTunnels w)"
  shows "world_inv (serveSession_begin now took gc gw t s w)"
proof (cases gc)
  case True
  let ?v = "serveSession_begin now took gc gw t s w"
  have l: "ledger_inv w" using assms(1) by (simp add: world_inv_def)
  have v: "finalizers ?v = finalizers w" "acceptedTunnels ?v = (acceptedTunnels w)(s \<mapsto> t)" "next_sid ?v = next_sid w"
    "numSessions (stats ?v) = numSessions (stats w) + 1" "numSessionsCreated (stats ?v) = numSessionsCreated (stats w) + 1"
    "numSessionsFinalized (stats ?v) = numSessionsFinalized (stats w)" "IsClosed ?v = IsClosed w"
    "\<And>u. u \<noteq> t \<Longrightarrow> tunnels ?v u = tunnels w u" "ss (tunnels ?v t) = Some s" "dialAddr (tunnels ?v t) = ''''"
    "redialSig (tunnels ?v t) = 0" "dialMu (tunnels ?v t) = None" "loop (tunnels ?v t) = LoopOff" "\<not> stopped (tunnels ?v t)"
    using True by (simp_all add: serveSession_begin_def Let_def updateTagLocked_def newTunnel_def)
  have "live ?v = Suc (live w)" using assms(4) l by (simp add: live_def v ledger_inv_def)
  then have "ledger_inv ?v" using l assms(2-4) by (auto simp: ledger_inv_def v)
  moreover have "tun_inv ?v u" for u
    using assms(1,2) by (cases "u = t") (auto simp: tun_inv_def Let_def v world_inv_def)
  ultimately show ?thesis by (simp add: world_inv_def)
qed (simp add: serveSession_begin_def assms)

lemma serve_end_inv:
  assumes "world_inv w" and "acceptedTunnels w s = Some t"
  shows "world_inv (serveSession_end now t s w)"
proof -
  let ?v = "serveSession_end now t s w"
  have l: "ledger_inv w" using assms(1) by (simp add: world_inv_def)
  have v: "finalizers ?v = finalizers w" "acceptedTunnels ?v = (acceptedTunnels w)(s := None)" "next_sid ?v = next_sid w"
    "numSessions (stats ?v) = numSessions (stats w) - 1" "numSessionsCreated (stats ?v) = numSessionsCreated (stats w)"
    "numSessionsFinalized (stats ?v) = numSessionsFinalized (stats w) + 1" "IsClosed ?v = IsClosed w"
    "tunnels ?v = tunnels w"
    by (simp_all add: serveSession_end_def Let_def)
  have "card (dom (acceptedTunnels w)) = Suc (card (dom (acceptedTunnels ?v)))"
    using domI [of "acceptedTunnels w" s t] assms(2) l card_Suc_Diff1 [of "dom (acceptedTunnels w)" s]
    by (simp add: v ledger_inv_def del: card_Diff_insert)
  then have "live w = Suc (live ?v)" by (simp add: live_def v)
  then have "ledger_inv ?v" using l by (auto simp: ledger_inv_def v)
  moreover have "tun_inv ?v u" for u
    using assms(1) by (simp add: tun_inv_def Let_def v world_inv_def)
  ultimately show ?thesis by (simp add: world_inv_def)
qed

lemma tun_step_inv:
  assumes "world_inv w" and "tun_step e w = Some v"
  shows "world_inv v"
proof (cases e)
  case (EOpenDialed t d)
  with assms show ?thesis by (cases "dial_finish d t w") (auto intro: dial_finish_open_inv split: if_splits)
next
  case (EServe now took gc gw t x)
  obtain s u where a: "alloc_session x w = (s, u)" by (cases "alloc_session x w")
  with EServe assms(2) have "v = serveSession_begin now took gc gw t s u" by (simp split: if_splits)
  with serve_begin_inv [OF alloc_inv(1-4) [OF assms(1) a]] show ?thesis by simp
next
  case (ELoopWake t)
  with assms(2) obtain c where "loop (tunnels w t) = LoopWait c"
    "v = upd_tunnel t (\<lambda>x. x\<lparr>redialSig := redialSig x - 1, loop := LoopMaint\<rparr>) w"
    by (auto split: loop_pc.splits if_splits)
  with tun_invD(1) [OF assms(1), of t] show ?thesis by (auto intro!: upd_keep_inv [OF assms(1)])
next
  case (ELoopTimer t)
  with assms(2) obtain c where "loop (tunnels w t) = LoopWait c" "v = upd_tunnel t (\<lambda>x. x\<lparr>loop := LoopMaint\<rparr>) w"
    by (auto split: loop_pc.splits option.splits)
  with tun_invD(1) [OF assms(1), of t] show ?thesis by (auto intro!: upd_keep_inv [OF assms(1)])
qed (insert assms, auto split: if_splits loop_pc.splits intro: Start_inv Stop_inv loop_maintenance_inv loop_dialed_inv
      loop_exit_inv OpenStream_begin_inv OpenStream_open_inv sess_close_inv finalize_inv watch_inv set_streams_inv config_inv
      stale_inv serve_end_inv)

interpretation tunnel_machine: invariant_machine tun_step world_inv
  by unfold_locales (rule tun_step_inv)

lemmas tunnel_reachable = tunnel_machine.exec_inv [OF init_world_inv]

section \<open>Sessions are never reused\<close>

text \<open>A step only registers finalizers for sessions it has just created.\<close>

lemma addSession_frame:
  "finalizers (snd (addSession now took go t s w)) = finalizers w"
  "next_sid (snd (addSession now took go t s w)) = next_sid w"
  by (auto simp: addSession_def Let_def)

lemma dial_install_finalizers:
  "next_sid w \<le> next_sid (snd (dial_install d t w))
   \<and> finalizers (snd (dial_install d t w)) \<subseteq> insert (t, next_sid w) (finalizers w)"
proof (cases "dialed d")
  case None
  then show ?thesis by (auto simp: dial_install_def)
next
  case (Some x)
  let ?s = "next_sid w"
  obtain u where a: "alloc_session x w = (?s, u)" and u: "finalizers u = finalizers w" "next_sid u = Suc ?s"
    by (simp add: alloc_session_def)
  obtain ok y where b: "addSession (d_now d) (d_setup d) (go_watch d) t ?s u = (ok, y)"
    by (cases "addSession (d_now d) (d_setup d) (go_watch d) t ?s u")
  have y: "finalizers y = finalizers w" "next_sid y = Suc ?s"
    using addSession_frame [of "d_now d" "d_setup d" "go_watch d" t ?s u] u unfolding b by simp_all
  have i: "finalizers w \<subseteq> insert (t, ?s) (finalizers w)" by blast
  show ?thesis
    unfolding dial_install_def Some option.case a b Let_def prod.case
    by (cases ok; cases "go_final d"; cases "go_close d"; cases "go_accept d") (simp_all add: finalize_sel y i)
qed

lemma dial_finish_finalizers:
  assumes "dial_finish d t w = (r, v)"
  shows "next_sid w \<le> next_sid v \<and> finalizers v \<subseteq> insert (t, next_sid w) (finalizers w)"
  using assms dial_install_finalizers [of w d t]
  by (cases "dial_install d t w") (simp add: dial_finish_def, elim conjE, hypsubst, simp)

lemma loop_dialed_finalizers:
  "next_sid w \<le> next_sid (loop_dialed d r t w)
   \<and> finalizers (loop_dialed d r t w) \<subseteq> insert (t, next_sid w) (finalizers w)"
  using dial_finish_finalizers [of d t w]
  by (cases "dial_finish d t w") (simp add: loop_dialed_def Let_def)

lemma quiet_finalizers [simp]:
  "finalizers (checkIdle now t w) = finalizers w" "next_sid (checkIdle now t w) = next_sid w"
  "finalizers (Stop t w) = finalizers w" "next_sid (Stop t w) = next_sid w"
  "finalizers (loop_exit t w) = finalizers w" "next_sid (loop_exit t w) = next_sid w"
  "finalizers (loop_maintenance ctx rnd t w) = finalizers w" "next_sid (loop_maintenance ctx rnd t w) = next_sid w"
  "finalizers (snd (OpenStream_begin t w)) = finalizers w" "next_sid (snd (OpenStream_begin t w)) = next_sid w"
  "finalizers (snd (OpenStream_open d t w)) = finalizers w" "next_sid (snd (OpenStream_open d t w)) = next_sid w"
  "finalizers (snd (Start go t w)) = finalizers w" "next_sid (snd (Start go t w)) = next_sid w"
  "finalizers (serveSession_begin now took gc gw t s w) = finalizers w"
  "next_sid (serveSession_begin now took gc gw t s w) = next_sid w"
  "finalizers (serveSession_end now t s w) = finalizers w" "next_sid (serveSession_end now t s w) = next_sid w"
  "finalizers (set_streams s n w) = finalizers w" "next_sid (set_streams s n w) = next_sid w"
  by (auto simp: checkIdle_def Stop_def loop_exit_def loop_maintenance_def OpenStream_begin_def OpenStream_open_def
      Start_def serveSession_begin_def serveSession_end_def set_streams_def dial_begin_def Let_def
      split: option.splits if_splits)

lemma watch_finalizers:
  "watchIdleSession sg now t s w = Some v \<Longrightarrow> finalizers v = finalizers w \<and> next_sid v = next_sid w"
  by (auto simp: watchIdleSession_def Let_def split: watch_pc.splits watch_sig.splits if_splits)

lemma step_finalizers:
  assumes "tun_step e w = Some v"
  shows "next_sid w \<le> next_sid v \<and> (\<forall>p \<in> finalizers v. p \<in> finalizers w \<or> next_sid w \<le> snd p)"
proof (cases e)
  case (EOpenDialed t d)
  with assms obtain r where "dial_finish d t w = (r, v)" by (cases "dial_finish d t w") (simp split: if_splits)
  from dial_finish_finalizers [OF this] show ?thesis by fastforce
next
  case (ELoopDialed t d r)
  with assms have "v = loop_dialed d (\<lambda>_. r) t w" by (simp split: if_splits)
  with loop_dialed_finalizers [of w d "\<lambda>_. r" t] show ?thesis by fastforce
next
  case (EWatch sg now t s)
  with assms watch_finalizers show ?thesis by fastforce
next
  case (EServe now took gc gw t x)
  obtain s u where a: "alloc_session x w = (s, u)" by (cases "alloc_session x w")
  have u: "finalizers u = finalizers w" "next_sid u = Suc (next_sid w)" using a by (auto simp: alloc_session_def)
  have "v = serveSession_begin now took gc gw t s u" using EServe a assms by (simp split: if_splits)
  with u show ?thesis by simp
qed (insert assms, auto simp: finalize_sel split: if_splits loop_pc.splits option.splits)

text \<open>A session that is no longer live.\<close>

definition retired :: "sid \<Rightarrow> world \<Rightarrow> bool" where
  "retired s w \<longleftrightarrow> s < next_sid w \<and> s \<notin> snd ` finalizers w"

lemma retired_step: "retired s w \<Longrightarrow> tun_step e w = Some v \<Longrightarrow> retired s v"
  using step_finalizers [of e w v] by (fastforce simp: retired_def)

lemma retired_exec: "retired s w \<Longrightarrow> exec tun_step es w = Some v \<Longrightarrow> retired s v"
  by (induction es arbitrary: w) (auto split: option.splits dest: retired_step)

lemma finalize_retires:
  assumes "world_inv w" and "tun_step (EFinalize now t s) w = Some v"
  shows "retired s v"
proof -
  have m: "(t, s) \<in> finalizers w" and v: "v = (finalizeSession now t s w)\<lparr>finalizers := finalizers w - {(t, s)}\<rparr>"
    using assms(2) by (auto split: if_splits)
  have l: "inj_on snd (finalizers w)" "snd ` finalizers w \<subseteq> {..<next_sid w}"
    using assms(1) by (simp_all add: world_inv_def ledger_inv_def)
  have "s < next_sid w" using l(2) m by force
  moreover have "a = t" if "(a, s) \<in> finalizers w" for a using inj_onD [OF l(1) _ that m] by simp
  then have "s \<notin> snd ` (finalizers w - {(t, s)})" by auto
  ultimately show ?thesis by (simp add: retired_def v finalize_sel)
qed

section \<open>A stopped tunnel stays stopped\<close>

lemma finalize_stopped [simp]: "stopped (tunnels (finalizeSession now t s w) u) = stopped (tunnels w u)"
  by (simp add: finalize_sel)

lemma addSession_stopped [simp]:
  "stopped (tunnels (snd (addSession now took go t s w)) u) = stopped (tunnels w u)"
  "dialAddr (tunnels (snd (addSession now took go t s w)) u) = dialAddr (tunnels w u)"
  by (auto simp: addSession_def Let_def updateTagLocked_def)

lemma dial_install_stopped:
  "stopped (tunnels (snd (dial_install d t w)) u) = stopped (tunnels w u)
   \<and> dialAddr (tunnels (snd (dial_install d t w)) u) = dialAddr (tunnels w u)"
proof (cases "dialed d")
  case (Some x)
  obtain s v where a: "alloc_session x w = (s, v)" by (cases "alloc_session x w")
  then have v: "tunnels v = tunnels w" by (auto simp: alloc_session_def)
  obtain ok y where b: "addSession (d_now d) (d_setup d) (go_watch d) t s v = (ok, y)"
    by (cases "addSession (d_now d) (d_setup d) (go_watch d) t s v")
  have "stopped (tunnels y u) = stopped (tunnels w u)" "dialAddr (tunnels y u) = dialAddr (tunnels w u)"
    using addSession_stopped [of "d_now d" "d_setup d" "go_watch d" t s v u] b v by simp_all
  then show ?thesis by (simp add: dial_install_def Some a b Let_def finalize_keeps)
qed (simp add: dial_install_def)

text \<open>What a step keeps of an outbound tunnel: its address, and the stop flag once set.\<close>

definition keeps_stop :: "tid \<Rightarrow> world \<Rightarrow> world \<Rightarrow> bool" where
  "keeps_stop u w v \<longleftrightarrow> dialAddr (tunnels v u) = dialAddr (tunnels w u) \<and> (stopped (tunnels w u) \<longrightarrow> stopped (tunnels v u))"

lemma keeps_stop_quiet:
  "keeps_stop u w (checkIdle now t w)" "keeps_stop u w (Stop t w)" "keeps_stop u w (loop_exit t w)"
  "keeps_stop u w (loop_maintenance ctx rnd t w)" "keeps_stop u w (snd (OpenStream_begin t w))"
  "keeps_stop u w (snd (OpenStream_open d t w))" "keeps_stop u w (snd (Start go t w))"
  "keeps_stop u w (serveSession_end now t s w)" "keeps_stop u w (set_streams s n w)" "keeps_stop u w (sess_close s w)"
  by (auto simp: keeps_stop_def checkIdle_def Stop_def loop_exit_def loop_maintenance_def OpenStream_begin_def
      OpenStream_open_def Start_def serveSession_end_def set_streams_def dial_begin_def Let_def split: option.splits if_splits)

lemma keeps_stop_trans: "keeps_stop u w v \<Longrightarrow> keeps_stop u v x \<Longrightarrow> keeps_stop u w x"
  by (simp add: keeps_stop_def)

lemma keeps_stop_upd:
  "dialAddr (f (tunnels w t)) = dialAddr (tunnels w t) \<Longrightarrow> stopped (f (tunnels w t)) = stopped (tunnels w t) \<Longrightarrow>
   keeps_stop u w (upd_tunnel t f w)"
  by (simp add: keeps_stop_def)

lemma keeps_stop_install: "keeps_stop u w (snd (dial_install d t w))"
  using dial_install_stopped [of d t w u] unfolding keeps_stop_def by blast

lemma keeps_stop_finish: "keeps_stop u w (snd (dial_finish d t w))"
proof -
  obtain r v where i: "dial_install d t w = (r, v)" by (cases "dial_install d t w")
  have "snd (dial_finish d t w) = upd_tunnel t (\<lambda>x. x\<lparr>dialMu := None\<rparr>) v" by (simp add: dial_finish_def i)
  then show ?thesis using keeps_stop_trans [OF keeps_stop_install [of u w d t, unfolded i snd_conv]] keeps_stop_upd by simp
qed

lemma keeps_stop_dialed: "keeps_stop u w (loop_dialed d rnd t w)"
proof -
  obtain r v where i: "dial_finish d t w = (r, v)" by (cases "dial_finish d t w")
  show ?thesis unfolding loop_dialed_def i Let_def prod.case upd_upd
    by (rule keeps_stop_trans [OF keeps_stop_finish [of u w d t, unfolded i snd_conv] keeps_stop_upd]) simp_all
qed

lemmas keeps_stop_dial = keeps_stop_finish keeps_stop_dialed

lemma keeps_stop_watch: "watchIdleSession sg now t s w = Some v \<Longrightarrow> keeps_stop u w v"
  using keeps_stop_quiet(1) [of u w now t]
  by (auto simp: watchIdleSession_def keeps_stop_def Let_def split: watch_pc.splits watch_sig.splits if_splits)

lemma keeps_stop_stale: "keeps_stop u w (checkIdle now t (upd_tunnel t (\<lambda>x. x\<lparr>stale := True\<rparr>) w))"
  using keeps_stop_quiet(1) [of u "upd_tunnel t (\<lambda>x. x\<lparr>stale := True\<rparr>) w" now t]
  by (simp add: keeps_stop_def split: if_splits)

lemma step_keeps_stop:
  assumes "tun_step e w = Some v" and "dialAddr (tunnels w u) \<noteq> ''''"
  shows "keeps_stop u w v"
proof (cases e)
  case (EServe now took gc gw t x)
  obtain s y where a: "alloc_session x w = (s, y)" by (cases "alloc_session x w")
  have y: "tunnels y = tunnels w" using a by (auto simp: alloc_session_def)
  have v: "v = serveSession_begin now took gc gw t s y" "dialAddr (tunnels w t) = ''''"
    using EServe a assms(1) by (simp_all split: if_splits)
  with assms(2) y show ?thesis by (auto simp: keeps_stop_def serveSession_begin_def Let_def)
next
  case (EFinalize now t s)
  with assms(1) show ?thesis by (auto simp: keeps_stop_def finalize_keeps split: if_splits)
qed (insert assms(1), auto simp: keeps_stop_quiet keeps_stop_dial keeps_stop_stale dest: keeps_stop_watch
      split: if_splits loop_pc.splits option.splits, auto simp: keeps_stop_def)

lemma exec_keeps_stop:
  "exec tun_step es w = Some v \<Longrightarrow> dialAddr (tunnels w u) \<noteq> '''' \<Longrightarrow> keeps_stop u w v"
proof (induction es arbitrary: w)
  case (Cons e es)
  then obtain y where y: "tun_step e w = Some y" "exec tun_step es y = Some v" by (auto split: option.splits)
  from step_keeps_stop [OF y(1) Cons.prems(2)] have k: "keeps_stop u w y" .
  with Cons.prems(2) have "dialAddr (tunnels y u) \<noteq> ''''" by (simp add: keeps_stop_def)
  from Cons.IH [OF y(2) this] k show ?case by (simp add: keeps_stop_def)
qed (simp add: keeps_stop_def)

lemma newTunnel_sel [simp]: "dialAddr (newTunnel cfg a) = a"
  by (simp add: newTunnel_def Let_def)

section \<open>Sample values\<close>

definition sample_metrics :: session_metrics where
  "sample_metrics = zero_metrics\<lparr>NumStreams := 1\<rparr>"

definition sample_dial :: dial_outcome where
  "sample_dial = \<lparr>dialed = Some (zero_session\<lparr>sess_metrics := Some sample_metrics\<rparr>), d_now = 1, d_setup = ''1ms'',
     go_watch = True, go_final = True, go_close = True, go_accept = True\<rparr>"

definition sample_tunnel :: tunnel where
  "sample_tunnel = newTunnel Default ''peer:1''"

definition sample_world :: world where
  "sample_world = init_world Default (\<lambda>t. if t = 0 then ''peer:1'' else '''')"

text \<open>A tunnel whose session was first seen idle at one second, with an idle timeout of ten seconds and
  the idle timer running.\<close>

definition used_world :: world where
  "used_world = sample_world\<lparr>w_cfg := Default\<lparr>Mux := (Mux Default)\<lparr>mux_IdleTimeout := 10\<rparr>\<rparr>,
     sessions := (\<lambda>_. zero_session\<lparr>sess_metrics := Some sample_metrics\<rparr>),
     tunnels := (\<lambda>_. sample_tunnel\<lparr>ss := Some 0, idleSince := second\<rparr>),
     idle_watch := (\<lambda>_. WatchTimer)\<rparr>"

section \<open>Properties\<close>



text \<open>A session is finalized at most once: no schedule runs finalizeSession twice for one session.\<close>

theorem finalize_once:
  "exec tun_step (es @ EFinalize now t s # fs @ EFinalize now' t' s # gs) (init_world cfg addrs) = None"
proof (cases "exec tun_step es (init_world cfg addrs)")
  case None
  then show ?thesis by (simp add: exec_append)
next
  case (Some w)
  note i = tunnel_reachable [OF Some]
  show ?thesis
  proof (cases "tun_step (EFinalize now t s) w")
    case None
    then show ?thesis using Some by (simp add: exec_append)
  next
    case (Some v)
    have r: "retired s v" by (rule finalize_retires [OF i Some])
    have "exec tun_step (fs @ EFinalize now' t' s # gs) v = None"
    proof (cases "exec tun_step fs v")
      case (Some u)
      from retired_exec [OF r this] have "tun_step (EFinalize now' t' s) u = None"
        by (force simp: retired_def)
      with Some show ?thesis by (simp add: exec_append)
    qed (simp add: exec_append)
    with Some \<open>exec tun_step es _ = Some w\<close> show ?thesis by (simp add: exec_append)
  qed
qed

text \<open>(C6) After Stop has run on an outbound tunnel, whatever happens before and after it, the tunnel never
  has an open session again, not even from a dial that was in flight.\<close>

theorem stop_is_final:
  assumes "exec tun_step (es @ EStop t # fs) (init_world cfg addrs) = Some w" and "addrs t \<noteq> ''''"
  shows "getSession w t = None \<and> (\<forall>s. ss (tunnels w t) = Some s \<longrightarrow> IsClosed w s)"
proof -
  obtain u where u: "exec tun_step es (init_world cfg addrs) = Some u" "exec tun_step fs (Stop t u) = Some w"
    using assms(1) by (auto simp: exec_append split: option.splits)
  have "keeps_stop t (init_world cfg addrs) u"
    by (rule exec_keeps_stop [OF u(1)]) (simp add: init_world_def assms(2))
  then have a: "dialAddr (tunnels u t) \<noteq> ''''" using assms(2) by (simp add: keeps_stop_def init_world_def)
  have "stopped (tunnels (Stop t u) t)" by (simp add: Stop_def)
  moreover have "dialAddr (tunnels (Stop t u) t) \<noteq> ''''" using a by (simp add: Stop_def)
  ultimately have "stopped (tunnels w t)" using exec_keeps_stop [OF u(2), of t] by (simp add: keeps_stop_def)
  with tun_invD(5) [OF tunnel_reachable [OF assms(1)], of t] show ?thesis
    by (auto simp: getSession_def split: option.splits)
qed

theorem stop_is_final_witness:
  "\<exists>w. exec tun_step ([EStart 0 True, ELoopMaint 0 True 0] @ EStop 0 # [ELoopDialed 0 sample_dial 0]) sample_world = Some w
     \<and> getSession w 0 = None \<and> IsClosed w 0"
proof -
  let ?es = "[EStart 0 True, ELoopMaint 0 True 0] @ EStop 0 # [ELoopDialed 0 sample_dial 0]"
  have "case exec tun_step ?es sample_world of None \<Rightarrow> False | Some w \<Rightarrow> IsClosed w 0" by code_simp
  then obtain w where w: "exec tun_step ?es sample_world = Some w" "IsClosed w 0" by (auto split: option.splits)
  with stop_is_final [OF w(1) [unfolded sample_world_def]] show ?thesis by simp
qed

text \<open>(C22) When the current session of an outbound tunnel is finalized and it was not evicted for being
  idle, the redial signal is set, so a waiting redial loop can wake at once; after an idle eviction
  the signal is left as it was.\<close>

theorem redial_signalled:
  assumes "exec tun_step es (init_world cfg addrs) = Some w" and "ss (tunnels w t) = Some s"
    and "IsClosed w s" and "dialAddr (tunnels w t) \<noteq> ''''"
  shows "\<exists>v. tun_step (EFinalize now t s) w = Some v \<and> ss (tunnels v t) = None
    \<and> redialSig (tunnels v t) = (if idleEvicted (tunnels w t) then redialSig (tunnels w t) else 1)
    \<and> (\<not> idleEvicted (tunnels w t) \<and> loop (tunnels w t) = LoopWait c \<longrightarrow> tun_step (ELoopWake t) v \<noteq> None)"
proof -
  have "(t, s) \<in> finalizers w" by (rule tun_invD(6) [OF tunnel_reachable [OF assms(1)] assms(2,4)])
  then show ?thesis using assms(2-4) by (simp add: finalize_sel)
qed

theorem redial_signalled_witness:
  "\<exists>w v. exec tun_step [EStart 0 True, ELoopMaint 0 True 0, ELoopDialed 0 sample_dial 0, ECloseSession 0] sample_world = Some w
     \<and> tun_step (EFinalize 9 0 0) w = Some v \<and> redialSig (tunnels v 0) = 1"
proof -
  let ?es = "[EStart 0 True, ELoopMaint 0 True 0, ELoopDialed 0 sample_dial 0, ECloseSession 0]"
  have "case exec tun_step ?es sample_world of None \<Rightarrow> False
      | Some w \<Rightarrow> ss (tunnels w 0) = Some 0 \<and> IsClosed w 0 \<and> dialAddr (tunnels w 0) \<noteq> '''' \<and> \<not> idleEvicted (tunnels w 0)"
    by code_simp
  then obtain w where w: "exec tun_step ?es sample_world = Some w" "ss (tunnels w 0) = Some 0" "IsClosed w 0"
    "dialAddr (tunnels w 0) \<noteq> ''''" "\<not> idleEvicted (tunnels w 0)" by (auto split: option.splits)
  from redial_signalled [OF w(1) [unfolded sample_world_def] w(2-4), of 9 None] w(5)
  obtain v where "tun_step (EFinalize 9 0 0) w = Some v" "redialSig (tunnels v 0) = 1" by auto
  with w(1) show ?thesis by blast
qed

text \<open>The redial timer stays within 20 percent of the entry of the backoff table selected by the number of
  failures: at least 160 milliseconds and less than 12 minutes.\<close>

theorem schedule_bounds:
  assumes "schedule rnd cfg x = Some d" and "\<forall>n > 0. 0 \<le> rnd n \<and> rnd n < n"
  shows "\<exists>e. e = waitTimeConst ! (min (nat (redialCount x - 1)) 12)
     \<and> e - e div 5 \<le> d \<and> d < e + e div 5 \<and> 160 * millisecond \<le> d \<and> d < 12 * minute"
proof -
  have tab: "\<forall>e \<in> set waitTimeConst. e > 0 \<and> 5 dvd e \<and> 200 * millisecond \<le> e \<and> e \<le> 10 * minute"
    by (simp add: waitTimeConst_def millisecond_def minute_def second_def)
  have len: "length waitTimeConst = 13" by (simp add: waitTimeConst_def)
  define e where "e = waitTimeConst ! (min (nat (redialCount x - 1)) 12)"
  have m: "e \<in> set waitTimeConst" using len by (simp add: e_def)
  have "d = e + (rnd (e * 2 div 5) - e div 5)"
    using assms(1) len unfolding schedule_def e_def Let_def
    by (cases "nat (redialCount x - 1) < 13") (auto simp: min_def split: if_splits)
  moreover obtain k where k: "e = 5 * k" using m tab by (auto elim: dvdE)
  moreover have "0 < e" using m tab by blast
  then have "0 < e * 2 div 5" using k by simp
  then have "0 \<le> rnd (e * 2 div 5) \<and> rnd (e * 2 div 5) < e * 2 div 5" using assms(2) by blast
  ultimately have "e - e div 5 \<le> d" "d < e + e div 5" "160 * millisecond \<le> d" "d < 12 * minute"
    using m tab by (auto simp: millisecond_def minute_def second_def)
  then show ?thesis using e_def by blast
qed

theorem schedule_bounds_witness:
  "schedule (\<lambda>n. n - 1) Default (sample_tunnel\<lparr>redialCount := 1\<rparr>) = Some 239999999
   \<and> 160 * millisecond \<le> 239999999 \<and> 239999999 < 12 * minute"
proof -
  have s: "schedule (\<lambda>n. n - 1) Default (sample_tunnel\<lparr>redialCount := 1\<rparr>) = Some 239999999" by code_simp
  from schedule_bounds [OF s] s show ?thesis by auto
qed

text \<open>checkIdle closes an open current session exactly when it has no streams and is either stale or has
  been idle, since the last check that saw it so, for the configured timeout; a session with
  streams is never closed.\<close>

theorem idle_eviction_iff:
  assumes "ss (tunnels w t) = Some s" and "\<not> IsClosed w s"
  shows "IsClosed (checkIdle now t w) s \<longleftrightarrow>
     num_streams (sessions w s) = 0 \<and>
     (stale (tunnels w t) \<or> (IdleTimeout (w_cfg w) > 0 \<and> idleSince (tunnels w t) \<noteq> 0
        \<and> time_sub now (idleSince (tunnels w t)) \<ge> IdleTimeout (w_cfg w)))"
  using assms by (auto simp: checkIdle_def Let_def time_sub_def min_int64_def max_int64_def)

theorem idle_eviction_iff_witness:
  "let w = sample_world\<lparr>tunnels := (\<lambda>_. sample_tunnel\<lparr>ss := Some 0, stale := True\<rparr>)\<rparr> in IsClosed (checkIdle 7 0 w) 0"
proof -
  let ?w = "sample_world\<lparr>tunnels := (\<lambda>_. sample_tunnel\<lparr>ss := Some 0, stale := True\<rparr>)\<rparr>"
  have h: "ss (tunnels ?w 0) = Some 0" "\<not> IsClosed ?w 0"
    by (simp_all add: IsClosed_def sample_world_def init_world_def zero_session_def)
  from idle_eviction_iff [OF h, of 7] show ?thesis
    by (simp add: sample_world_def init_world_def zero_session_def num_streams_def)
qed

text \<open>A redial loop that finds an on-demand dial in progress resets its failure count and waits without a
  timer; if that dial then fails, the tunnel is left without a session, a dial in progress, a
  pending signal or a timer, although redialing is enabled: nothing wakes the loop but a stop.\<close>

theorem redial_loop_stalls:
  "\<exists>es w. exec tun_step es sample_world = Some w
     \<and> \<not> NoRedial (w_cfg w) \<and> dialAddr (tunnels w 0) \<noteq> '''' \<and> \<not> stopped (tunnels w 0)
     \<and> getSession w 0 = None \<and> dialMu (tunnels w 0) = None \<and> \<not> idleEvicted (tunnels w 0)
     \<and> loop (tunnels w 0) = LoopWait None
     \<and> tun_step (ELoopWake 0) w = None \<and> tun_step (ELoopTimer 0) w = None"
proof -
  let ?es = "[EStart 0 True, EOpen 0, ELoopMaint 0 True 0, EOpenDialed 0 (sample_dial\<lparr>dialed := None\<rparr>)]"
  have "case exec tun_step ?es sample_world of None \<Rightarrow> False
      | Some w \<Rightarrow> \<not> NoRedial (w_cfg w) \<and> dialAddr (tunnels w 0) \<noteq> '''' \<and> \<not> stopped (tunnels w 0)
     \<and> getSession w 0 = None \<and> dialMu (tunnels w 0) = None \<and> \<not> idleEvicted (tunnels w 0)
     \<and> loop (tunnels w 0) = LoopWait None \<and> redialSig (tunnels w 0) = 0"
    by code_simp
  then obtain w where "exec tun_step ?es sample_world = Some w" "\<not> NoRedial (w_cfg w)" "dialAddr (tunnels w 0) \<noteq> ''''"
    "\<not> stopped (tunnels w 0)" "getSession w 0 = None" "dialMu (tunnels w 0) = None" "\<not> idleEvicted (tunnels w 0)"
    "loop (tunnels w 0) = LoopWait None" "redialSig (tunnels w 0) = 0"
    by (auto split: option.splits)
  then show ?thesis by (intro exI [of _ ?es] exI [of _ w]) (simp del: exec.simps)
qed

text \<open>The start of an idle period is only forgotten by a check that sees a stream, and the watcher checks
  when streams end: if the idle timer was restarted and a stream opens and closes before it fires,
  the check at the end of that stream evicts the session as idle, with no idle time since its use.\<close>

theorem evicted_after_use:
  assumes "idle_watch v (t, s) = WatchTimer" and "ss (tunnels v t) = Some s" and "\<not> IsClosed v s"
    and "sess_metrics (sessions v s) = Some m" and "\<not> stale (tunnels v t)"
    and "0 < IdleTimeout (w_cfg v)" and "idleSince (tunnels v t) \<noteq> 0"
    and "time_sub now (idleSince (tunnels v t)) \<ge> IdleTimeout (w_cfg v)"
  shows "\<exists>w. exec tun_step [EStreams s 1, EStreams s 0, EWatch SigIdle now t s, EWatch SigStep now t s] v = Some w
     \<and> IsClosed w s \<and> idleEvicted (tunnels w t)"
  using assms
  by (simp add: set_streams_def watchIdleSession_def checkIdle_def Let_def IsClosed_def num_streams_def
      upd_tunnel_def sess_close_def)

theorem evicted_after_use_witness:
  "\<exists>w. exec tun_step [EStreams 0 1, EStreams 0 0, EWatch SigIdle (12 * second) 0 0, EWatch SigStep (12 * second) 0 0]
     used_world = Some w \<and> IsClosed w 0"
proof -
  have h: "idle_watch used_world (0, 0) = WatchTimer" "ss (tunnels used_world 0) = Some 0" "\<not> IsClosed used_world 0"
    "sess_metrics (sessions used_world 0) = Some sample_metrics" "\<not> stale (tunnels used_world 0)"
    "0 < IdleTimeout (w_cfg used_world)" "idleSince (tunnels used_world 0) \<noteq> 0"
    "time_sub (12 * second) (idleSince (tunnels used_world 0)) \<ge> IdleTimeout (w_cfg used_world)"
    by code_simp+
  from evicted_after_use [OF h] show ?thesis by blast
qed

end
