(* ===== verification/Mux_Config.thy ===== *)
theory Mux_Config
  imports Config
begin

text \<open>
  The transport configurations of \<^verbatim>\<open>v4/mux/h2mux/config.go\<close> and \<^verbatim>\<open>v4/mux/h3mux/config.go\<close>: how the
  settings handed over by the server become TLS configs, gRPC options and QUIC options.  The options
  themselves belong to gRPC and quic-go; they are the values the code passes.  A TLS config provider
  is represented by its presence, and the value it returns when called is the argument \<open>cur\<close>.
\<close>

type_synonym tlsc = "(string, string) tls_config"

record h2_config =
  h2_LocalID :: string
  h2_TLSConfig :: "tlsc option"
  h2_provider :: bool
  h2_ServerName :: string
  h2_ALPN :: string
  h2_RejectInbound :: bool
  h2_KeepAlive :: go_duration
  h2_PingTimeout :: go_duration
  h2_WriteTimeout :: go_duration
  h2_SessionWindow :: int       \<comment> \<open>int32\<close>
  h2_StreamWindow :: int
  h2_MaxConcurrentStreams :: u32
  h2_IdleTimeout :: go_duration

definition defaultH2ALPN :: string where
  "defaultH2ALPN = ''h2''"

definition h2_tlsConfig :: "tlsc option \<Rightarrow> h2_config \<Rightarrow> tlsc option" where
  "h2_tlsConfig cur c = (if h2_provider c then cur else h2_TLSConfig c)"

definition h2_alpn :: "h2_config \<Rightarrow> string" where
  "h2_alpn c = (if h2_ALPN c \<noteq> '''' then h2_ALPN c else defaultH2ALPN)"

definition h2_appliedTLSConfig :: "tlsc option \<Rightarrow> h2_config \<Rightarrow> tlsc option" where
  "h2_appliedTLSConfig cur c =
     (case h2_tlsConfig cur c of
        None \<Rightarrow> None
      | Some cfg \<Rightarrow>
          let cfg = (if h2_ServerName c \<noteq> '''' then cfg\<lparr>cfg_ServerName := h2_ServerName c\<rparr> else cfg)
          in Some (cfg\<lparr>NextProtos := [h2_alpn c]\<rparr>))"

definition windowSize :: "int \<Rightarrow> int" where
  "windowSize v = (if v \<ge> 65535 then v else 0)"

definition h2_sessionWindow :: "h2_config \<Rightarrow> int" where
  "h2_sessionWindow c = windowSize (h2_SessionWindow c)"

definition h2_streamWindow :: "h2_config \<Rightarrow> int" where
  "h2_streamWindow c = windowSize (h2_StreamWindow c)"

definition h2_keepAlive :: "h2_config \<Rightarrow> go_duration" where
  "h2_keepAlive c = (if h2_KeepAlive c > 0 then h2_KeepAlive c else 25 * second)"

definition h2_pingTimeout :: "h2_config \<Rightarrow> go_duration" where
  "h2_pingTimeout c = (if h2_PingTimeout c > 0 then h2_PingTimeout c else 15 * second)"

definition h2_maxConcurrentStreams :: "h2_config \<Rightarrow> u32" where
  "h2_maxConcurrentStreams c =
     (if h2_MaxConcurrentStreams c > 0 then h2_MaxConcurrentStreams c else 4294967294)"

definition connBufferSize :: int where
  "connBufferSize = 128 * 1024"

datatype dial_option =
    WithTransportCredentialsInsecure
  | WithKeepaliveParams go_duration go_duration bool   \<comment> \<open>Time, Timeout, PermitWithoutStream\<close>
  | WithDisableRetry
  | WithDisableServiceConfig
  | WithReadBufferSize int
  | WithWriteBufferSize int
  | WithStaticConnWindowSize int
  | WithStaticStreamWindowSize int

definition grpcDialOptions :: "h2_config \<Rightarrow> dial_option list" where
  "grpcDialOptions c =
     [WithTransportCredentialsInsecure,
      WithKeepaliveParams (h2_keepAlive c) (h2_pingTimeout c) True,
      WithDisableRetry, WithDisableServiceConfig,
      WithReadBufferSize connBufferSize, WithWriteBufferSize connBufferSize]
     @ (if h2_sessionWindow c > 0 then [WithStaticConnWindowSize (h2_sessionWindow c)] else [])
     @ (if h2_streamWindow c > 0 then [WithStaticStreamWindowSize (h2_streamWindow c)] else [])"

datatype server_option =
    CredsInsecure
  | KeepaliveParams go_duration go_duration go_duration   \<comment> \<open>Time, Timeout, MaxConnectionIdle\<close>
  | KeepaliveEnforcementPolicy go_duration bool           \<comment> \<open>MinTime, PermitWithoutStream\<close>
  | MaxConcurrentStreamsOption u32
  | ReadBufferSize int
  | WriteBufferSize int
  | StaticConnWindowSize int
  | StaticStreamWindowSize int

definition grpcServerOptions :: "h2_config \<Rightarrow> server_option list" where
  "grpcServerOptions c =
     [CredsInsecure,
      KeepaliveParams (h2_keepAlive c) (h2_pingTimeout c) (h2_IdleTimeout c),
      KeepaliveEnforcementPolicy (1 * second) True,
      MaxConcurrentStreamsOption (h2_maxConcurrentStreams c),
      ReadBufferSize connBufferSize, WriteBufferSize connBufferSize]
     @ (if h2_sessionWindow c > 0 then [StaticConnWindowSize (h2_sessionWindow c)] else [])
     @ (if h2_streamWindow c > 0 then [StaticStreamWindowSize (h2_streamWindow c)] else [])"

section \<open>h3mux\<close>

record h3_config =
  h3_LocalID :: string
  h3_TLSConfig :: "tlsc option"
  h3_provider :: bool
  h3_ServerName :: string
  h3_ALPN :: string
  h3_RejectInbound :: bool
  h3_KeepAlivePeriod :: go_duration
  h3_HandshakeTimeout :: go_duration
  h3_MaxIdleTimeout :: go_duration
  h3_MaxIncomingStreams :: int
  h3_InitialStreamReceiveWindow :: u64
  h3_MaxStreamReceiveWindow :: u64
  h3_InitialConnectionReceiveWindow :: u64
  h3_MaxConnectionReceiveWindow :: u64

definition defaultH3ALPN :: string where
  "defaultH3ALPN = ''h3''"

definition h3_keepAlivePeriod :: "h3_config \<Rightarrow> go_duration" where
  "h3_keepAlivePeriod c = (if h3_KeepAlivePeriod c > 0 then h3_KeepAlivePeriod c else 25 * second)"

definition h3_maxIncomingStreams :: "h3_config \<Rightarrow> int" where
  "h3_maxIncomingStreams c = (if h3_MaxIncomingStreams c > 0 then h3_MaxIncomingStreams c else 1024)"

text \<open>\<^verbatim>\<open>quic.Config\<close>: a field left zero makes quic-go use its own default.\<close>

record quic_config =
  q_KeepAlivePeriod :: go_duration
  q_MaxIncomingStreams :: int
  q_MaxIncomingUniStreams :: int
  q_HandshakeIdleTimeout :: go_duration
  q_MaxIdleTimeout :: go_duration
  q_InitialStreamReceiveWindow :: u64
  q_MaxStreamReceiveWindow :: u64
  q_InitialConnectionReceiveWindow :: u64
  q_MaxConnectionReceiveWindow :: u64

definition quicConfig :: "h3_config \<Rightarrow> quic_config" where
  "quicConfig c =
     (let q = \<lparr>q_KeepAlivePeriod = h3_keepAlivePeriod c, q_MaxIncomingStreams = h3_maxIncomingStreams c,
               q_MaxIncomingUniStreams = -1, q_HandshakeIdleTimeout = 0, q_MaxIdleTimeout = 0,
               q_InitialStreamReceiveWindow = 0, q_MaxStreamReceiveWindow = 0,
               q_InitialConnectionReceiveWindow = 0, q_MaxConnectionReceiveWindow = 0\<rparr>;
          q = (if h3_HandshakeTimeout c > 0 then q\<lparr>q_HandshakeIdleTimeout := h3_HandshakeTimeout c\<rparr> else q);
          q = (if h3_MaxIdleTimeout c > 0 then q\<lparr>q_MaxIdleTimeout := h3_MaxIdleTimeout c\<rparr> else q);
          q = (if h3_InitialStreamReceiveWindow c > 0
               then q\<lparr>q_InitialStreamReceiveWindow := h3_InitialStreamReceiveWindow c\<rparr> else q);
          q = (if h3_MaxStreamReceiveWindow c > 0
               then q\<lparr>q_MaxStreamReceiveWindow := h3_MaxStreamReceiveWindow c\<rparr> else q);
          q = (if h3_InitialConnectionReceiveWindow c > 0
               then q\<lparr>q_InitialConnectionReceiveWindow := h3_InitialConnectionReceiveWindow c\<rparr> else q)
      in if h3_MaxConnectionReceiveWindow c > 0
         then q\<lparr>q_MaxConnectionReceiveWindow := h3_MaxConnectionReceiveWindow c\<rparr> else q)"

definition currentTLSConfig :: "tlsc option \<Rightarrow> h3_config \<Rightarrow> tlsc option" where
  "currentTLSConfig cur c = (if h3_provider c then cur else h3_TLSConfig c)"

definition h3_alpn :: "h3_config \<Rightarrow> string" where
  "h3_alpn c = (if h3_ALPN c \<noteq> '''' then h3_ALPN c else defaultH3ALPN)"

definition h3_applyTLS :: "h3_config \<Rightarrow> tlsc \<Rightarrow> tlsc" where
  "h3_applyTLS c cfg =
     (let cfg = (if h3_ServerName c \<noteq> '''' then cfg\<lparr>cfg_ServerName := h3_ServerName c\<rparr> else cfg)
      in cfg\<lparr>NextProtos := [h3_alpn c]\<rparr>)"

text \<open>Cloning a nil TLS config gives nil, and setting a field of it panics: \<open>None\<close> is the panic.\<close>

definition tlsClientConfig :: "tlsc option \<Rightarrow> h3_config \<Rightarrow> tlsc option" where
  "tlsClientConfig cur c = map_option (h3_applyTLS c) (currentTLSConfig cur c)"

text \<open>The listener's config, and what its \<^verbatim>\<open>GetConfigForClient\<close> answers when the provider returns \<open>now\<close>:
  an error is \<open>Some None\<close>; without the callback the static config is used.\<close>

definition tlsServerConfig :: "tlsc option \<Rightarrow> h3_config \<Rightarrow> (tlsc \<times> (tlsc option \<Rightarrow> tlsc option)) option" where
  "tlsServerConfig cur c =
     (case currentTLSConfig cur c of
        None \<Rightarrow> None
      | Some t \<Rightarrow>
          Some (h3_applyTLS c t,
                if h3_provider c then (\<lambda>now. map_option (h3_applyTLS c) now) else (\<lambda>_. Some (h3_applyTLS c t))))"

section \<open>Mutual TLS survives the transports\<close>

definition mutual_tls :: "tlsc \<Rightarrow> bool" where
  "mutual_tls t \<longleftrightarrow> ClientAuth t = RequireAndVerifyClientCert \<and> MinVersion t = VersionTLS13 \<and> RootCAs t = ClientCAs t"

lemma NewTLSConfig_mutual: "NewTLSConfig kp pc c = Inr (Some t) \<Longrightarrow> mutual_tls t"
  by (auto simp: NewTLSConfig_def mutual_tls_def split: option.splits sum.splits)

lemma h2_applied_mutual:
  "h2_appliedTLSConfig cur c = Some t \<Longrightarrow>
   \<exists>u. h2_tlsConfig cur c = Some u \<and> mutual_tls t = mutual_tls u \<and> ClientCAs t = ClientCAs u
     \<and> Certificates t = Certificates u \<and> NextProtos t = [h2_alpn c]
     \<and> cfg_ServerName t = (if h2_ServerName c \<noteq> '''' then h2_ServerName c else cfg_ServerName u)"
  by (auto simp: h2_appliedTLSConfig_def Let_def mutual_tls_def split: option.splits if_splits)

lemma h3_apply_mutual:
  "mutual_tls (h3_applyTLS c u) = mutual_tls u" "ClientCAs (h3_applyTLS c u) = ClientCAs u"
  "Certificates (h3_applyTLS c u) = Certificates u" "NextProtos (h3_applyTLS c u) = [h3_alpn c]"
  "cfg_ServerName (h3_applyTLS c u) = (if h3_ServerName c \<noteq> '''' then h3_ServerName c else cfg_ServerName u)"
  by (simp_all add: h3_applyTLS_def Let_def mutual_tls_def)

lemma alpn_nonempty: "h2_alpn c \<noteq> ''''" "h3_alpn d \<noteq> ''''"
  by (simp_all add: h2_alpn_def h3_alpn_def defaultH2ALPN_def defaultH3ALPN_def)

lemma quicConfig_windows:
  "q_InitialStreamReceiveWindow (quicConfig c) = h3_InitialStreamReceiveWindow c"
  "q_MaxStreamReceiveWindow (quicConfig c) = h3_MaxStreamReceiveWindow c"
  "q_InitialConnectionReceiveWindow (quicConfig c) = h3_InitialConnectionReceiveWindow c"
  "q_MaxConnectionReceiveWindow (quicConfig c) = h3_MaxConnectionReceiveWindow c"
  "q_MaxIncomingUniStreams (quicConfig c) = -1"
  "q_MaxIdleTimeout (quicConfig c) = max 0 (h3_MaxIdleTimeout c)"
  "q_HandshakeIdleTimeout (quicConfig c) = max 0 (h3_HandshakeTimeout c)"
  by (auto simp: quicConfig_def Let_def word_gt_0 max_def)

end
