(* ===== verification/Mux_Limiter.thy ===== *)
theory Mux_Limiter
  imports Prelude
begin

text \<open>
  The throttling listener of \<^verbatim>\<open>v4/muxlimiter.go\<close>.  \<open>drp r\<close> is the outcome of \<^verbatim>\<open>rand.Float64() < Rate\<close> for
  a rate of \<open>r\<close> percent at the time of the check; the statistics read at each check and the sessions
  the wrapped listener returns are the input of the accept loop.
\<close>

record limiter_config =
  lc_Start :: u32
  lc_Full :: u32
  lc_Rate :: int           \<comment> \<open>percent\<close>
  lc_MaxSessions :: u32

record limiter =
  lm_c :: limiter_config
  lm_total :: u64
  lm_served :: u64
  lm_closed :: "nat list"  \<comment> \<open>sessions closed by the limiter, oldest first\<close>

definition newHardenedMuxListener :: "limiter_config \<Rightarrow> limiter" where
  "newHardenedMuxListener c = \<lparr>lm_c = c, lm_total = 0, lm_served = 0, lm_closed = []\<rparr>"

definition isLimited :: "(int \<Rightarrow> bool) \<Rightarrow> limiter_config \<Rightarrow> u32 \<times> u32 \<Rightarrow> bool" where
  "isLimited drp c st =
     (let (numSessions, numHalfOpen) = st
      in if lc_MaxSessions c > 0 \<and> numSessions > lc_MaxSessions c then True
         else if lc_Full c > 0 \<and> numHalfOpen > lc_Full c then True
         else if lc_Start c > 0 \<and> numHalfOpen > lc_Start c then drp (lc_Rate c)
         else False)"

text \<open>What the wrapped listener's \<^verbatim>\<open>Accept\<close> returns next: an error, or a session together with the
  statistics and the random outcome at the time of the check.\<close>

datatype incoming = AcceptError | Incoming nat "u32 \<times> u32" "int \<Rightarrow> bool"

text \<open>The accept loop: \<open>None\<close> while it is still blocked after the given arrivals.\<close>

fun limiter_Accept :: "incoming list \<Rightarrow> limiter \<Rightarrow> (unit + nat) option \<times> limiter \<times> incoming list" where
  "limiter_Accept [] l = (None, l, [])"
| "limiter_Accept (AcceptError # rest) l = (Some (Inl ()), l, rest)"
| "limiter_Accept (Incoming s st drp # rest) l =
     (let l = l\<lparr>lm_total := lm_total l + 1\<rparr>
      in if isLimited drp (lm_c l) st then limiter_Accept rest (l\<lparr>lm_closed := lm_closed l @ [s]\<rparr>)
         else (Some (Inr s), l\<lparr>lm_served := lm_served l + 1\<rparr>, rest))"

definition limiter_Stats :: "limiter \<Rightarrow> u64 \<times> u64" where
  "limiter_Stats l = (lm_total l, lm_served l)"

section \<open>Properties\<close>

fun session_of :: "incoming \<Rightarrow> nat option" where
  "session_of AcceptError = None"
| "session_of (Incoming s st d) = Some s"

definition arrivals :: "incoming list \<Rightarrow> nat list" where
  "arrivals xs = List.map_filter session_of xs"

lemma arrivals_simps [simp]:
  "arrivals [] = []" "arrivals (AcceptError # xs) = arrivals xs" "arrivals (Incoming s st d # xs) = s # arrivals xs"
  by (simp_all add: arrivals_def List.map_filter_def)

lemma limiter_Accept_conserves:
  "limiter_Accept xs l = (r, l', rest) \<Longrightarrow>
   arrivals xs = drop (length (lm_closed l)) (lm_closed l') @ (case r of Some (Inr s) \<Rightarrow> [s] | _ \<Rightarrow> []) @ arrivals rest
   \<and> lm_closed l' = lm_closed l @ drop (length (lm_closed l)) (lm_closed l')
   \<and> lm_total l' - lm_total l = of_nat (length (arrivals xs) - length (arrivals rest))
   \<and> lm_served l' - lm_served l = (case r of Some (Inr s) \<Rightarrow> 1 | _ \<Rightarrow> 0)
   \<and> length (arrivals rest) \<le> length (arrivals xs)"
proof (induction xs l arbitrary: r l' rest rule: limiter_Accept.induct)
  case (3 s st drp rs l)
  let ?l = "l\<lparr>lm_total := lm_total l + 1\<rparr>"
  show ?case
  proof (cases "isLimited drp (lm_c l) st")
    case False
    with 3 show ?thesis by (auto simp: Let_def)
  next
    case True
    have "limiter_Accept rs (?l\<lparr>lm_closed := lm_closed ?l @ [s]\<rparr>) = (r, l', rest)"
      using 3(2) True by (simp add: Let_def)
    from 3(1) [OF refl _ this] True
    have ih: "arrivals rs = drop (Suc (length (lm_closed l))) (lm_closed l') @ (case r of Some (Inr s) \<Rightarrow> [s] | _ \<Rightarrow> []) @ arrivals rest"
      "lm_closed l' = lm_closed l @ [s] @ drop (Suc (length (lm_closed l))) (lm_closed l')"
      "lm_total l' - (lm_total l + 1) = of_nat (length (arrivals rs) - length (arrivals rest))"
      "lm_served l' - lm_served l = (case r of Some (Inr s) \<Rightarrow> 1 | _ \<Rightarrow> 0)"
      "length (arrivals rest) \<le> length (arrivals rs)"
      by simp_all
    have d: "drop (length (lm_closed l)) (lm_closed l') = s # drop (Suc (length (lm_closed l))) (lm_closed l')"
      by (subst ih(2)) simp
    have "lm_total l' - lm_total l = of_nat (Suc (length (arrivals rs) - length (arrivals rest)))"
      using ih(3) by (simp add: algebra_simps)
    with ih d show ?thesis by (simp add: Suc_diff_le)
  qed
qed auto

text \<open>Every session the network delivers to the limiter is, in order, either closed by it or the one
  returned to the caller or still to come, and the counters report exactly the sessions seen and
  the sessions returned.\<close>

theorem limiter_conserves:
  assumes "limiter_Accept xs (newHardenedMuxListener c) = (r, l, rest)"
  shows "arrivals xs = lm_closed l @ (case r of Some (Inr s) \<Rightarrow> [s] | _ \<Rightarrow> []) @ arrivals rest
    \<and> limiter_Stats l = (of_nat (length (arrivals xs) - length (arrivals rest)), case r of Some (Inr s) \<Rightarrow> 1 | _ \<Rightarrow> 0)"
  using limiter_Accept_conserves [OF assms] by (simp add: newHardenedMuxListener_def limiter_Stats_def)

theorem limiter_conserves_witness:
  "\<exists>l rest. limiter_Accept [Incoming 7 (3, 0) (\<lambda>_. False), Incoming 8 (1, 0) (\<lambda>_. False), AcceptError]
      (newHardenedMuxListener \<lparr>lc_Start = 0, lc_Full = 0, lc_Rate = 0, lc_MaxSessions = 2\<rparr>) = (Some (Inr 8), l, rest)
     \<and> lm_closed l = [7] \<and> limiter_Stats l = (2, 1)"
proof -
  let ?xs = "[Incoming 7 (3, 0) (\<lambda>_. False), Incoming 8 (1, 0) (\<lambda>_. False), AcceptError]"
  let ?c = "\<lparr>lc_Start = 0, lc_Full = 0, lc_Rate = 0, lc_MaxSessions = 2\<rparr> :: limiter_config"
  obtain l where l: "limiter_Accept ?xs (newHardenedMuxListener ?c) = (Some (Inr 8), l, [AcceptError])"
    by (simp add: newHardenedMuxListener_def isLimited_def)
  from limiter_conserves [OF l] l show ?thesis by simp
qed

text \<open>A new session is refused for certain when the sessions exceed max_sessions or the handshakes in
  progress exceed the full threshold, is never refused at or below the limits that are set, and
  between start and full its fate is the random draw; so with max_sessions set to m, a session is
  still admitted while m sessions are open.\<close>

theorem limiter_policy:
  "(lc_MaxSessions c > 0 \<and> n > lc_MaxSessions c \<or> lc_Full c > 0 \<and> h > lc_Full c \<longrightarrow> isLimited drp c (n, h))
   \<and> ((lc_MaxSessions c = 0 \<or> n \<le> lc_MaxSessions c) \<and> (lc_Full c = 0 \<or> h \<le> lc_Full c) \<longrightarrow>
       isLimited drp c (n, h) = (lc_Start c > 0 \<and> h > lc_Start c \<and> drp (lc_Rate c)))
   \<and> (\<not> drp (lc_Rate c) \<and> (lc_Full c = 0 \<or> h \<le> lc_Full c) \<longrightarrow> \<not> isLimited drp c (lc_MaxSessions c, h))"
  by (auto simp: isLimited_def word_gt_0)

theorem limiter_policy_witness:
  "isLimited (\<lambda>_. False) \<lparr>lc_Start = 10, lc_Full = 60, lc_Rate = 30, lc_MaxSessions = 128\<rparr> (129, 0)
   \<and> \<not> isLimited (\<lambda>_. False) \<lparr>lc_Start = 10, lc_Full = 60, lc_Rate = 30, lc_MaxSessions = 128\<rparr> (128, 0)"
  using limiter_policy [of "\<lparr>lc_Start = 10, lc_Full = 60, lc_Rate = 30, lc_MaxSessions = 128\<rparr>" 129 0 "\<lambda>_. False"]
  by simp

end
