(* ===== verification/Server.thy ===== *)
theory Server
  imports Tunnel_Inv Mux_Config Mux_Limiter Forwarder "HOL-Library.Multiset"
begin

text \<open>
  The server of \<^verbatim>\<open>v4/server.go\<close> and the handlers of \<^verbatim>\<open>v4/handler.go\<close>.  The \<open>server\<close> record extends the
  world of the tunnels with the listeners, the dialer, the forwarder's limit and the reload state.
  Operating-system listeners are numbers; \<open>listening\<close> records which are bound and to what, so that a
  listener the server forgets without closing is visible as a leak.  Whether an address can be bound,
  whether the goroutine group accepts a goroutine, the time and the results of X.509 parsing are in
  the environment record.
\<close>

type_synonym lid = nat

datatype mux_dialer = H2Dialer h2_config | H3Dialer h3_config

datatype mux_endpoint = H2Endpoint h2_config | H3Endpoint h3_config

record mux_listener =
  ml_lid :: lid
  ml_conf :: mux_endpoint
  ml_limits :: limiter_config

record server = world +
  tlscfg :: "tlsc option"
  muxDialer :: mux_dialer
  muxListener :: "mux_listener option"
  apiListener :: "lid option"
  fwd_limit :: int                            \<comment> \<open>the limit of the forwarder\<close>
  mainTunnel :: "tid option"
  localListener :: "lid option"
  localListenAddr :: addr
  identityTunnels :: "tid list"
  identities :: "(string \<times> addr \<times> lid) list"  \<comment> \<open>a map: names are distinct\<close>
  ctxs :: context_mgr
  lastConfigJSON :: "string option"
  next_tid :: tid
  next_lid :: lid
  listening :: "lid \<rightharpoonup> addr"
  group_closed :: bool
  fwd_closed :: bool

record env =
  e_bind :: "addr \<Rightarrow> bool"        \<comment> \<open>net.Listen succeeds\<close>
  e_go :: bool                    \<comment> \<open>g.Go succeeds\<close>
  e_now :: go_time
  e_key_pair :: "string \<Rightarrow> string \<Rightarrow> string option"
  e_pem_certs :: "string \<Rightarrow> string list"

datatype srv_error = ErrListen addr | ErrSpawn | ErrTLS cfg_error

text \<open>A Go panic aborts the function; the state at that point remains.\<close>

datatype 'a outcome = Returned 'a | Panicked

section \<open>Limits and conversions\<close>

definition maxStreams :: "config_file \<Rightarrow> int" where
  "maxStreams cfg = (if MaxStreams (Mux cfg) = 0 then 1024 else MaxStreams (Mux cfg))"

text \<open>\<^verbatim>\<open>int32(v)\<close> and \<^verbatim>\<open>uint64(v)\<close> for an \<^verbatim>\<open>int\<close>.\<close>

definition to_i32 :: "int \<Rightarrow> int" where
  "to_i32 x = (x + 2 ^ 31) mod 2 ^ 32 - 2 ^ 31"

definition to_u64 :: "int \<Rightarrow> u64" where
  "to_u64 x = word_of_int x"

definition h3MaxConnReceiveWindow :: u64 where
  "h3MaxConnReceiveWindow = 67108864"

definition h3MaxStreamReceiveWindow :: u64 where
  "h3MaxStreamReceiveWindow = 16777216"

section \<open>Dialers and listeners\<close>

definition buildH3MuxDialer :: "config_file \<Rightarrow> tlsc option \<Rightarrow> h3_config" where
  "buildH3MuxDialer cfg tls =
     \<lparr>h3_LocalID = Claim (Identity cfg), h3_TLSConfig = tls, h3_provider = False,
      h3_ServerName = ServerName cfg, h3_ALPN = ALPN cfg, h3_RejectInbound = (Connect cfg = ''''),
      h3_KeepAlivePeriod = KeepAlive cfg, h3_HandshakeTimeout = ConnectTimeout cfg,
      h3_MaxIdleTimeout = IdleTimeout cfg, h3_MaxIncomingStreams = MaxHalfOpen (Mux cfg),
      h3_InitialStreamReceiveWindow = to_u64 (StreamWindow (Mux cfg)),
      h3_MaxStreamReceiveWindow = h3MaxStreamReceiveWindow,
      h3_InitialConnectionReceiveWindow = to_u64 (SessionWindow (Mux cfg)),
      h3_MaxConnectionReceiveWindow = h3MaxConnReceiveWindow\<rparr>"

definition buildH2MuxDialer :: "config_file \<Rightarrow> tlsc option \<Rightarrow> h2_config" where
  "buildH2MuxDialer cfg tls =
     \<lparr>h2_LocalID = Claim (Identity cfg), h2_TLSConfig = tls, h2_provider = False,
      h2_ServerName = ServerName cfg, h2_ALPN = ALPN cfg, h2_RejectInbound = (Connect cfg = ''''),
      h2_KeepAlive = KeepAlive cfg, h2_PingTimeout = PingTimeout cfg, h2_WriteTimeout = SendTimeout cfg,
      h2_SessionWindow = to_i32 (SessionWindow (Mux cfg)), h2_StreamWindow = to_i32 (StreamWindow (Mux cfg)),
      h2_MaxConcurrentStreams = 0, h2_IdleTimeout = 0\<rparr>"

definition buildMuxDialer :: "config_file \<Rightarrow> tlsc option \<Rightarrow> mux_dialer" where
  "buildMuxDialer cfg tls =
     (if MuxProtocol cfg = ''h3mux'' then H3Dialer (buildH3MuxDialer cfg tls) else H2Dialer (buildH2MuxDialer cfg tls))"

definition buildH2MuxListener :: "config_file \<Rightarrow> h2_config" where
  "buildH2MuxListener cfg =
     \<lparr>h2_LocalID = Claim (Identity cfg), h2_TLSConfig = None, h2_provider = True,
      h2_ServerName = ServerName cfg, h2_ALPN = ALPN cfg, h2_RejectInbound = (Connect cfg = ''''),
      h2_KeepAlive = 0, h2_PingTimeout = 0, h2_WriteTimeout = SendTimeout cfg,
      h2_SessionWindow = to_i32 (SessionWindow (Mux cfg)), h2_StreamWindow = to_i32 (StreamWindow (Mux cfg)),
      h2_MaxConcurrentStreams = to_u32 (MaxHalfOpen (Mux cfg)), h2_IdleTimeout = IdleTimeout cfg\<rparr>"

definition startup_limits :: "config_file \<Rightarrow> limiter_config" where
  "startup_limits cfg =
     (let (start, rate, full) = ParsedMaxStartups cfg
      in \<lparr>lc_Start = to_u32 start, lc_Full = to_u32 full, lc_Rate = rate, lc_MaxSessions = to_u32 (MaxSessions cfg)\<rparr>)"

text \<open>\<^verbatim>\<open>Listen\<close>: a bound listener, or none.\<close>

definition Listen_tcp :: "env \<Rightarrow> addr \<Rightarrow> server \<Rightarrow> lid option \<times> server" where
  "Listen_tcp e a s =
     (if e_bind e a
      then (Some (next_lid s), s\<lparr>listening := (listening s)(next_lid s \<mapsto> a), next_lid := Suc (next_lid s)\<rparr>)
      else (None, s))"

definition close_listener :: "lid \<Rightarrow> server \<Rightarrow> server" where
  "close_listener l s = s\<lparr>listening := (listening s)(l := None)\<rparr>"

text \<open>For h3mux, \<^verbatim>\<open>ListenMux\<close> binds the socket first and then derives the server TLS config, which panics
  when there is no current TLS config.\<close>

definition startMuxListen :: "env \<Rightarrow> config_file \<Rightarrow> addr \<Rightarrow> server \<Rightarrow> srv_error option outcome \<times> server" where
  "startMuxListen e cfg a s =
     (let h3 = (MuxProtocol cfg = ''h3mux'');
          conf = (if h3 then H3Endpoint ((buildH3MuxDialer cfg None)\<lparr>h3_provider := True\<rparr>)
                  else H2Endpoint (buildH2MuxListener cfg));
          (r, s) = Listen_tcp e a s
      in case r of
           None \<Rightarrow> (Returned (Some (ErrListen a)), s)
         | Some l \<Rightarrow>
             if h3 \<and> tlsServerConfig (tlscfg s) ((buildH3MuxDialer cfg None)\<lparr>h3_provider := True\<rparr>) = None
             then (Panicked, s)
             else if \<not> e_go e then (Returned (Some ErrSpawn), close_listener l s)
             else (Returned None,
                   s\<lparr>muxListener := Some \<lparr>ml_lid = l, ml_conf = conf, ml_limits = startup_limits cfg\<rparr>\<rparr>))"

section \<open>Lookup and bookkeeping\<close>

fun find_identity :: "'a world_scheme \<Rightarrow> string \<Rightarrow> tid option \<Rightarrow> tid list \<Rightarrow> tid option" where
  "find_identity w p fallback [] = fallback"
| "find_identity w p fallback (t # ts) =
     (case getSession w t of
        Some s \<Rightarrow>
          if PeerIdentity (sessions w s) = p then Some t
          else find_identity w p (if fallback = None \<and> lastIdentity (tunnels w t) = p then Some t else fallback) ts
      | None \<Rightarrow>
          find_identity w p (if fallback = None \<and> lastIdentity (tunnels w t) = p then Some t else fallback) ts)"

definition findSession :: "server \<Rightarrow> string \<Rightarrow> tid option" where
  "findSession s p = (if p = '''' then mainTunnel s else find_identity s p None (identityTunnels s))"

text \<open>The accepted tunnels come from a map; the model lists them by session number.\<close>

definition accepted_list :: "server \<Rightarrow> tid list" where
  "accepted_list s = List.map_filter (acceptedTunnels s) [0..<next_sid s]"

definition getAllTunnels :: "server \<Rightarrow> tid list" where
  "getAllTunnels s = (case mainTunnel s of None \<Rightarrow> [] | Some t \<Rightarrow> [t]) @ identityTunnels s @ accepted_list s"

definition mark_stale :: "go_time \<Rightarrow> tid \<Rightarrow> 'a world_scheme \<Rightarrow> 'a world_scheme" where
  "mark_stale now t w = checkIdle now t (upd_tunnel t (\<lambda>x. x\<lparr>stale := True\<rparr>) w)"

definition markSessionsStale :: "go_time \<Rightarrow> server \<Rightarrow> server" where
  "markSessionsStale now s = fold (mark_stale now) (getAllTunnels s) s"

definition timeoutAllSessions :: "server \<Rightarrow> server" where
  "timeoutAllSessions s =
     fold (\<lambda>t s. case getSession s t of None \<Rightarrow> s | Some x \<Rightarrow> sess_close x s) (getAllTunnels s) s"

text \<open>One tick of \<^verbatim>\<open>maintenanceLoop\<close>, \<open>elapsed\<close> after the previous one.\<close>

definition maintenance_tick :: "go_duration \<Rightarrow> server \<Rightarrow> server" where
  "maintenance_tick elapsed s = (if elapsed > PingTimeout (w_cfg s) then timeoutAllSessions s else s)"

definition ListenerStats :: "server \<Rightarrow> u32 \<times> u32" where
  "ListenerStats s = (numSessions (stats s), Tunnel.numHalfOpen (stats s))"

section \<open>Reconciling tunnels and listeners with a config\<close>

definition make_tunnel :: "env \<Rightarrow> addr \<Rightarrow> server \<Rightarrow> tid \<times> srv_error list \<times> server" where
  "make_tunnel e a s =
     (let t = next_tid s;
          s = (upd_tunnel t (\<lambda>_. newTunnel (w_cfg s) a) s)\<lparr>next_tid := Suc t\<rparr>;
          (r, s) = Start (e_go e) t s
      in (t, (case r of None \<Rightarrow> [] | Some _ \<Rightarrow> [ErrSpawn]), s))"

definition reconcile_main :: "env \<Rightarrow> config_file \<Rightarrow> server \<Rightarrow> srv_error list \<times> server" where
  "reconcile_main e cfg s =
     (let s = (case mainTunnel s of
                 Some t \<Rightarrow> if dialAddr (tunnels s t) \<noteq> MuxConnect cfg then (Stop t s)\<lparr>mainTunnel := None\<rparr> else s
               | None \<Rightarrow> s)
      in if MuxConnect cfg \<noteq> '''' \<and> mainTunnel s = None
         then let (t, errs, s) = make_tunnel e (MuxConnect cfg) s in (errs, s\<lparr>mainTunnel := Some t\<rparr>)
         else ([], s))"

definition reconcile_local :: "env \<Rightarrow> config_file \<Rightarrow> server \<Rightarrow> srv_error list \<times> server" where
  "reconcile_local e cfg s =
     (if localListenAddr s = Listen cfg then ([], s)
      else
        let s = (case localListener s of
                   Some l \<Rightarrow> (close_listener l s)\<lparr>localListener := None, localListenAddr := ''''\<rparr>
                 | None \<Rightarrow> s)
        in if Listen cfg = '''' then ([], s)
           else case Listen_tcp e (Listen cfg) s of
                  (None, s) \<Rightarrow> ([ErrListen (Listen cfg)], s)
                | (Some l, s) \<Rightarrow>
                    if \<not> e_go e then ([ErrSpawn], close_listener l s)
                    else ([], s\<lparr>localListener := Some l, localListenAddr := Listen cfg\<rparr>))"

text \<open>Identity listeners: those whose name and address are still configured are kept, the others closed;
  then the missing ones are created, skipping those that fail.\<close>

definition keep_identity :: "config_file \<Rightarrow> string \<times> addr \<times> lid \<Rightarrow> bool" where
  "keep_identity cfg il = (map_of (id_Listen (Identity cfg)) (fst il) = Some (fst (snd il)))"

definition drop_identities :: "config_file \<Rightarrow> server \<Rightarrow> server" where
  "drop_identities cfg s =
     (fold (\<lambda>il s. close_listener (snd (snd il)) s) (filter (\<lambda>il. \<not> keep_identity cfg il) (identities s)) s)
       \<lparr>identities := filter (keep_identity cfg) (identities s)\<rparr>"

definition add_identity :: "env \<Rightarrow> string \<times> addr \<Rightarrow> srv_error list \<times> server \<Rightarrow> srv_error list \<times> server" where
  "add_identity e na es =
     (let (errs, s) = es; (name, a) = na
      in if name \<in> fst ` set (identities s) then (errs, s)
         else case Listen_tcp e a s of
                (None, s) \<Rightarrow> (errs @ [ErrListen a], s)
              | (Some l, s) \<Rightarrow>
                  if \<not> e_go e then (errs @ [ErrSpawn], close_listener l s)
                  else (errs, s\<lparr>identities := identities s @ [(name, a, l)]\<rparr>))"

definition reconcile_identities :: "env \<Rightarrow> config_file \<Rightarrow> server \<Rightarrow> srv_error list \<times> server" where
  "reconcile_identities e cfg s = fold (add_identity e) (id_Listen (Identity cfg)) ([], drop_identities cfg s)"

text \<open>Identity tunnels, by address multiset: \<open>desired\<close> counts the configured addresses still unmatched.\<close>

definition count_addrs :: "addr list \<Rightarrow> addr \<Rightarrow> nat" where
  "count_addrs as a = length (filter (\<lambda>b. b = a) as)"

fun keep_tunnels :: "tid list \<Rightarrow> (addr \<Rightarrow> nat) \<Rightarrow> server \<Rightarrow> tid list \<times> (addr \<Rightarrow> nat) \<times> server" where
  "keep_tunnels [] desired s = ([], desired, s)"
| "keep_tunnels (t # ts) desired s =
     (let a = dialAddr (tunnels s t)
      in if desired a > 0
         then let (kept, d, s) = keep_tunnels ts (desired(a := desired a - 1)) s in (t # kept, d, s)
         else keep_tunnels ts desired (Stop t s))"

fun add_tunnels :: "env \<Rightarrow> addr list \<Rightarrow> (addr \<Rightarrow> nat) \<Rightarrow> server \<Rightarrow> tid list \<times> srv_error list \<times> server" where
  "add_tunnels e [] desired s = ([], [], s)"
| "add_tunnels e (a # as) desired s =
     (if desired a = 0 then add_tunnels e as desired s
      else let (t, errs, s) = make_tunnel e a s;
               (ts, errs', s) = add_tunnels e as (desired(a := desired a - 1)) s
           in (t # ts, errs @ errs', s))"

definition reconcile_tunnels :: "env \<Rightarrow> config_file \<Rightarrow> server \<Rightarrow> srv_error list \<times> server" where
  "reconcile_tunnels e cfg s =
     (let as = id_MuxConnect (Identity cfg);
          (kept, desired, s) = keep_tunnels (identityTunnels s) (count_addrs as) s;
          (added, errs, s) = add_tunnels e as desired s
      in (errs, s\<lparr>identityTunnels := kept @ added\<rparr>))"

definition loadTunnels :: "env \<Rightarrow> config_file \<Rightarrow> server \<Rightarrow> srv_error list \<times> server" where
  "loadTunnels e cfg s =
     (let (e0, s) = reconcile_main e cfg s;
          (e1, s) = reconcile_local e cfg s;
          (e2, s) = reconcile_identities e cfg s;
          (e3, s) = reconcile_tunnels e cfg s
      in (e0 @ e1 @ e2 @ e3, s))"

section \<open>Reload\<close>

definition same_listen :: "config_file \<Rightarrow> config_file \<Rightarrow> bool" where
  "same_listen old cfg \<longleftrightarrow> MuxListen cfg = MuxListen old \<and> MuxProtocol cfg = MuxProtocol old
     \<and> MaxSessions cfg = MaxSessions old \<and> MaxStartups cfg = MaxStartups old \<and> Mux cfg = Mux old
     \<and> Claim (Identity cfg) = Claim (Identity old) \<and> Connect cfg = Connect old"

definition reloadMuxListen ::
  "env \<Rightarrow> config_file \<Rightarrow> config_file \<Rightarrow> server \<Rightarrow> srv_error option outcome \<times> server" where
  "reloadMuxListen e old cfg s =
     (if same_listen old cfg then (Returned None, s)
      else
        let ml = muxListener s;
            s = s\<lparr>muxListener := None\<rparr>;
            s = (case ml of None \<Rightarrow> s | Some m \<Rightarrow> close_listener (ml_lid m) s)
        in if MuxListen cfg = '''' then (Returned None, s) else startMuxListen e cfg (MuxListen cfg) s)"

definition startAPIListen :: "env \<Rightarrow> addr \<Rightarrow> server \<Rightarrow> srv_error option \<times> server" where
  "startAPIListen e a s =
     (case Listen_tcp e a s of
        (None, s) \<Rightarrow> (Some (ErrListen a), s)
      | (Some l, s) \<Rightarrow>
          if \<not> e_go e then (Some ErrSpawn, close_listener l s) else (None, s\<lparr>apiListener := Some l\<rparr>))"

definition reloadAPIListen :: "env \<Rightarrow> config_file \<Rightarrow> config_file \<Rightarrow> server \<Rightarrow> srv_error option \<times> server" where
  "reloadAPIListen e old cfg s =
     (if APIListen cfg = APIListen old then (None, s)
      else
        let al = apiListener s;
            s = s\<lparr>apiListener := None\<rparr>;
            s = (case al of None \<Rightarrow> s | Some l \<Rightarrow> close_listener l s)
        in if APIListen cfg = '''' then (None, s) else startAPIListen e (APIListen cfg) s)"

definition opt_list :: "'a option \<Rightarrow> 'a list" where
  "opt_list x = (case x of None \<Rightarrow> [] | Some y \<Rightarrow> [y])"

text \<open>The second step of \<^verbatim>\<open>ReloadConfig\<close>: swap the config, the TLS config unless the new one is nil, the
  dialer and the forwarder limit.\<close>

definition swap_config :: "config_file \<Rightarrow> tlsc option \<Rightarrow> server \<Rightarrow> server" where
  "swap_config cfg newTLS s =
     (let tls = (if newTLS \<noteq> None then newTLS else tlscfg s)
      in s\<lparr>w_cfg := cfg, tlscfg := tls, muxDialer := buildMuxDialer cfg tls, fwd_limit := maxStreams cfg\<rparr>)"

text \<open>\<open>json\<close> is the result of \<^verbatim>\<open>json.Marshal(cfg)\<close>.  The result lists the errors that are joined.\<close>

definition ReloadConfig ::
  "env \<Rightarrow> string option \<Rightarrow> config_file \<Rightarrow> server \<Rightarrow> srv_error list outcome \<times> server" where
  "ReloadConfig e json cfg s =
     (if json \<noteq> None \<and> lastConfigJSON s = json then (Returned [], s)
      else
        let newTLS = NewTLSConfig (e_key_pair e) (e_pem_certs e) cfg;
            errs0 = (case newTLS of Inl x \<Rightarrow> [ErrTLS x] | Inr _ \<Rightarrow> []);
            old = w_cfg s;
            s = swap_config cfg (case newTLS of Inl _ \<Rightarrow> None | Inr t \<Rightarrow> t) s;
            s = markSessionsStale (e_now e) s;
            (r1, s) = reloadMuxListen e old cfg s
        in case r1 of
             Panicked \<Rightarrow> (Panicked, s)
           | Returned err1 \<Rightarrow>
               let (err2, s) = reloadAPIListen e old cfg s;
                   (errs3, s) = loadTunnels e cfg s;
                   s = add_event (e_now e) ''config loaded'' s;
                   errs = errs0 @ opt_list err1 @ opt_list err2 @ errs3
               in (Returned errs, if errs = [] then s\<lparr>lastConfigJSON := json\<rparr> else s))"

section \<open>Start and shutdown\<close>

definition NewServer :: "env \<Rightarrow> config_file \<Rightarrow> cfg_error + server" where
  "NewServer e cfg =
     (case NewTLSConfig (e_key_pair e) (e_pem_certs e) cfg of
        Inl x \<Rightarrow> Inl x
      | Inr tls \<Rightarrow> Inr (world.extend (init_world cfg (\<lambda>_. ''''))
          (server.fields tls (buildMuxDialer cfg tls) None None (maxStreams cfg) None None '''' [] []
             new_context_mgr None 0 0 Map.empty False False)))"

definition server_Start :: "env \<Rightarrow> server \<Rightarrow> srv_error list outcome \<times> server" where
  "server_Start e s =
     (let cfg = w_cfg s;
          (r1, s) = (if MuxListen cfg \<noteq> '''' then startMuxListen e cfg (MuxListen cfg) s else (Returned None, s))
      in case r1 of
           Panicked \<Rightarrow> (Panicked, s)
         | Returned (Some x) \<Rightarrow> (Returned [x], s)
         | Returned None \<Rightarrow>
             let (r2, s) = (if APIListen cfg \<noteq> '''' then startAPIListen e (APIListen cfg) s else (None, s))
             in case r2 of
                  Some x \<Rightarrow> (Returned [x], s)
                | None \<Rightarrow>
                    let (errs, s) = loadTunnels e cfg s
                    in (Returned (if errs \<noteq> [] then errs else if e_go e then [] else [ErrSpawn]), s))"

text \<open>\<^verbatim>\<open>Shutdown\<close> up to the wait for goroutines; the bounded wait is not modelled.\<close>

definition Shutdown :: "server \<Rightarrow> server" where
  "Shutdown s =
     (let ml = muxListener s; al = apiListener s;
          s = s\<lparr>muxListener := None, apiListener := None\<rparr>;
          s = (case ml of None \<Rightarrow> s | Some m \<Rightarrow> close_listener (ml_lid m) s);
          s = (case al of None \<Rightarrow> s | Some l \<Rightarrow> close_listener l s);
          s = (case localListener s of None \<Rightarrow> s | Some l \<Rightarrow> close_listener l s);
          s = fold (\<lambda>il s. close_listener (snd (snd il)) s) (identities s) s;
          s = (case mainTunnel s of None \<Rightarrow> s | Some t \<Rightarrow> Stop t s);
          s = fold Stop (identityTunnels s) s;
          s = s\<lparr>ctxs := close (ctxs s)\<rparr>;
          s = timeoutAllSessions s
      in s\<lparr>group_closed := True, fwd_closed := True\<rparr>)"

end
