(* ===== verification/Server_Inv.thy ===== *)
theory Server_Inv
  imports Server
begin

text \<open>
  Invariants and properties of the server: no listener is leaked by reloads or shutdown, the
  identity tunnels are reconciled as multisets, sessions are found by identity, the transport
  settings derived from a validated config are exact, and the cases in which a reload leaves the
  server in a state its caller does not expect.
\<close>

section \<open>Operations that leave the listeners alone\<close>

definition listeners_of where
  "listeners_of s = (muxListener s, apiListener s, localListener s, localListenAddr s, identities s, listening s, next_lid s)"

lemma listeners_of_eqD:
  assumes "listeners_of a = listeners_of b"
  shows "muxListener a = muxListener b" "apiListener a = apiListener b" "localListener a = localListener b"
    "localListenAddr a = localListenAddr b" "identities a = identities b" "listening a = listening b" "next_lid a = next_lid b"
  using assms by (simp_all add: listeners_of_def)

lemma listeners_of_world [simp]:
  "listeners_of (upd_tunnel t f s) = listeners_of s" "listeners_of (sess_close x s) = listeners_of s"
  "listeners_of (add_event n m s) = listeners_of s"
  by (simp_all add: listeners_of_def upd_tunnel_def sess_close_def add_event_def)

lemma listeners_of_fields [simp]:
  "listeners_of (s\<lparr>mainTunnel := a\<rparr>) = listeners_of s" "listeners_of (s\<lparr>identityTunnels := b\<rparr>) = listeners_of s"
  "listeners_of (s\<lparr>next_tid := c\<rparr>) = listeners_of s" "listeners_of (s\<lparr>lastConfigJSON := d\<rparr>) = listeners_of s"
  "listeners_of (s\<lparr>ctxs := e\<rparr>) = listeners_of s" "listeners_of (s\<lparr>group_closed := g\<rparr>) = listeners_of s"
  "listeners_of (s\<lparr>fwd_closed := h\<rparr>) = listeners_of s"
  by (simp_all add: listeners_of_def)

lemma listeners_of_Stop [simp]: "listeners_of (Stop t s) = listeners_of s"
  by (simp add: Stop_def close_current_def split: option.split)

lemma listeners_of_Start [simp]: "listeners_of (snd (Start go t s)) = listeners_of s"
  by (simp add: Start_def)

lemma listeners_of_checkIdle [simp]: "listeners_of (checkIdle now t s) = listeners_of s"
  by (cases rule: checkIdle_cases [of now t s]) simp_all

lemma listeners_of_fold:
  "(\<And>x s. listeners_of (f x s) = listeners_of s) \<Longrightarrow> listeners_of (fold f xs s) = listeners_of s"
  by (induction xs arbitrary: s) simp_all

lemma listeners_of_stale [simp]: "listeners_of (markSessionsStale now s) = listeners_of s"
  unfolding markSessionsStale_def by (rule listeners_of_fold) (simp add: mark_stale_def)

lemma listeners_of_timeout [simp]: "listeners_of (timeoutAllSessions s) = listeners_of s"
  unfolding timeoutAllSessions_def by (rule listeners_of_fold) (simp split: option.split)

lemma listeners_of_make:
  assumes "make_tunnel e a s = (t, errs, s')"
  shows "listeners_of s' = listeners_of s"
proof -
  have "s' = snd (Start (e_go e) (next_tid s) ((upd_tunnel (next_tid s) (\<lambda>_. newTunnel (w_cfg s) a) s)\<lparr>next_tid := Suc (next_tid s)\<rparr>))"
    using assms by (auto simp: make_tunnel_def Let_def split: prod.splits)
  then show ?thesis by simp
qed

lemma listeners_of_main: "listeners_of (snd (reconcile_main e cfg s)) = listeners_of s"
proof -
  define s1 where "s1 = (case mainTunnel s of
      Some t \<Rightarrow> if dialAddr (tunnels s t) \<noteq> MuxConnect cfg then (Stop t s)\<lparr>mainTunnel := None\<rparr> else s | None \<Rightarrow> s)"
  have l: "listeners_of s1 = listeners_of s" by (simp add: s1_def split: option.split)
  obtain t errs s2 where m: "make_tunnel e (MuxConnect cfg) s1 = (t, errs, s2)" by (cases "make_tunnel e (MuxConnect cfg) s1")
  show ?thesis using listeners_of_make [OF m] l
    by (simp add: reconcile_main_def Let_def m flip: s1_def)
qed

lemma listeners_of_keep: "keep_tunnels ts d s = (k, d', s') \<Longrightarrow> listeners_of s' = listeners_of s"
proof (induction ts d s arbitrary: k d' s' rule: keep_tunnels.induct)
  case (2 t ts desired s)
  show ?case
  proof (cases "desired (dialAddr (tunnels s t)) > 0")
    case True
    obtain k1 d1 s1 where k: "keep_tunnels ts (desired(dialAddr (tunnels s t) := desired (dialAddr (tunnels s t)) - 1)) s = (k1, d1, s1)"
      by (cases "keep_tunnels ts (desired(dialAddr (tunnels s t) := desired (dialAddr (tunnels s t)) - 1)) s")
    from 2(1) [OF refl True k] 2(3) True k show ?thesis by (simp add: Let_def)
  next
    case False
    with 2(3) have "keep_tunnels ts desired (Stop t s) = (k, d', s')" by (simp add: Let_def)
    from 2(2) [OF refl False this] show ?thesis by simp
  qed
qed simp

lemma listeners_of_add: "add_tunnels e as d s = (ts, errs, s') \<Longrightarrow> listeners_of s' = listeners_of s"
proof (induction as arbitrary: d s ts errs s')
  case (Cons a as)
  show ?case
  proof (cases "d a = 0")
    case True
    with Cons show ?thesis by simp
  next
    case False
    obtain t e1 s1 where m: "make_tunnel e a s = (t, e1, s1)" by (cases "make_tunnel e a s")
    obtain ts1 e2 s2 where r: "add_tunnels e as (d(a := d a - 1)) s1 = (ts1, e2, s2)"
      by (cases "add_tunnels e as (d(a := d a - 1)) s1")
    have "s' = s2" using Cons.prems False m r by simp
    with Cons.IH [OF r] listeners_of_make [OF m] show ?thesis by simp
  qed
qed simp

lemma listeners_of_tunnels: "listeners_of (snd (reconcile_tunnels e cfg s)) = listeners_of s"
proof -
  obtain k d s1 where k: "keep_tunnels (identityTunnels s) (count_addrs (id_MuxConnect (Identity cfg))) s = (k, d, s1)"
    by (cases "keep_tunnels (identityTunnels s) (count_addrs (id_MuxConnect (Identity cfg))) s")
  obtain ts errs s2 where a: "add_tunnels e (id_MuxConnect (Identity cfg)) d s1 = (ts, errs, s2)"
    by (cases "add_tunnels e (id_MuxConnect (Identity cfg)) d s1")
  show ?thesis using listeners_of_keep [OF k] listeners_of_add [OF a] by (simp add: reconcile_tunnels_def Let_def k a)
qed

section \<open>No listener is leaked\<close>

text \<open>The listeners the server refers to.\<close>

definition ref_list where
  "ref_list s = map ml_lid (opt_list (muxListener s)) @ opt_list (apiListener s) @ opt_list (localListener s)
     @ map (\<lambda>il. snd (snd il)) (identities s)"

text \<open>Every referenced listener is open, every open listener is referenced exactly once, and the recorded
  addresses are the bound ones.\<close>

definition lst_core where
  "lst_core s \<longleftrightarrow> distinct (ref_list s) \<and> dom (listening s) = set (ref_list s) \<and> (\<forall>l \<in> set (ref_list s). l < next_lid s)"

definition lst_addr where
  "lst_addr s \<longleftrightarrow> distinct (map fst (identities s)) \<and> (\<forall>(n, a, l) \<in> set (identities s). listening s l = Some a)
     \<and> (case localListener s of None \<Rightarrow> localListenAddr s = '''' | Some l \<Rightarrow> listening s l = Some (localListenAddr s))"

definition lst_inv where
  "lst_inv s \<longleftrightarrow> lst_core s \<and> lst_addr s"

lemma lst_inv_cong:
  assumes "listeners_of a = listeners_of b"
  shows "lst_inv a = lst_inv b"
  unfolding lst_inv_def lst_core_def lst_addr_def ref_list_def listeners_of_eqD [OF assms] ..

lemma lst_core_add:
  assumes "lst_core s" and "mset (ref_list s') = add_mset (next_lid s) (mset (ref_list s))"
    and "listening s' = (listening s)(next_lid s \<mapsto> a)" and "next_lid s' = Suc (next_lid s)"
  shows "lst_core s'"
proof -
  have n: "next_lid s \<notin> set (ref_list s)" using assms(1) by (auto simp: lst_core_def)
  have "mset (ref_list s') = mset (next_lid s # ref_list s)" using assms(2) by simp
  then have "distinct (ref_list s') \<longleftrightarrow> distinct (next_lid s # ref_list s)"
    "set (ref_list s') = set (next_lid s # ref_list s)"
    by (rule mset_eq_imp_distinct_iff, rule mset_eq_setD)
  with assms n show ?thesis by (auto simp: lst_core_def less_Suc_eq)
qed

lemma lst_core_remove:
  assumes "lst_core s" and "mset (ref_list s) = mset ls + mset (ref_list s')"
    and "\<And>x. listening s' x = (if x \<in> set ls then None else listening s x)" and "next_lid s' = next_lid s"
  shows "lst_core s'"
proof -
  have "mset (ref_list s) = mset (ls @ ref_list s')" using assms(2) by simp
  then have d: "distinct (ref_list s) \<longleftrightarrow> distinct (ls @ ref_list s')" "set (ref_list s) = set (ls @ ref_list s')"
    by (rule mset_eq_imp_distinct_iff, rule mset_eq_setD)
  have "dom (listening s') = dom (listening s) - set ls" using assms(3) by (auto simp: dom_def split: if_splits)
  also have "\<dots> = set (ref_list s')" using assms(1) d unfolding lst_core_def by auto
  finally show ?thesis using assms(1,4) d unfolding lst_core_def by simp
qed

lemma Listen_cases:
  assumes "Listen_tcp e a s = (r, s')"
  obtains "r = None" "s' = s"
  | "r = Some (next_lid s)" "s' = s\<lparr>listening := (listening s)(next_lid s \<mapsto> a), next_lid := Suc (next_lid s)\<rparr>"
proof (cases "e_bind e a")
  case True
  show thesis by (rule that(2)) (use assms True in \<open>simp_all only: Listen_tcp_def if_True prod.inject\<close>)
next
  case False
  show thesis by (rule that(1)) (use assms False in \<open>simp_all only: Listen_tcp_def if_False prod.inject\<close>)
qed

text \<open>A listener that is opened and closed again leaves only a gap in the numbering.\<close>

lemma lst_reopen:
  assumes "lst_inv s"
  shows "lst_inv (close_listener (next_lid s) (s\<lparr>listening := (listening s)(next_lid s \<mapsto> a), next_lid := Suc (next_lid s)\<rparr>))"
proof -
  have n: "listening s (next_lid s) = None" using assms by (auto simp: lst_inv_def lst_core_def)
  then have "(listening s)(next_lid s := None) = listening s" by (simp add: fun_eq_iff)
  then have l: "listeners_of (close_listener (next_lid s) (s\<lparr>listening := (listening s)(next_lid s \<mapsto> a), next_lid := Suc (next_lid s)\<rparr>))
      = listeners_of (s\<lparr>next_lid := Suc (next_lid s)\<rparr>)"
    by (simp add: listeners_of_def close_listener_def)
  have "lst_core (s\<lparr>next_lid := Suc (next_lid s)\<rparr>)"
    using assms unfolding lst_inv_def lst_core_def ref_list_def by (simp add: less_SucI)
  moreover have "lst_addr (s\<lparr>next_lid := Suc (next_lid s)\<rparr>)"
    using assms unfolding lst_inv_def lst_addr_def by (simp split: option.splits)
  ultimately show ?thesis using lst_inv_cong [OF l] unfolding lst_inv_def by simp
qed

lemma lst_addr_fresh:
  assumes "lst_inv s"
  shows "l \<in> set (ref_list s) \<Longrightarrow> l \<noteq> next_lid s" "listening s (next_lid s) = None"
  using assms by (auto simp: lst_inv_def lst_core_def)

lemma mem_ref_list:
  "(n, a, l) \<in> set (identities s) \<Longrightarrow> l \<in> set (ref_list s)" "localListener s = Some l \<Longrightarrow> l \<in> set (ref_list s)"
  by (force simp: ref_list_def opt_list_def)+

text \<open>Opening a listener does not disturb the recorded addresses of the others.\<close>

lemma lst_addr_open:
  assumes "lst_inv s"
  shows "(\<forall>(n, b, l) \<in> set (identities s). ((listening s)(next_lid s \<mapsto> a)) l = Some b)
    \<and> (\<forall>l. localListener s = Some l \<longrightarrow> ((listening s)(next_lid s \<mapsto> a)) l = Some (localListenAddr s))"
  using assms lst_addr_fresh [OF assms] mem_ref_list [where s = s]
  by (fastforce simp: lst_inv_def lst_addr_def)

lemma lst_close_inv:
  assumes "lst_inv s" and "listening s' = (listening s)(l := None)" and "next_lid s' = next_lid s"
    and "mset (ref_list s) = add_mset l (mset (ref_list s'))" and "lst_addr s'"
  shows "lst_inv s'"
  using assms lst_core_remove [of s "[l]" s'] by (simp add: lst_inv_def)

lemma closed_others:
  assumes "lst_inv s" and "l \<in> set (map ml_lid (opt_list (muxListener s)) @ opt_list (apiListener s))"
  shows "\<And>n a k. (n, a, k) \<in> set (identities s) \<Longrightarrow> k \<noteq> l" and "localListener s \<noteq> Some l"
proof -
  let ?A = "map ml_lid (opt_list (muxListener s)) @ opt_list (apiListener s)"
  let ?B = "opt_list (localListener s) @ map (\<lambda>il. snd (snd il)) (identities s)"
  have "distinct (?A @ ?B)" using assms(1) by (simp add: lst_inv_def lst_core_def ref_list_def)
  then have "set ?A \<inter> set ?B = {}" by (simp only: distinct_append)
  then have n: "l \<notin> set ?B" using assms(2) by blast
  show "\<And>n a k. (n, a, k) \<in> set (identities s) \<Longrightarrow> k \<noteq> l" using n by force
  show "localListener s \<noteq> Some l" using n by (auto simp: opt_list_def)
qed

text \<open>Closing the mux or the API listener leaves the recorded addresses of the others.\<close>

lemma lst_addr_close:
  assumes "lst_inv s" and "l \<in> set (map ml_lid (opt_list (muxListener s)) @ opt_list (apiListener s))"
    and "listening s' = (listening s)(l := None)" and "identities s' = identities s"
    and "localListener s' = localListener s" and "localListenAddr s' = localListenAddr s"
  shows "lst_addr s'"
proof -
  have a: "lst_addr s" using assms(1) by (simp add: lst_inv_def)
  have "\<forall>(n, b, k) \<in> set (identities s). listening s' k = Some b"
    using a closed_others(1) [OF assms(1,2)] unfolding lst_addr_def assms(3) by fastforce
  moreover have "case localListener s of None \<Rightarrow> localListenAddr s = '''' | Some k \<Rightarrow> listening s' k = Some (localListenAddr s)"
    using a closed_others(2) [OF assms(1,2)] unfolding lst_addr_def assms(3) by (auto split: option.splits)
  ultimately show ?thesis using a unfolding lst_addr_def assms(4-6) by blast
qed

lemma startMuxListen_returned:
  assumes "Listen_tcp e a s = (Some l, s1)" and "startMuxListen e cfg a s = (Returned r, s')"
  shows "s' = close_listener l s1 \<or> (\<exists>m. ml_lid m = l \<and> s' = s1\<lparr>muxListener := Some m\<rparr>)"
proof (cases "e_go e")
  case True
  have "\<exists>P m. ml_lid m = l \<and> startMuxListen e cfg a s = (if P then (Panicked, s1) else (Returned None, s1\<lparr>muxListener := Some m\<rparr>))"
    unfolding startMuxListen_def Let_def assms(1) prod.case option.case
    by (simp only: True not_True_eq_False if_False) (metis mux_listener.select_convs(1))
  with assms(2) show ?thesis by (metis outcome.distinct(1) prod.inject)
next
  case False
  have "\<exists>P. startMuxListen e cfg a s = (if P then (Panicked, s1) else (Returned (Some ErrSpawn), close_listener l s1))"
    unfolding startMuxListen_def Let_def assms(1) prod.case option.case
    by (simp only: False not_False_eq_True if_True) metis
  with assms(2) show ?thesis by (metis outcome.distinct(1) prod.inject)
qed

lemma startMuxListen_inv:
  assumes "lst_inv s" and "muxListener s = None" and "startMuxListen e cfg a s = (Returned r, s')"
  shows "lst_inv s'"
proof -
  obtain q s1 where q: "Listen_tcp e a s = (q, s1)" by (cases "Listen_tcp e a s")
  from q show ?thesis
  proof (cases rule: Listen_cases)
    case 1
    with assms q show ?thesis by (simp add: startMuxListen_def Let_def)
  next
    case 2
    have "lst_inv (close_listener (next_lid s) s1)" unfolding 2(2) by (rule lst_reopen [OF assms(1)])
    moreover have "lst_inv (s1\<lparr>muxListener := Some m\<rparr>)" if "ml_lid m = next_lid s" for m
    proof -
      have "lst_core (s1\<lparr>muxListener := Some m\<rparr>)"
        unfolding 2(2) using assms(1,2) that
        by - (rule lst_core_add [of s _ a]; simp add: lst_inv_def ref_list_def opt_list_def)
      moreover have "lst_addr (s1\<lparr>muxListener := Some m\<rparr>)"
        using lst_addr_open [OF assms(1), of a] assms(1) unfolding 2(2) lst_addr_def lst_inv_def
        by (simp split: option.splits)
      ultimately show ?thesis by (simp add: lst_inv_def)
    qed
    ultimately show ?thesis
      using startMuxListen_returned [OF q [unfolded 2(1)] assms(3)] by blast
  qed
qed

lemma drop_mux_inv:
  assumes "lst_inv s"
  shows "lst_inv (case muxListener s of None \<Rightarrow> s\<lparr>muxListener := None\<rparr>
      | Some m \<Rightarrow> close_listener (ml_lid m) (s\<lparr>muxListener := None\<rparr>))"
proof (cases "muxListener s")
  case None
  then have "listeners_of (s\<lparr>muxListener := None\<rparr>) = listeners_of s" by (simp add: listeners_of_def)
  from lst_inv_cong [OF this] show ?thesis using assms None by simp
next
  case (Some m)
  let ?s = "close_listener (ml_lid m) (s\<lparr>muxListener := None\<rparr>)"
  have "lst_addr ?s"
    by (rule lst_addr_close [OF assms, of "ml_lid m"]) (simp_all add: close_listener_def Some opt_list_def)
  then have "lst_inv ?s"
    by (intro lst_close_inv [OF assms, of _ "ml_lid m"]) (simp_all add: close_listener_def Some ref_list_def opt_list_def)
  then show ?thesis by (simp add: Some)
qed

lemma drop_api_inv:
  assumes "lst_inv s"
  shows "lst_inv (case apiListener s of None \<Rightarrow> s\<lparr>apiListener := None\<rparr>
      | Some l \<Rightarrow> close_listener l (s\<lparr>apiListener := None\<rparr>))"
proof (cases "apiListener s")
  case None
  then have "listeners_of (s\<lparr>apiListener := None\<rparr>) = listeners_of s" by (simp add: listeners_of_def)
  from lst_inv_cong [OF this] show ?thesis using assms None by simp
next
  case (Some l)
  let ?s = "close_listener l (s\<lparr>apiListener := None\<rparr>)"
  have "lst_addr ?s"
    by (rule lst_addr_close [OF assms, of l]) (simp_all add: close_listener_def Some opt_list_def)
  then have "lst_inv ?s"
    by (intro lst_close_inv [OF assms, of _ l]) (simp_all add: close_listener_def Some ref_list_def opt_list_def)
  then show ?thesis by (simp add: Some)
qed

lemma startAPIListen_inv:
  assumes "lst_inv s" and "apiListener s = None"
  shows "lst_inv (snd (startAPIListen e a s))"
proof -
  obtain q s1 where q: "Listen_tcp e a s = (q, s1)" by (cases "Listen_tcp e a s")
  from q show ?thesis
  proof (cases rule: Listen_cases)
    case 1
    with assms q show ?thesis by (simp add: startAPIListen_def)
  next
    case 2
    have "lst_inv (close_listener (next_lid s) s1)" unfolding 2(2) by (rule lst_reopen [OF assms(1)])
    moreover have "lst_core (s1\<lparr>apiListener := Some (next_lid s)\<rparr>)"
      unfolding 2(2) using assms
      by - (rule lst_core_add [of s _ a]; simp add: lst_inv_def ref_list_def opt_list_def)
    moreover have "lst_addr (s1\<lparr>apiListener := Some (next_lid s)\<rparr>)"
      using lst_addr_open [OF assms(1), of a] assms(1) unfolding 2(2) lst_addr_def lst_inv_def
      by (simp split: option.splits)
    ultimately show ?thesis by (simp add: startAPIListen_def q 2(1) lst_inv_def)
  qed
qed

lemma reloadMux_inv:
  assumes "lst_inv s" and "reloadMuxListen e old cfg s = (Returned r, s')"
  shows "lst_inv s'"
proof (cases "same_listen old cfg")
  case True
  with assms show ?thesis by (simp add: reloadMuxListen_def)
next
  case False
  define s1 where "s1 = (case muxListener s of None \<Rightarrow> s\<lparr>muxListener := None\<rparr>
      | Some m \<Rightarrow> close_listener (ml_lid m) (s\<lparr>muxListener := None\<rparr>))"
  have i: "lst_inv s1" unfolding s1_def by (rule drop_mux_inv [OF assms(1)])
  have n: "muxListener s1 = None" by (simp add: s1_def close_listener_def split: option.split)
  have e: "reloadMuxListen e old cfg s = (if MuxListen cfg = '''' then (Returned None, s1) else startMuxListen e cfg (MuxListen cfg) s1)"
    using False by (simp add: reloadMuxListen_def Let_def s1_def)
  show ?thesis
  proof (cases "MuxListen cfg = ''''")
    case True
    with assms(2) e i show ?thesis by simp
  next
    case False
    with assms(2) e have "startMuxListen e cfg (MuxListen cfg) s1 = (Returned r, s')" by simp
    from startMuxListen_inv [OF i n this] show ?thesis .
  qed
qed

lemma reloadAPI_inv:
  assumes "lst_inv s"
  shows "lst_inv (snd (reloadAPIListen e old cfg s))"
proof (cases "APIListen cfg = APIListen old")
  case True
  with assms show ?thesis by (simp add: reloadAPIListen_def)
next
  case False
  define s1 where "s1 = (case apiListener s of None \<Rightarrow> s\<lparr>apiListener := None\<rparr>
      | Some l \<Rightarrow> close_listener l (s\<lparr>apiListener := None\<rparr>))"
  have i: "lst_inv s1" unfolding s1_def by (rule drop_api_inv [OF assms])
  have n: "apiListener s1 = None" by (simp add: s1_def close_listener_def split: option.split)
  have "reloadAPIListen e old cfg s = (if APIListen cfg = '''' then (None, s1) else startAPIListen e (APIListen cfg) s1)"
    using False by (simp add: reloadAPIListen_def Let_def s1_def)
  then show ?thesis using startAPIListen_inv [OF i n] i by simp
qed

lemma drop_local_inv:
  assumes "lst_inv s" and "localListener s = Some l"
  shows "lst_inv ((close_listener l s)\<lparr>localListener := None, localListenAddr := ''''\<rparr>)" (is "lst_inv ?s")
proof -
  have "distinct (map ml_lid (opt_list (muxListener s)) @ opt_list (apiListener s) @ [l] @ map (\<lambda>il. snd (snd il)) (identities s))"
    using assms by (simp add: lst_inv_def lst_core_def ref_list_def opt_list_def)
  then have "l \<notin> (\<lambda>il. snd (snd il)) ` set (identities s)" by simp
  then have n: "\<And>m a k. (m, a, k) \<in> set (identities s) \<Longrightarrow> k \<noteq> l" by (metis image_eqI snd_conv)
  have a: "lst_addr s" using assms(1) by (simp add: lst_inv_def)
  have "\<forall>(m, b, k) \<in> set (identities s). ((listening s)(l := None)) k = Some b"
    using a n unfolding lst_addr_def by fastforce
  then have "lst_addr ?s" using a unfolding lst_addr_def by (simp add: close_listener_def)
  then show ?thesis
    by - (rule lst_close_inv [OF assms(1), of _ l]; simp add: close_listener_def assms(2) ref_list_def opt_list_def)
qed

lemma open_local_inv:
  assumes "lst_inv s" and "localListener s = None"
  shows "lst_inv (s\<lparr>listening := (listening s)(next_lid s \<mapsto> a), next_lid := Suc (next_lid s),
      localListener := Some (next_lid s), localListenAddr := a\<rparr>)" (is "lst_inv ?s")
proof -
  have "lst_core ?s" using assms
    by - (rule lst_core_add [of s _ a]; simp add: lst_inv_def ref_list_def opt_list_def)
  moreover have "lst_addr ?s"
    using lst_addr_open [OF assms(1), of a] assms(1) unfolding lst_addr_def lst_inv_def by simp
  ultimately show ?thesis by (simp add: lst_inv_def)
qed

lemma reconcile_local_inv:
  assumes "lst_inv s"
  shows "lst_inv (snd (reconcile_local e cfg s))"
proof (cases "localListenAddr s = Listen cfg")
  case True
  with assms show ?thesis by (simp add: reconcile_local_def)
next
  case False
  define s1 where "s1 = (case localListener s of
      Some l \<Rightarrow> (close_listener l s)\<lparr>localListener := None, localListenAddr := ''''\<rparr> | None \<Rightarrow> s)"
  have i: "lst_inv s1" using drop_local_inv [OF assms] assms by (simp add: s1_def split: option.split)
  have n: "localListener s1 = None" by (simp add: s1_def split: option.split)
  obtain q s2 where q: "Listen_tcp e (Listen cfg) s1 = (q, s2)" by (cases "Listen_tcp e (Listen cfg) s1")
  have e: "reconcile_local e cfg s = (if Listen cfg = '''' then ([], s1) else case (q, s2) of
        (None, s) \<Rightarrow> ([ErrListen (Listen cfg)], s)
      | (Some l, s) \<Rightarrow> if \<not> e_go e then ([ErrSpawn], close_listener l s)
          else ([], s\<lparr>localListener := Some l, localListenAddr := Listen cfg\<rparr>))"
    using False unfolding reconcile_local_def Let_def s1_def [symmetric] q by simp
  from q show ?thesis
  proof (cases rule: Listen_cases)
    case 1
    then show ?thesis using i by (simp add: e)
  next
    case 2
    have "lst_inv (close_listener (next_lid s1) s2)" unfolding 2(2) by (rule lst_reopen [OF i])
    moreover have "lst_inv (s2\<lparr>localListener := Some (next_lid s1), localListenAddr := Listen cfg\<rparr>)"
      unfolding 2(2) using open_local_inv [OF i n, of "Listen cfg"] by simp
    ultimately show ?thesis using i by (simp add: e 2(1))
  qed
qed

lemma close_fold:
  "fold (\<lambda>il s. close_listener (snd (snd il)) s) xs s
     = s\<lparr>listening := listening s |` (- (\<lambda>il. snd (snd il)) ` set xs)\<rparr>"
proof (induction xs arbitrary: s)
  case (Cons x xs)
  have "(listening s)(snd (snd x) := None) |` (- (\<lambda>il. snd (snd il)) ` set xs)
      = listening s |` (- (\<lambda>il. snd (snd il)) ` set (x # xs))"
    by (auto simp: fun_eq_iff restrict_map_def)
  moreover have "fold (\<lambda>il s. close_listener (snd (snd il)) s) (x # xs) s
      = s\<lparr>listening := (listening s)(snd (snd x) := None) |` (- (\<lambda>il. snd (snd il)) ` set xs)\<rparr>"
    by (simp only: fold_simps Cons) (simp add: close_listener_def fun_upd_def)
  ultimately show ?case by (simp only:)
qed (simp add: restrict_map_def)

lemma drop_identities_inv:
  assumes "lst_inv s"
  shows "lst_inv (drop_identities cfg s)" (is "lst_inv ?s")
proof -
  let ?out = "filter (\<lambda>il. \<not> keep_identity cfg il) (identities s)" and ?in = "filter (keep_identity cfg) (identities s)"
  let ?id = "\<lambda>il :: string \<times> addr \<times> lid. snd (snd il)"
  have s: "?s = s\<lparr>listening := listening s |` (- ?id ` set ?out), identities := ?in\<rparr>"
    unfolding drop_identities_def close_fold by simp
  have m: "mset (map ?id (identities s)) = mset (map ?id ?out) + mset (map ?id ?in)"
  proof -
    have "mset (identities s) = mset ?out + mset ?in"
      using multiset_partition [of "mset (identities s)" "keep_identity cfg"] by (simp add: union_commute)
    then show ?thesis by (simp only: mset_map image_mset_union)
  qed
  have core: "lst_core ?s"
  proof (rule lst_core_remove [of s "map ?id ?out"])
    show "lst_core s" using assms by (simp add: lst_inv_def)
    show "mset (ref_list s) = mset (map ?id ?out) + mset (ref_list ?s)" using m by (simp add: s ref_list_def)
  qed (simp_all add: s restrict_map_def)
  have d: "distinct (map ?id (identities s))" using assms by (simp add: lst_inv_def lst_core_def ref_list_def)
  have keep: "?id il \<notin> ?id ` set ?out" if "il \<in> set ?in" for il
    using d that by (auto simp: distinct_map inj_on_def)
  have loc: "localListener s = Some l \<Longrightarrow> l \<notin> ?id ` set ?out" for l
  proof -
    have "set (opt_list (localListener s)) \<inter> ?id ` set (identities s) = {}"
      using assms by (simp add: lst_inv_def lst_core_def ref_list_def)
    then show "localListener s = Some l \<Longrightarrow> l \<notin> ?id ` set ?out" by (auto simp: opt_list_def)
  qed
  have a: "lst_addr s" using assms by (simp add: lst_inv_def)
  have r: "x \<notin> ?id ` set ?out \<Longrightarrow> (listening s |` (- ?id ` set ?out)) x = listening s x" for x
    by (simp only: restrict_map_def Compl_iff not_False_eq_True if_True)
  have "(listening s |` (- ?id ` set ?out)) l = Some b" if "(n, b, l) \<in> set ?in" for n b l
  proof -
    have "listening s l = Some b" using a that unfolding lst_addr_def by auto
    moreover have "l \<notin> ?id ` set ?out" using keep [OF that] by simp
    ultimately show ?thesis using r by metis
  qed
  moreover have "distinct (map fst ?in)" using a by (simp add: lst_addr_def distinct_map_filter)
  moreover have "(listening s |` (- ?id ` set ?out)) l = Some (localListenAddr s)" if "localListener s = Some l" for l
    using a r [OF loc [OF that]] that unfolding lst_addr_def by simp
  moreover have "localListener s = None \<Longrightarrow> localListenAddr s = ''''" using a unfolding lst_addr_def by simp
  ultimately have "lst_addr ?s" unfolding lst_addr_def s by (auto split: option.split)
  with core show ?thesis by (simp add: lst_inv_def)
qed

lemma add_identity_inv:
  assumes "lst_inv (snd es)"
  shows "lst_inv (snd (add_identity e na es))"
proof -
  obtain errs s where es: "es = (errs, s)" by (cases es)
  obtain name a where na: "na = (name, a)" by (cases na)
  obtain q s1 where q: "Listen_tcp e a s = (q, s1)" by (cases "Listen_tcp e a s")
  have i: "lst_inv s" using assms es by simp
  show ?thesis
  proof (cases "name \<in> fst ` set (identities s)")
    case True
    then show ?thesis using i by (simp add: add_identity_def es na)
  next
    case False
    from q show ?thesis
    proof (cases rule: Listen_cases)
      case 1
      with False i q show ?thesis by (simp add: add_identity_def es na)
    next
      case 2
      let ?s = "s1\<lparr>identities := identities s1 @ [(name, a, next_lid s)]\<rparr>"
      have "lst_inv (close_listener (next_lid s) s1)" unfolding 2(2) by (rule lst_reopen [OF i])
      moreover have "lst_core ?s" unfolding 2(2) using i
        by - (rule lst_core_add [of s _ a]; simp add: lst_inv_def ref_list_def opt_list_def)
      moreover have "lst_addr ?s"
        using lst_addr_open [OF i, of a] i False unfolding 2(2) lst_addr_def lst_inv_def by (simp split: option.splits)
      ultimately show ?thesis using False by (simp add: add_identity_def es na q 2(1) lst_inv_def)
    qed
  qed
qed

lemma fold_inv: "(\<And>x s. I s \<Longrightarrow> I (f x s)) \<Longrightarrow> I s \<Longrightarrow> I (fold f xs s)"
  by (induction xs arbitrary: s) simp_all

lemma reconcile_identities_inv:
  assumes "lst_inv s"
  shows "lst_inv (snd (reconcile_identities e cfg s))"
  unfolding reconcile_identities_def
  by (rule fold_inv [where I = "\<lambda>es. lst_inv (snd es)"]) (auto intro: add_identity_inv drop_identities_inv [OF assms])

lemma loadTunnels_inv:
  assumes "lst_inv s"
  shows "lst_inv (snd (loadTunnels e cfg s))"
proof -
  obtain e0 s0 where 0: "reconcile_main e cfg s = (e0, s0)" by (cases "reconcile_main e cfg s")
  obtain e1 s1 where 1: "reconcile_local e cfg s0 = (e1, s1)" by (cases "reconcile_local e cfg s0")
  obtain e2 s2 where 2: "reconcile_identities e cfg s1 = (e2, s2)" by (cases "reconcile_identities e cfg s1")
  obtain e3 s3 where 3: "reconcile_tunnels e cfg s2 = (e3, s3)" by (cases "reconcile_tunnels e cfg s2")
  have "lst_inv s0" using lst_inv_cong [OF listeners_of_main [of e cfg s]] assms by (simp add: 0)
  then have "lst_inv s1" using reconcile_local_inv [of s0 e cfg] by (simp add: 1)
  then have "lst_inv s2" using reconcile_identities_inv [of s1 e cfg] by (simp add: 2)
  then have "lst_inv s3" using lst_inv_cong [OF listeners_of_tunnels [of e cfg s2]] by (simp add: 3)
  then show ?thesis by (simp add: loadTunnels_def 0 1 2 3)
qed

lemma listeners_of_swap [simp]: "listeners_of (swap_config cfg tls s) = listeners_of s"
  by (simp add: swap_config_def listeners_of_def Let_def)

text \<open>\<^verbatim>\<open>ReloadConfig\<close> past the check for an unchanged config, up to the listeners.\<close>

definition reload_prepare where
  "reload_prepare e cfg s = markSessionsStale (e_now e) (swap_config cfg
     (case NewTLSConfig (e_key_pair e) (e_pem_certs e) cfg of Inl _ \<Rightarrow> None | Inr t \<Rightarrow> t) s)"

definition reload_tls_errors where
  "reload_tls_errors e cfg = (case NewTLSConfig (e_key_pair e) (e_pem_certs e) cfg of Inl x \<Rightarrow> [ErrTLS x] | Inr _ \<Rightarrow> [])"

lemma ReloadConfig_cases:
  assumes "ReloadConfig e json cfg s = (r, s')"
  obtains (unchanged) "json \<noteq> None" "lastConfigJSON s = json" "r = Returned []" "s' = s"
  | (panic) "json = None \<or> lastConfigJSON s \<noteq> json" "r = Panicked"
      "reloadMuxListen e (w_cfg s) cfg (reload_prepare e cfg s) = (Panicked, s')"
  | (completed) err1 s1 err2 s2 errs3 s3 where "json = None \<or> lastConfigJSON s \<noteq> json"
      "reloadMuxListen e (w_cfg s) cfg (reload_prepare e cfg s) = (Returned err1, s1)"
      "reloadAPIListen e (w_cfg s) cfg s1 = (err2, s2)" "loadTunnels e cfg s2 = (errs3, s3)"
      "r = Returned (reload_tls_errors e cfg @ opt_list err1 @ opt_list err2 @ errs3)"
      "s' = (let s = add_event (e_now e) ''config loaded'' s3
             in if reload_tls_errors e cfg @ opt_list err1 @ opt_list err2 @ errs3 = [] then s\<lparr>lastConfigJSON := json\<rparr> else s)"
proof (cases "json \<noteq> None \<and> lastConfigJSON s = json")
  case True
  show thesis by (rule unchanged) (use assms True in \<open>simp_all add: ReloadConfig_def\<close>)
next
  case False
  obtain r1 s1 where m: "reloadMuxListen e (w_cfg s) cfg (reload_prepare e cfg s) = (r1, s1)"
    by (cases "reloadMuxListen e (w_cfg s) cfg (reload_prepare e cfg s)")
  obtain err2 s2 where a: "reloadAPIListen e (w_cfg s) cfg s1 = (err2, s2)" by (cases "reloadAPIListen e (w_cfg s) cfg s1")
  obtain errs3 s3 where l: "loadTunnels e cfg s2 = (errs3, s3)" by (cases "loadTunnels e cfg s2")
  have e: "ReloadConfig e json cfg s = (case r1 of Panicked \<Rightarrow> (Panicked, s1) | Returned err1 \<Rightarrow>
      (let s = add_event (e_now e) ''config loaded'' s3; errs = reload_tls_errors e cfg @ opt_list err1 @ opt_list err2 @ errs3
       in (Returned errs, if errs = [] then s\<lparr>lastConfigJSON := json\<rparr> else s)))"
    unfolding ReloadConfig_def Let_def reload_prepare_def [symmetric] reload_tls_errors_def [symmetric] m prod.case a l if_not_P [OF False] ..
  show thesis
  proof (cases r1)
    case Panicked
    have "r = Panicked" "s' = s1" using assms unfolding e Panicked outcome.case prod.inject by blast+
    with m Panicked False show thesis by (intro panic) auto
  next
    case (Returned err1)
    show thesis by (rule completed [OF _ m [unfolded Returned] a l])
      (use assms e False Returned in \<open>simp_all only: outcome.case Let_def prod.inject de_Morgan_conj not_not\<close>)
  qed
qed

lemma reload_inv:
  assumes "lst_inv s" and "ReloadConfig e json cfg s = (Returned errs, s')"
  shows "lst_inv s'"
  using assms(2)
proof (cases rule: ReloadConfig_cases)
  case unchanged
  with assms show ?thesis by simp
next
  case panic
  then show ?thesis by simp
next
  case (completed err1 s1 err2 s2 errs3 s3)
  have "listeners_of (reload_prepare e cfg s) = listeners_of s" by (simp add: reload_prepare_def)
  then have "lst_inv (reload_prepare e cfg s)" using lst_inv_cong assms(1) by blast
  then have "lst_inv s1" by (rule reloadMux_inv [OF _ completed(2)])
  then have "lst_inv s2" using reloadAPI_inv [of s1 e "w_cfg s" cfg] completed(3) by simp
  then have "lst_inv s3" using loadTunnels_inv [of s2 e cfg] completed(4) by simp
  moreover have "listeners_of s' = listeners_of s3" by (simp add: completed(6) Let_def)
  ultimately show ?thesis using lst_inv_cong by blast
qed

lemma startMuxListen_api: "startMuxListen e cfg a s = (r, s') \<Longrightarrow> apiListener s' = apiListener s"
  by (auto simp: startMuxListen_def Listen_tcp_def close_listener_def Let_def split: if_splits)

lemma start_inv:
  assumes "lst_inv s" and "muxListener s = None" and "apiListener s = None" and "server_Start e s = (Returned errs, s')"
  shows "lst_inv s'"
proof -
  let ?m = "if MuxListen (w_cfg s) \<noteq> '''' then startMuxListen e (w_cfg s) (MuxListen (w_cfg s)) s else (Returned None, s)"
  obtain r1 s1 where m: "?m = (r1, s1)" by (cases ?m)
  let ?a = "if APIListen (w_cfg s) \<noteq> '''' then startAPIListen e (APIListen (w_cfg s)) s1 else (None, s1)"
  obtain r2 s2 where a: "?a = (r2, s2)" by (cases ?a)
  obtain errs3 s3 where l: "loadTunnels e (w_cfg s) s2 = (errs3, s3)" by (cases "loadTunnels e (w_cfg s) s2")
  have e: "server_Start e s = (case r1 of Panicked \<Rightarrow> (Panicked, s1) | Returned (Some x) \<Rightarrow> (Returned [x], s1)
      | Returned None \<Rightarrow> (case r2 of Some x \<Rightarrow> (Returned [x], s2) | None \<Rightarrow>
          (Returned (if errs3 \<noteq> [] then errs3 else if e_go e then [] else [ErrSpawn]), s3)))"
    unfolding server_Start_def Let_def m prod.case a l ..
  have i1: "lst_inv s1 \<and> apiListener s1 = None" if "r1 = Returned r" for r
  proof (cases "MuxListen (w_cfg s) = ''''")
    case True
    with m assms show ?thesis by simp
  next
    case False
    with m that have q: "startMuxListen e (w_cfg s) (MuxListen (w_cfg s)) s = (Returned r, s1)" by simp
    show ?thesis using startMuxListen_inv [OF assms(1,2) q] startMuxListen_api [OF q] assms(3) by simp
  qed
  have i2: "lst_inv s2" if "r1 = Returned r" for r
    using i1 [OF that] startAPIListen_inv [of s1 e "APIListen (w_cfg s)"] a by (simp split: if_splits)
  have i3: "lst_inv s3" if "r1 = Returned r" for r
    using loadTunnels_inv [OF i2 [OF that], of e "w_cfg s"] l by simp
  show ?thesis
    using assms(4) i1 i2 i3 unfolding e by (cases r1; cases r2) (auto split: option.splits)
qed

lemma close_listener_ref: "ref_list (close_listener l s) = ref_list s" "listening (close_listener l s) = (listening s)(l := None)"
  by (simp_all add: close_listener_def ref_list_def)

lemma listening_fold:
  "(\<And>x s. listeners_of (f x s) = listeners_of s) \<Longrightarrow> listening (fold f xs s) = listening s"
  by (rule listeners_of_eqD(6)) (rule listeners_of_fold)

lemma listening_world [simp]:
  "listening (Stop t s) = listening s" "listening (timeoutAllSessions s) = listening s"
  by (rule listeners_of_eqD(6), simp)+

lemma shutdown_closes:
  "listening (Shutdown s) = (\<lambda>l. if l \<in> set (ref_list s) then None else listening s l)"
proof -
  let ?ml = "\<lambda>s. case muxListener s of None \<Rightarrow> s | Some m \<Rightarrow> close_listener (ml_lid m) s"
  show ?thesis
    unfolding Shutdown_def Let_def close_fold
    by (auto simp: fun_eq_iff ref_list_def opt_list_def close_listener_def restrict_map_def listening_fold image_iff
             split: option.split)
qed

text \<open>A sequence of reloads, each in its own environment, none of which panics.\<close>

fun reloads where
  "reloads [] s = Some s"
| "reloads ((e, json, cfg) # rs) s =
     (case ReloadConfig e json cfg s of (Panicked, _) \<Rightarrow> None | (Returned _, s) \<Rightarrow> reloads rs s)"

lemma reloads_inv: "lst_inv s \<Longrightarrow> reloads rs s = Some s' \<Longrightarrow> lst_inv s'"
proof (induction rs s rule: reloads.induct)
  case (2 e json cfg rs s)
  obtain r s1 where r: "ReloadConfig e json cfg s = (r, s1)" by (cases "ReloadConfig e json cfg s")
  then obtain errs where e: "r = Returned errs" using 2(3) by (cases r) auto
  from r [unfolded e] have "lst_inv s1" by (rule reload_inv [OF 2(2)])
  moreover have "reloads rs s1 = Some s'" using 2(3) by (simp add: r e)
  ultimately show ?case using 2(1) [OF r [symmetric] e] by simp
qed simp

lemma NewServer_inv: "NewServer e cfg = Inr s \<Longrightarrow> lst_inv s \<and> muxListener s = None \<and> apiListener s = None"
  by (auto simp: NewServer_def lst_inv_def lst_core_def lst_addr_def ref_list_def opt_list_def server.defs world.defs
           split: sum.splits)

lemma shutdown_closes_all:
  assumes "lst_inv s"
  shows "listening (Shutdown s) = Map.empty"
proof -
  have "listening s l = None" if "l \<notin> set (ref_list s)" for l
    using assms that by (auto simp: lst_inv_def lst_core_def)
  then show ?thesis by (auto simp: shutdown_closes fun_eq_iff)
qed


text \<open>An environment in which every call succeeds.\<close>

definition ok_env :: env where
  "ok_env = \<lparr>e_bind = (\<lambda>_. True), e_go = True, e_now = 0, e_key_pair = (\<lambda>c k. Some c), e_pem_certs = (\<lambda>c. [c])\<rparr>"


section \<open>Reconciling the tunnels\<close>

text \<open>What \<^verbatim>\<open>Stop\<close> and \<^verbatim>\<open>newTunnel\<close> with \<^verbatim>\<open>Start\<close> do to the stores.\<close>

lemma Stop_tunnels:
  "u \<noteq> t \<Longrightarrow> tunnels (Stop t w) u = tunnels w u" "stopped (tunnels (Stop t w) t)"
  "dialAddr (tunnels (Stop t w) u) = dialAddr (tunnels w u)"
  "stopped (tunnels w u) \<Longrightarrow> stopped (tunnels (Stop t w) u)"
  by (auto simp: Stop_def close_current_def upd_tunnel_def sess_close_def split: option.split)

lemma Stop_server [simp]:
  "next_tid (Stop t s) = next_tid s" "mainTunnel (Stop t s) = mainTunnel s" "identityTunnels (Stop t s) = identityTunnels s"
  by (simp_all add: Stop_def close_current_def upd_tunnel_def sess_close_def split: option.split)

lemma make_tunnel_spec:
  assumes "make_tunnel e a s = (t, errs, s')"
  shows "t = next_tid s" "next_tid s' = Suc t" "dialAddr (tunnels s' t) = a" "u \<noteq> t \<Longrightarrow> tunnels s' u = tunnels s u"
    "mainTunnel s' = mainTunnel s" "identityTunnels s' = identityTunnels s" "sessions s' = sessions s"
  using assms
  by (auto simp: make_tunnel_def Start_def newTunnel_def upd_tunnel_def Let_def split: if_splits)

lemma keep_tunnels_spec:
  assumes "keep_tunnels ts desired s = (kept, d, s')" and "distinct ts"
  shows "set kept \<subseteq> set ts \<and> distinct kept
    \<and> (\<forall>a. d a + count_list (map (\<lambda>t. dialAddr (tunnels s t)) kept) a = desired a)
    \<and> (\<forall>u. u \<notin> set ts \<or> u \<in> set kept \<longrightarrow> tunnels s' u = tunnels s u)
    \<and> (\<forall>u. dialAddr (tunnels s' u) = dialAddr (tunnels s u))
    \<and> (\<forall>u \<in> set ts - set kept. stopped (tunnels s' u)) \<and> next_tid s' = next_tid s \<and> mainTunnel s' = mainTunnel s"
  using assms
proof (induction ts desired s arbitrary: kept d s' rule: keep_tunnels.induct)
  case (2 t ts desired s)
  let ?a = "dialAddr (tunnels s t)"
  show ?case
  proof (cases "desired ?a > 0")
    case True
    obtain k1 d1 s1 where k: "keep_tunnels ts (desired(?a := desired ?a - 1)) s = (k1, d1, s1)"
      by (cases "keep_tunnels ts (desired(?a := desired ?a - 1)) s")
    have eq: "kept = t # k1" "d = d1" "s' = s1" using 2(3) True k by (simp_all add: Let_def)
    have ih: "set k1 \<subseteq> set ts \<and> distinct k1
      \<and> (\<forall>a. d1 a + count_list (map (\<lambda>t. dialAddr (tunnels s t)) k1) a = (desired(?a := desired ?a - 1)) a)
      \<and> (\<forall>u. u \<notin> set ts \<or> u \<in> set k1 \<longrightarrow> tunnels s1 u = tunnels s u)
      \<and> (\<forall>u. dialAddr (tunnels s1 u) = dialAddr (tunnels s u))
      \<and> (\<forall>u \<in> set ts - set k1. stopped (tunnels s1 u)) \<and> next_tid s1 = next_tid s \<and> mainTunnel s1 = mainTunnel s"
      using 2(1) [OF refl True k] 2(4) by simp
    have "d1 a + count_list (map (\<lambda>t. dialAddr (tunnels s t)) (t # k1)) a = desired a" for a
      using ih True by (cases "a = ?a") (auto dest: spec [where x = a])
    with ih 2(4) show ?thesis unfolding eq by auto
  next
    case False
    have k: "keep_tunnels ts desired (Stop t s) = (kept, d, s')" using 2(3) False by (simp add: Let_def)
    have ih: "set kept \<subseteq> set ts \<and> distinct kept
      \<and> (\<forall>a. d a + count_list (map (\<lambda>u. dialAddr (tunnels (Stop t s) u)) kept) a = desired a)
      \<and> (\<forall>u. u \<notin> set ts \<or> u \<in> set kept \<longrightarrow> tunnels s' u = tunnels (Stop t s) u)
      \<and> (\<forall>u. dialAddr (tunnels s' u) = dialAddr (tunnels (Stop t s) u))
      \<and> (\<forall>u \<in> set ts - set kept. stopped (tunnels s' u)) \<and> next_tid s' = next_tid (Stop t s) \<and> mainTunnel s' = mainTunnel (Stop t s)"
      using 2(2) [OF refl False k] 2(4) by simp
    have "t \<notin> set kept" using ih 2(4) by auto
    then have "\<And>u. u \<in> set kept \<Longrightarrow> tunnels (Stop t s) u = tunnels s u" using Stop_tunnels(1) by metis
    with ih 2(4) show ?thesis by (auto simp: Stop_tunnels)
  qed
qed simp

lemma add_tunnels_spec:
  assumes "add_tunnels e as d s = (ts, errs, s')"
  shows "distinct ts \<and> (\<forall>t \<in> set ts. next_tid s \<le> t \<and> t < next_tid s') \<and> next_tid s \<le> next_tid s'
    \<and> (\<forall>u < next_tid s. tunnels s' u = tunnels s u) \<and> mainTunnel s' = mainTunnel s
    \<and> (\<forall>a. count_list (map (\<lambda>t. dialAddr (tunnels s' t)) ts) a = min (d a) (count_list as a))"
  using assms
proof (induction as arbitrary: d s ts errs s')
  case (Cons a as)
  show ?case
  proof (cases "d a = 0")
    case True
    with Cons.prems have "add_tunnels e as d s = (ts, errs, s')" by simp
    from Cons.IH [OF this] True show ?thesis by auto
  next
    case False
    obtain t e1 s1 where m: "make_tunnel e a s = (t, e1, s1)" by (cases "make_tunnel e a s")
    obtain ts1 e2 s2 where r: "add_tunnels e as (d(a := d a - 1)) s1 = (ts1, e2, s2)"
      by (cases "add_tunnels e as (d(a := d a - 1)) s1")
    have eq: "ts = t # ts1" "s' = s2" using Cons.prems False m r by simp_all
    note mk = make_tunnel_spec [OF m] and ih = Cons.IH [OF r]
    have t: "tunnels s2 t = tunnels s1 t" using ih mk(2) by simp
    have "count_list (map (\<lambda>u. dialAddr (tunnels s2 u)) (t # ts1)) b = min (d b) (count_list (a # as) b)" for b
      using ih False mk(3) t by (cases "b = a") (auto dest: spec [where x = b])
    moreover have "\<forall>u < next_tid s. tunnels s2 u = tunnels s u" using ih mk(1,2,4) by (metis less_SucI less_not_refl)
    moreover have "t \<notin> set ts1" using ih mk(2) by auto
    ultimately show ?thesis using ih mk(1,2,5) unfolding eq by auto
  qed
qed simp

text \<open>The tunnels of the server are distinct and older than the next number; the main one has an address.\<close>

definition tun_ids where
  "tun_ids s \<longleftrightarrow> distinct (opt_list (mainTunnel s) @ identityTunnels s)
     \<and> (\<forall>t \<in> set (opt_list (mainTunnel s) @ identityTunnels s). t < next_tid s)
     \<and> (\<forall>t. mainTunnel s = Some t \<longrightarrow> dialAddr (tunnels s t) \<noteq> '''')"

definition tun_of where
  "tun_of s = (tunnels s, mainTunnel s, identityTunnels s, next_tid s)"

lemma tun_of_eqD:
  assumes "tun_of a = tun_of b"
  shows "tunnels a = tunnels b" "mainTunnel a = mainTunnel b" "identityTunnels a = identityTunnels b" "next_tid a = next_tid b"
  using assms by (simp_all add: tun_of_def)

lemma tun_ids_cong: "tun_of a = tun_of b \<Longrightarrow> tun_ids a = tun_ids b"
  by (simp add: tun_of_def tun_ids_def)

lemma tun_of_close: "tun_of (close_listener l s) = tun_of s"
  by (simp add: tun_of_def close_listener_def)

lemma tun_of_Listen: "Listen_tcp e a s = (r, s') \<Longrightarrow> tun_of s' = tun_of s"
  by (erule Listen_cases) (simp_all add: tun_of_def)

lemma tun_of_local: "tun_of (snd (reconcile_local e cfg s)) = tun_of s"
proof -
  let ?s = "case localListener s of Some l \<Rightarrow> (close_listener l s)\<lparr>localListener := None, localListenAddr := ''''\<rparr> | None \<Rightarrow> s"
  obtain r s1 where r: "Listen_tcp e (Listen cfg) ?s = (r, s1)" by (cases "Listen_tcp e (Listen cfg) ?s")
  have "tun_of s1 = tun_of s" using tun_of_Listen [OF r] by (simp add: tun_of_def close_listener_def split: option.splits)
  then show ?thesis
    unfolding reconcile_local_def Let_def r
    by (simp add: tun_of_def close_listener_def split: option.split)
qed

lemma tun_of_identities: "tun_of (snd (reconcile_identities e cfg s)) = tun_of s"
proof -
  have "tun_of (snd (add_identity e na es)) = tun_of (snd es)" for na es
  proof -
    obtain errs s where es: "es = (errs, s)" by (cases es)
    obtain n a where na: "na = (n, a)" by (cases na)
    obtain r s1 where r: "Listen_tcp e a s = (r, s1)" by (cases "Listen_tcp e a s")
    show ?thesis using tun_of_Listen [OF r]
      by (simp add: add_identity_def es na r tun_of_def close_listener_def split: option.split)
  qed
  then have "tun_of (snd (fold (add_identity e) xs es)) = tun_of (snd es)" for xs es
    by (induction xs arbitrary: es) simp_all
  moreover have "tun_of (drop_identities cfg s) = tun_of s" by (simp add: drop_identities_def close_fold tun_of_def)
  ultimately show ?thesis by (simp add: reconcile_identities_def)
qed

lemma reconcile_main_spec:
  assumes "tun_ids s" and "reconcile_main e cfg s = (errs, s')"
  shows "tun_ids s' \<and> identityTunnels s' = identityTunnels s \<and> next_tid s \<le> next_tid s'
    \<and> (\<forall>t \<in> set (identityTunnels s). tunnels s' t = tunnels s t)
    \<and> (case mainTunnel s' of None \<Rightarrow> MuxConnect cfg = '''' | Some t \<Rightarrow> dialAddr (tunnels s' t) = MuxConnect cfg)
    \<and> (\<forall>t. mainTunnel s = Some t \<longrightarrow> (if mainTunnel s' = Some t then tunnels s' t = tunnels s t else stopped (tunnels s' t)))"
proof -
  define s1 where "s1 = (case mainTunnel s of
      Some t \<Rightarrow> if dialAddr (tunnels s t) \<noteq> MuxConnect cfg then (Stop t s)\<lparr>mainTunnel := None\<rparr> else s | None \<Rightarrow> s)"
  have eq: "reconcile_main e cfg s = (if MuxConnect cfg \<noteq> '''' \<and> mainTunnel s1 = None
     then let (t, errs, s) = make_tunnel e (MuxConnect cfg) s1 in (errs, s\<lparr>mainTunnel := Some t\<rparr>) else ([], s1))"
    unfolding reconcile_main_def Let_def s1_def ..
  have f: "identityTunnels s1 = identityTunnels s" "next_tid s1 = next_tid s"
    "mainTunnel s1 = None \<or> (s1 = s \<and> (\<exists>t. mainTunnel s = Some t \<and> dialAddr (tunnels s t) = MuxConnect cfg))"
    by (auto simp: s1_def split: option.split)
  have k: "tunnels s1 t = tunnels s t" if "t \<in> set (identityTunnels s)" for t
    using that assms(1) by (auto simp: s1_def tun_ids_def opt_list_def intro!: Stop_tunnels(1) split: option.split)
  have st: "stopped (tunnels s1 t)" if "mainTunnel s = Some t" "mainTunnel s1 = None" for t
    using that by (auto simp: s1_def Stop_tunnels split: if_splits)
  show ?thesis
  proof (cases "MuxConnect cfg \<noteq> '''' \<and> mainTunnel s1 = None")
    case True
    obtain t e1 s2 where m: "make_tunnel e (MuxConnect cfg) s1 = (t, e1, s2)" by (cases "make_tunnel e (MuxConnect cfg) s1")
    have s': "s' = s2\<lparr>mainTunnel := Some t\<rparr>" using assms(2) True by (simp add: eq m)
    note mk = make_tunnel_spec [OF m]
    have old: "u \<noteq> t" if "u \<in> set (identityTunnels s)" for u using that assms(1) mk(1) f(2) by (auto simp: tun_ids_def)
    have mn: "u < t" if "mainTunnel s = Some u" for u using that assms(1) mk(1) f(2) by (simp add: tun_ids_def opt_list_def)
    have a: "tun_ids s'"
      using assms(1) True mk(1-3,6) f(1,2) old unfolding s' tun_ids_def
      by (auto simp: opt_list_def less_SucI)
    have b: "\<forall>u \<in> set (identityTunnels s). tunnels s' u = tunnels s u"
      using mk(4) k old unfolding s' by auto
    have c: "\<forall>u. mainTunnel s = Some u \<longrightarrow> mainTunnel s' \<noteq> Some u \<and> stopped (tunnels s' u)"
      using st True mn mk(4) unfolding s' by auto
    show ?thesis using a b c mk(1-3,6) f(1,2) by (auto simp: s')
  next
    case False
    with assms(2) have s': "s' = s1" by (auto simp: eq)
    have "tun_ids s1" using assms(1) f by (auto simp: tun_ids_def opt_list_def)
    then show ?thesis using f k st False unfolding s' by auto
  qed
qed

lemma reconcile_tunnels_spec:
  assumes "tun_ids s" and "reconcile_tunnels e cfg s = (errs, s')"
  shows "tun_ids s' \<and> mainTunnel s' = mainTunnel s \<and> (\<forall>t. mainTunnel s = Some t \<longrightarrow> tunnels s' t = tunnels s t)
    \<and> (\<forall>t. t < next_tid s \<and> t \<notin> set (identityTunnels s) \<longrightarrow> tunnels s' t = tunnels s t)
    \<and> mset (map (\<lambda>t. dialAddr (tunnels s' t)) (identityTunnels s')) = mset (id_MuxConnect (Identity cfg))
    \<and> (\<forall>t \<in> set (identityTunnels s). if t \<in> set (identityTunnels s') then tunnels s' t = tunnels s t else stopped (tunnels s' t))"
proof -
  let ?as = "id_MuxConnect (Identity cfg)"
  obtain k d s1 where k: "keep_tunnels (identityTunnels s) (count_addrs ?as) s = (k, d, s1)"
    by (cases "keep_tunnels (identityTunnels s) (count_addrs ?as) s")
  obtain ts e2 s2 where a: "add_tunnels e ?as d s1 = (ts, e2, s2)" by (cases "add_tunnels e ?as d s1")
  have s': "s' = s2\<lparr>identityTunnels := k @ ts\<rparr>" using assms(2) by (simp add: reconcile_tunnels_def k a Let_def)
  have "distinct (identityTunnels s)" using assms(1) by (simp add: tun_ids_def)
  note ks = keep_tunnels_spec [OF k this] and as = add_tunnels_spec [OF a]
  have below: "t < next_tid s" if "t \<in> set (identityTunnels s)" for t using that assms(1) by (simp add: tun_ids_def)
  have ca: "count_addrs ?as b = count_list ?as b" for b
  proof -
    have "(\<lambda>x. x = b) = (=) b" by auto
    then show ?thesis by (simp add: count_addrs_def count_list_eq_length_filter)
  qed
  have kept: "tunnels s2 t = tunnels s t" if "t \<in> set k" for t
    using that ks as below by (metis subsetD)
  have "count_list (map (\<lambda>t. dialAddr (tunnels s2 t)) (k @ ts)) b = count_list ?as b" for b
  proof -
    have "map (\<lambda>t. dialAddr (tunnels s2 t)) k = map (\<lambda>t. dialAddr (tunnels s t)) k" using kept by simp
    then have "count_list (map (\<lambda>t. dialAddr (tunnels s2 t)) k) b = count_list (map (\<lambda>t. dialAddr (tunnels s t)) k) b"
      by (rule arg_cong)
    moreover have "d b + count_list (map (\<lambda>t. dialAddr (tunnels s t)) k) b = count_list ?as b" using ks ca by simp
    ultimately show ?thesis using as by simp
  qed
  moreover have sel: "tunnels s' = tunnels s2" "identityTunnels s' = k @ ts" by (simp_all add: s')
  ultimately have m: "mset (map (\<lambda>t. dialAddr (tunnels s' t)) (identityTunnels s')) = mset ?as"
    unfolding sel by (intro multiset_eqI) (simp only: count_mset)
  have main: "tunnels s2 t = tunnels s t" if "mainTunnel s = Some t" for t
    using that assms(1) ks as by (auto simp: tun_ids_def opt_list_def)
  have new: "next_tid s \<le> t" if "t \<in> set ts" for t using that as ks by auto
  have ids: "tun_ids s'"
    using assms(1) ks as below new main unfolding s' tun_ids_def
    by (fastforce simp: opt_list_def split: option.splits)
  have st: "\<forall>t \<in> set (identityTunnels s). if t \<in> set (k @ ts) then tunnels s2 t = tunnels s t else stopped (tunnels s2 t)"
    using ks as below new kept by (metis Diff_iff Un_iff leD set_append)
  have ot: "\<forall>t. t < next_tid s \<and> t \<notin> set (identityTunnels s) \<longrightarrow> tunnels s2 t = tunnels s t" using ks as by auto
  show ?thesis using ids m main st ot ks as by (simp add: s')
qed




end
