(* ===== verification/Server_Reload.thy ===== *)
theory Server_Reload
  imports Server_Inv
begin

text \<open>
  What a caller can rely on after a reload, and what not: sessions are found by identity, the
  transport settings derived from a validated config are exact, and the cases in which
  \<^verbatim>\<open>ReloadConfig\<close> reports success or panics while the server does not run the config it was given.
\<close>

section \<open>Finding a session\<close>

definition has_session :: "server \<Rightarrow> string \<Rightarrow> tid \<Rightarrow> bool" where
  "has_session s p t \<longleftrightarrow> (\<exists>x. getSession s t = Some x \<and> PeerIdentity (sessions s x) = p)"

lemma find_identity_find:
  "find_identity s p fb ts = (case find (has_session s p) ts of Some t \<Rightarrow> Some t
     | None \<Rightarrow> (case fb of Some t \<Rightarrow> Some t | None \<Rightarrow> find (\<lambda>t. lastIdentity (tunnels s t) = p) ts))"
  by (induction ts arbitrary: fb) (auto simp: has_session_def split: option.splits)

text \<open>The single pass of \<^verbatim>\<open>findSession\<close> equals the two-pass specification: the first identity tunnel with an
  active session of that peer, else the first one that last reached the peer.\<close>

theorem findSession_spec:
  "findSession s p =
     (if p = '''' then mainTunnel s
      else case find (has_session s p) (identityTunnels s) of
             Some t \<Rightarrow> Some t
           | None \<Rightarrow> find (\<lambda>t. lastIdentity (tunnels s t) = p) (identityTunnels s))"
  by (simp add: findSession_def find_identity_find split: option.split)

section \<open>Transport settings\<close>

lemma to_i32_id: "0 \<le> x \<Longrightarrow> x \<le> max_int32 \<Longrightarrow> to_i32 x = x"
  by (simp add: to_i32_def max_int32_def)

lemma to_u64_exact: "0 \<le> x \<Longrightarrow> x \<le> max_int32 \<Longrightarrow> uint (to_u64 x) = x"
  by (simp add: to_u64_def max_int32_def uint_word_of_int)

lemma to_u32_exact: "0 \<le> x \<Longrightarrow> x \<le> max_int32 \<Longrightarrow> uint (to_u32 x) = x"
  by (simp add: to_u32_def max_int32_def uint_word_of_int)

lemma window_option:
  assumes "window_ok v"
  shows "windowSize (to_i32 v) = v" and "0 \<le> v \<and> v \<le> max_int32"
  using assms by (auto simp: window_ok_def windowSize_def to_i32_def max_int32_def)



section \<open>Reloads that do not take effect\<close>

text \<open>The mux listener and the config state, which reconciling tunnels and the API listener leave alone.\<close>

definition front_of :: "server \<Rightarrow> mux_listener option \<times> config_file \<times> tlsc option \<times> string option" where
  "front_of s = (muxListener s, w_cfg s, tlscfg s, lastConfigJSON s)"

lemma front_of_world [simp]:
  "front_of (upd_tunnel t f s) = front_of s" "front_of (sess_close x s) = front_of s" "front_of (close_listener l s) = front_of s"
  "front_of (add_event n m s) = front_of s"
  by (simp_all add: front_of_def upd_tunnel_def sess_close_def close_listener_def add_event_def)

lemma front_of_fields [simp]:
  "front_of (s\<lparr>mainTunnel := a\<rparr>) = front_of s" "front_of (s\<lparr>identityTunnels := b\<rparr>) = front_of s"
  "front_of (s\<lparr>next_tid := c\<rparr>) = front_of s" "front_of (s\<lparr>localListener := d\<rparr>) = front_of s"
  "front_of (s\<lparr>localListenAddr := e\<rparr>) = front_of s" "front_of (s\<lparr>identities := f\<rparr>) = front_of s"
  "front_of (s\<lparr>apiListener := g\<rparr>) = front_of s" "front_of (s\<lparr>listening := h\<rparr>) = front_of s" "front_of (s\<lparr>next_lid := k\<rparr>) = front_of s"
  by (simp_all add: front_of_def)

lemma front_of_Stop [simp]: "front_of (Stop t s) = front_of s"
  by (simp add: Stop_def close_current_def split: option.split)

lemma front_of_Listen [simp]: "front_of (snd (Listen_tcp e a s)) = front_of s"
  by (simp add: Listen_tcp_def)

lemma front_of_Listen_eq: "Listen_tcp e a s = (r, s') \<Longrightarrow> front_of s' = front_of s"
  using front_of_Listen [of e a s] by simp

lemma front_of_api: "front_of (snd (reloadAPIListen e old cfg s)) = front_of s"
  by (auto simp: reloadAPIListen_def startAPIListen_def Let_def front_of_Listen_eq split: option.split prod.split)

lemma front_of_make: "make_tunnel e a s = (t, errs, s') \<Longrightarrow> front_of s' = front_of s"
  by (auto simp: make_tunnel_def Start_def Let_def split: if_splits)

lemma front_of_main: "front_of (snd (reconcile_main e cfg s)) = front_of s"
proof -
  define s1 where "s1 = (case mainTunnel s of
      Some t \<Rightarrow> if dialAddr (tunnels s t) \<noteq> MuxConnect cfg then (Stop t s)\<lparr>mainTunnel := None\<rparr> else s | None \<Rightarrow> s)"
  have l: "front_of s1 = front_of s" by (simp add: s1_def split: option.split)
  obtain t errs s2 where m: "make_tunnel e (MuxConnect cfg) s1 = (t, errs, s2)" by (cases "make_tunnel e (MuxConnect cfg) s1")
  show ?thesis using front_of_make [OF m] l by (simp add: reconcile_main_def Let_def m flip: s1_def)
qed

lemma front_of_local: "front_of (snd (reconcile_local e cfg s)) = front_of s"
  by (auto simp: reconcile_local_def Let_def front_of_Listen_eq split: option.split prod.split)

lemma front_of_identities: "front_of (snd (reconcile_identities e cfg s)) = front_of s"
proof -
  have "front_of (snd (add_identity e na es)) = front_of (snd es)" for na es
    by (auto simp: add_identity_def Let_def front_of_Listen_eq split: option.split prod.split)
  then have "front_of (snd (fold (add_identity e) xs es)) = front_of (snd es)" for xs es
    by (induction xs arbitrary: es) simp_all
  then show ?thesis by (simp add: reconcile_identities_def drop_identities_def close_fold)
qed

lemma front_of_keep: "keep_tunnels ts d s = (k, d', s') \<Longrightarrow> front_of s' = front_of s"
  by (induction ts d s arbitrary: k d' s' rule: keep_tunnels.induct) (auto simp: Let_def split: if_splits prod.splits)

lemma front_of_add: "add_tunnels e as d s = (ts, errs, s') \<Longrightarrow> front_of s' = front_of s"
  by (induction as arbitrary: d s ts errs s') (auto simp: Let_def split: if_splits prod.splits dest!: front_of_make)

lemma front_of_load: "front_of (snd (loadTunnels e cfg s)) = front_of s"
proof -
  have "front_of (snd (reconcile_tunnels e cfg s)) = front_of s" for s
    by (auto simp: reconcile_tunnels_def Let_def split: prod.split dest!: front_of_keep front_of_add)
  then show ?thesis
    using front_of_main [of e cfg] front_of_local [of e cfg] front_of_identities [of e cfg]
    by (simp add: loadTunnels_def split_beta)
qed

lemma front_of_stale [simp]: "front_of (markSessionsStale now s) = front_of s"
proof -
  have "front_of (mark_stale now t s) = front_of s" for t s
    unfolding mark_stale_def by (cases rule: checkIdle_cases [of now t "upd_tunnel t (\<lambda>x. x\<lparr>stale := True\<rparr>) s"]) simp_all
  then have "front_of (fold (mark_stale now) ts s) = front_of s" for ts s by (induction ts arbitrary: s) simp_all
  then show ?thesis by (simp add: markSessionsStale_def)
qed

lemma front_of_eqD:
  assumes "front_of s = (m, c, t, j)"
  shows "muxListener s = m" "w_cfg s = c" "tlscfg s = t" "lastConfigJSON s = j"
  using assms by (simp_all add: front_of_def)

lemma front_of_prepare:
  "front_of (reload_prepare e cfg s) = (muxListener s, cfg,
     (case NewTLSConfig (e_key_pair e) (e_pem_certs e) cfg of Inr (Some t) \<Rightarrow> Some t | _ \<Rightarrow> tlscfg s), lastConfigJSON s)"
  unfolding reload_prepare_def front_of_stale
  by (simp add: swap_config_def Let_def front_of_def split: sum.split option.split)

lemma reloadMux_front:
  assumes "reloadMuxListen e old cfg s = (r, s')"
  shows "\<exists>m. front_of s' = (m, w_cfg s, tlscfg s, lastConfigJSON s)"
proof -
  have st: "\<exists>m. front_of (snd (startMuxListen e cfg a u)) = (m, w_cfg u, tlscfg u, lastConfigJSON u)" for a u
    by (simp add: startMuxListen_def Listen_tcp_def close_listener_def Let_def front_of_def)
  let ?u = "case muxListener s of None \<Rightarrow> s\<lparr>muxListener := None\<rparr> | Some m \<Rightarrow> close_listener (ml_lid m) (s\<lparr>muxListener := None\<rparr>)"
  have "front_of ?u = (None, w_cfg s, tlscfg s, lastConfigJSON s)" by (simp add: front_of_def split: option.split) (simp add: close_listener_def)
  note u = front_of_eqD [OF this]
  have "reloadMuxListen e old cfg s = (if same_listen old cfg then (Returned None, s)
      else if MuxListen cfg = '''' then (Returned None, ?u) else startMuxListen e cfg (MuxListen cfg) ?u)"
    by (simp add: reloadMuxListen_def Let_def)
  then have "s' = s \<or> s' = ?u \<or> s' = snd (startMuxListen e cfg (MuxListen cfg) ?u)"
    using assms by (metis snd_conv)
  then show ?thesis using st [of "MuxListen cfg" ?u] u by (auto simp: front_of_def)
qed

text \<open>A reload that was not skipped and did not panic.\<close>
text \<open>A reload that was not skipped and did not panic.\<close>

lemma reload_front:
  assumes "ReloadConfig e json cfg s = (Returned errs, s')" and "json = None \<or> lastConfigJSON s \<noteq> json"
  shows "w_cfg s' = cfg" and "lastConfigJSON s' = (if errs = [] then json else lastConfigJSON s)"
    and "tlscfg s' = (case NewTLSConfig (e_key_pair e) (e_pem_certs e) cfg of Inr (Some t) \<Rightarrow> Some t | _ \<Rightarrow> tlscfg s)"
    and "same_listen (w_cfg s) cfg \<Longrightarrow> muxListener s' = muxListener s"
proof -
  let ?p = "reload_prepare e cfg s" and ?t = "case NewTLSConfig (e_key_pair e) (e_pem_certs e) cfg of Inr (Some t) \<Rightarrow> Some t | _ \<Rightarrow> tlscfg s"
  note p = front_of_eqD [OF front_of_prepare [of e cfg s]]
  have "\<exists>m. (same_listen (w_cfg s) cfg \<longrightarrow> m = muxListener s) \<and> front_of s' = (m, cfg, ?t, if errs = [] then json else lastConfigJSON s)"
    using assms(1)
  proof (cases rule: ReloadConfig_cases)
    case unchanged
    then show ?thesis using assms(2) by auto
  next
    case panic
    then show ?thesis by simp
  next
    case (completed err1 s1 err2 s2 errs3 s3)
    obtain m where m: "front_of s1 = (m, cfg, ?t, lastConfigJSON s)" using reloadMux_front [OF completed(2)] by (simp only: p) blast
    have same: "m = muxListener s" if "same_listen (w_cfg s) cfg"
    proof -
      have "s1 = ?p" using completed(2) that by (simp add: reloadMuxListen_def)
      then show ?thesis using front_of_eqD(1) [OF m] p(1) by simp
    qed
    have f3: "front_of s3 = (m, cfg, ?t, lastConfigJSON s)"
      using front_of_api [of e "w_cfg s" cfg s1] front_of_load [of e cfg s2] m completed(3,4) by simp
    from f3 have "front_of (add_event (e_now e) ''config loaded'' s3) = (m, cfg, ?t, lastConfigJSON s)" by simp
    note f = front_of_eqD [OF this]
    have "errs = reload_tls_errors e cfg @ opt_list err1 @ opt_list err2 @ errs3" using completed(5) by simp
    then have "s' = (if errs = [] then (add_event (e_now e) ''config loaded'' s3)\<lparr>lastConfigJSON := json\<rparr>
        else add_event (e_now e) ''config loaded'' s3)" using completed(6) by (simp only: Let_def)
    then have "front_of s' = (m, cfg, ?t, if errs = [] then json else lastConfigJSON s)"
      using front_of_eqD [OF f3] by (cases "errs = []") (simp_all add: front_of_def f)
    then show ?thesis using same by blast
  qed
  then obtain m where m: "same_listen (w_cfg s) cfg \<longrightarrow> m = muxListener s"
    and f: "front_of s' = (m, cfg, ?t, if errs = [] then json else lastConfigJSON s)" by blast
  note q = front_of_eqD [OF f]
  show "w_cfg s' = cfg" "lastConfigJSON s' = (if errs = [] then json else lastConfigJSON s)" "tlscfg s' = ?t" by (fact q)+
  show "muxListener s' = muxListener s" if "same_listen (w_cfg s) cfg" using q(1) m that by simp
qed

text \<open>After config A was applied and a reload to B failed in part, a reload back to A reports success
  without doing anything: the skip compares with the last successful config, while the server
  already runs B.\<close>

theorem reload_back_is_skipped:
  assumes "ReloadConfig e1 (Some jA) A s = (Returned [], s1)"
    and "ReloadConfig e2 (Some jB) B s1 = (Returned errs, s2)" and "errs \<noteq> []"
  shows "ReloadConfig e3 (Some jA) A s2 = (Returned [], s2) \<and> w_cfg s2 = B"
proof -
  have a: "lastConfigJSON s1 = Some jA"
  proof (cases "lastConfigJSON s = Some jA")
    case True
    with assms(1) show ?thesis by (simp add: ReloadConfig_def)
  next
    case False
    with reload_front(2) [OF assms(1)] show ?thesis by simp
  qed
  have b: "lastConfigJSON s1 \<noteq> Some jB"
    using assms(2,3) by (auto simp: ReloadConfig_def)
  have "w_cfg s2 = B" "lastConfigJSON s2 = Some jA"
    using reload_front(1,2) [OF assms(2)] a b assms(3) by simp_all
  then show ?thesis by (simp add: ReloadConfig_def)
qed

definition no_bind_env :: env where
  "no_bind_env = ok_env\<lparr>e_bind := (\<lambda>_. False)\<rparr>"

theorem reload_back_is_skipped_witness:
  "case NewServer ok_env Default of Inl _ \<Rightarrow> False | Inr s \<Rightarrow>
     (case ReloadConfig ok_env (Some ''A'') Default s of (r1, s1) \<Rightarrow>
        (case ReloadConfig no_bind_env (Some ''B'') (Default\<lparr>Listen := ''b''\<rparr>) s1 of (r2, s2) \<Rightarrow>
           r1 = Returned [] \<and> r2 = Returned [ErrListen ''b'']
           \<and> fst (ReloadConfig ok_env (Some ''A'') Default s2) = Returned [] \<and> w_cfg s2 = Default\<lparr>Listen := ''b''\<rparr>))"
proof -
  let ?B = "Default\<lparr>Listen := ''b''\<rparr>"
  have r: "case NewServer ok_env Default of Inl _ \<Rightarrow> False | Inr s \<Rightarrow>
     (case ReloadConfig ok_env (Some ''A'') Default s of (r1, s1) \<Rightarrow>
        r1 = Returned [] \<and> fst (ReloadConfig no_bind_env (Some ''B'') ?B s1) = Returned [ErrListen ''b''])"
    by code_simp
  then obtain s s1 s2 where s: "NewServer ok_env Default = Inr s" "ReloadConfig ok_env (Some ''A'') Default s = (Returned [], s1)"
      "ReloadConfig no_bind_env (Some ''B'') ?B s1 = (Returned [ErrListen ''b''], s2)"
    by (auto split: sum.splits prod.splits) (metis prod.collapse)
  from reload_back_is_skipped [OF s(2,3), of ok_env] show ?thesis by (simp add: s)
qed

text \<open>A mux listener that could not be opened by a reload is never opened by repeating the reload, although
  the failed config is not remembered as applied: the listener is only restarted when the config
  differs from the one already swapped in, so retries report success and the server does not listen.\<close>

theorem failed_listen_not_retried:
  assumes "ReloadConfig e1 json cfg s = (Returned errs, s1)" and "errs \<noteq> []" and "muxListener s1 = None"
    and "ReloadConfig e2 json2 cfg s1 = (Returned errs2, s2)"
  shows "muxListener s2 = None"
proof (cases "json2 = None \<or> lastConfigJSON s1 \<noteq> json2")
  case True
  have "json = None \<or> lastConfigJSON s \<noteq> json" using assms(1,2) by (auto simp: ReloadConfig_def)
  then have "w_cfg s1 = cfg" by (rule reload_front(1) [OF assms(1)])
  then have "same_listen (w_cfg s1) cfg" by (simp add: same_listen_def)
  from reload_front(4) [OF assms(4) True this] assms(3) show ?thesis by simp
next
  case False
  then show ?thesis using assms(3,4) by (auto simp: ReloadConfig_def)
qed

theorem failed_listen_not_retried_witness:
  "case NewServer ok_env Default of Inl _ \<Rightarrow> False | Inr s \<Rightarrow>
     (case ReloadConfig no_bind_env (Some ''B'') (Default\<lparr>MuxListen := ''m''\<rparr>) s of (r1, s1) \<Rightarrow>
        (case ReloadConfig ok_env (Some ''B'') (Default\<lparr>MuxListen := ''m''\<rparr>) s1 of (r2, s2) \<Rightarrow>
           r1 = Returned [ErrListen ''m''] \<and> r2 = Returned [] \<and> muxListener s2 = None))"
proof -
  let ?B = "Default\<lparr>MuxListen := ''m''\<rparr>"
  have r: "case NewServer ok_env Default of Inl _ \<Rightarrow> False | Inr s \<Rightarrow>
     (case ReloadConfig no_bind_env (Some ''B'') ?B s of (r1, s1) \<Rightarrow> r1 = Returned [ErrListen ''m''] \<and> muxListener s1 = None
        \<and> fst (ReloadConfig ok_env (Some ''B'') ?B s1) = Returned [])"
    by code_simp
  then obtain s s1 s2 where s: "NewServer ok_env Default = Inr s"
      "ReloadConfig no_bind_env (Some ''B'') ?B s = (Returned [ErrListen ''m''], s1)" "muxListener s1 = None"
      "ReloadConfig ok_env (Some ''B'') ?B s1 = (Returned [], s2)"
    by (auto split: sum.splits prod.splits) (metis prod.collapse)
  from failed_listen_not_retried [OF s(2) _ s(3,4)] show ?thesis by (simp add: s)
qed

text \<open>A server that runs h2mux in plaintext panics when it is reloaded with an h3mux config whose
  certificate cannot be parsed: the failed TLS config is dropped, the old one is nil, and the QUIC
  listener needs one.\<close>

theorem reload_to_h3_panics:
  assumes "tlscfg s = None" and "NewTLSConfig (e_key_pair e) (e_pem_certs e) cfg = Inl err"
    and "MuxProtocol cfg = ''h3mux''" and "MuxProtocol (w_cfg s) \<noteq> ''h3mux''"
    and "MuxListen cfg \<noteq> ''''" and "e_bind e (MuxListen cfg)" and "json = None \<or> lastConfigJSON s \<noteq> json"
  shows "fst (ReloadConfig e json cfg s) = Panicked"
proof -
  let ?p = "reload_prepare e cfg s"
  let ?u = "case muxListener ?p of None \<Rightarrow> ?p\<lparr>muxListener := None\<rparr> | Some m \<Rightarrow> close_listener (ml_lid m) (?p\<lparr>muxListener := None\<rparr>)"
  have "tlscfg ?p = None" using front_of_eqD(3) [OF front_of_prepare [of e cfg s]] assms(1,2) by simp
  then have t: "tlscfg ?u = None" by (simp add: close_listener_def split: option.split)
  have "fst (startMuxListen e cfg (MuxListen cfg) ?u) = Panicked"
    using assms(3,6) t by (simp add: startMuxListen_def Listen_tcp_def Let_def tlsServerConfig_def currentTLSConfig_def)
  then have m: "fst (reloadMuxListen e (w_cfg s) cfg ?p) = Panicked"
    using assms(3-5) by (auto simp: reloadMuxListen_def Let_def same_listen_def)
  obtain r s' where r: "ReloadConfig e json cfg s = (r, s')" by (cases "ReloadConfig e json cfg s")
  then show ?thesis by (cases rule: ReloadConfig_cases) (use m assms(7) r in auto)
qed

theorem reload_to_h3_panics_witness:
  "case NewServer ok_env Default of Inl _ \<Rightarrow> False | Inr s \<Rightarrow>
     fst (ReloadConfig (ok_env\<lparr>e_key_pair := (\<lambda>_ _. None)\<rparr>) (Some ''B'')
       (Default\<lparr>MuxListen := ''m'', MuxProtocol := ''h3mux'', TLS := Some \<lparr>Certificate = ''bad'', PrivateKey = ''bad'',
          AuthCerts = [], tls_ServerName = '''', tls_ALPN = ''''\<rparr>\<rparr>) s) = Panicked"
proof -
  obtain s where s: "NewServer ok_env Default = Inr s" "tlscfg s = None" "w_cfg s = Default" "lastConfigJSON s = None"
    by (simp add: NewServer_def NewTLSConfig_def Default_def server.defs world.defs init_world_def)
  then show ?thesis
    by (simp, intro reload_to_h3_panics) (simp_all add: NewTLSConfig_def ok_env_def Default_def)
qed

end
