(* ===== verification/Server_Serve.thy ===== *)
theory Server_Serve
  imports Server_Inv
begin

text \<open>
  The serving half of \<^verbatim>\<open>v4/server.go\<close> and \<^verbatim>\<open>v4/handler.go\<close>: accept loops, the handlers of local
  connections and of inbound streams, and the statistics.  What happens to a connection is its
  \<open>fate\<close>; \<open>LeftOpen\<close> is a connection that a function drops without closing or forwarding it.  The
  results of accepting, dialing, opening and of the forwarder are arguments; a handler runs without
  interference from other goroutines.
\<close>

section \<open>Handlers\<close>

datatype fate = FateClosed | FateForwarded | LeftOpen

datatype handler = LocalHandler string | EmptyHandler

text \<open>What the calls of a handler return: the dial of \<^verbatim>\<open>OpenStream\<close>, the opening of the stream, the
  forwarder's \<^verbatim>\<open>Start\<close>, and for inbound streams whether the direct dial succeeds.\<close>

record call_results =
  cr_dial :: dial_outcome
  cr_open :: "go_duration option"
  cr_forward :: bool
  cr_direct :: bool

definition LocalHandler_Serve :: "call_results \<Rightarrow> string \<Rightarrow> server \<Rightarrow> fate \<times> fate option \<times> server" where
  "LocalHandler_Serve cr i s =
     (case findSession s i of
        None \<Rightarrow> (FateClosed, None, s)
      | Some t \<Rightarrow>
          (case OpenStream (cr_dial cr) (cr_open cr) t s of
             (Some e, s) \<Rightarrow> (FateClosed, None, s)
           | (None, s) \<Rightarrow>
               if cr_forward cr then (FateForwarded, Some FateForwarded, s) else (FateClosed, Some FateClosed, s)))"

definition EmptyHandler_Serve :: "server \<Rightarrow> fate \<times> fate option \<times> server" where
  "EmptyHandler_Serve s = (FateClosed, None, s)"

definition handler_Serve :: "call_results \<Rightarrow> handler \<Rightarrow> server \<Rightarrow> fate \<times> fate option \<times> server" where
  "handler_Serve cr h s = (case h of LocalHandler i \<Rightarrow> LocalHandler_Serve cr i s | EmptyHandler \<Rightarrow> EmptyHandler_Serve s)"

definition srv_withTimeout :: "server \<Rightarrow> ctx option \<times> server" where
  "srv_withTimeout s = (let (c, m) = withTimeout (ConnectTimeout (w_cfg s)) (ctxs s) in (c, s\<lparr>ctxs := m\<rparr>))"

definition srv_cancel :: "ctx \<Rightarrow> server \<Rightarrow> server" where
  "srv_cancel c s = s\<lparr>ctxs := cancel c (ctxs s)\<rparr>"

definition serveOne :: "call_results \<Rightarrow> handler \<Rightarrow> server \<Rightarrow> fate \<times> fate option \<times> server" where
  "serveOne cr h s =
     (case srv_withTimeout s of
        (None, s) \<Rightarrow> (LeftOpen, None, s)
      | (Some c, s) \<Rightarrow> let (f, g, s) = handler_Serve cr h s in (f, g, srv_cancel c s))"

section \<open>Accept loops\<close>

text \<open>What \<^verbatim>\<open>Accept\<close> returns: a connection, an error that ends the loop (end of file, closed, or any other),
  or a timeout, after which the loop goes on.\<close>

datatype 'a accept_result = Accepted 'a | AcceptEnd | AcceptTimeout

text \<open>\<^verbatim>\<open>Serve\<close>: for each connection, whether the goroutine started and the results of its calls.  The
  result lists the fates of the connections in order.\<close>

fun Serve :: "handler \<Rightarrow> (bool \<times> call_results) accept_result list \<Rightarrow> server \<Rightarrow> (fate \<times> fate option) list \<times> server" where
  "Serve h [] s = ([], s)"
| "Serve h (AcceptEnd # xs) s = ([], s)"
| "Serve h (AcceptTimeout # xs) s = Serve h xs s"
| "Serve h (Accepted (go_ok, cr) # xs) s =
     (let (f, g, s) = (if go_ok then serveOne cr h s else (LeftOpen, None, s));
          (fs, s) = Serve h xs s
      in ((f, g) # fs, s))"

section \<open>Inbound streams\<close>

definition handleInboundStream :: "call_results \<Rightarrow> server \<Rightarrow> fate \<times> fate option \<times> server" where
  "handleInboundStream cr s =
     (let s = s\<lparr>stats := (stats s)\<lparr>request := request (stats s) + 1\<rparr>\<rparr>
      in if Connect (w_cfg s) = '''' then (FateClosed, None, s)
         else case srv_withTimeout s of
                (None, s) \<Rightarrow> (FateClosed, None, s)
              | (Some c, s) \<Rightarrow>
                  if \<not> cr_direct cr then (FateClosed, None, srv_cancel c s)
                  else if \<not> cr_forward cr then (FateClosed, Some FateClosed, srv_cancel c s)
                  else (FateForwarded, Some FateForwarded, srv_cancel c s))"

text \<open>The \<^verbatim>\<open>Closed\<close> callback of the forwarder for such a stream.\<close>

definition stream_finished :: "server \<Rightarrow> server" where
  "stream_finished s = s\<lparr>stats := (stats s)\<lparr>success := success (stats s) + 1\<rparr>\<rparr>"

text \<open>The accept loop shared by \<^verbatim>\<open>serveSession\<close> and \<^verbatim>\<open>acceptInboundStreams\<close>: \<open>None\<close> is an error of \<^verbatim>\<open>ss.Accept\<close>.\<close>

fun acceptInboundStreams :: "(bool \<times> call_results) option list \<Rightarrow> server \<Rightarrow> (fate \<times> fate option) list \<times> server" where
  "acceptInboundStreams [] s = ([], s)"
| "acceptInboundStreams (None # xs) s = ([], s)"
| "acceptInboundStreams (Some (go_ok, cr) # xs) s =
     (if \<not> go_ok then ([(FateClosed, None)], s)
      else let (f, g, s) = handleInboundStream cr s;
               (fs, s) = acceptInboundStreams xs s
           in ((f, g) # fs, s))"

section \<open>The mux accept loop\<close>

text \<open>The sessions a mux listener returned so far, in order, and where each of them is in
  \<^verbatim>\<open>serveMuxListener\<close>: its goroutine not yet running, in the handshake with a context, closed, failed, or handed
  to \<^verbatim>\<open>serveSession\<close>.\<close>

datatype accept_phase = APending | AHandshake ctx | AClosed | AFailed | AServed

record acceptor =
  a_srv :: server
  a_phases :: "accept_phase list"

datatype mux_event = MAccept bool | MBegin nat | MEnd nat bool

definition bump :: "(server_counters \<Rightarrow> server_counters) \<Rightarrow> server \<Rightarrow> server" where
  "bump f s = s\<lparr>stats := f (stats s)\<rparr>"

definition mux_accept :: "bool \<Rightarrow> acceptor \<Rightarrow> acceptor" where
  "mux_accept go_ok a =
     \<lparr>a_srv = bump (\<lambda>x. x\<lparr>accepted := accepted x + 1\<rparr>) (a_srv a),
      a_phases = a_phases a @ [if go_ok then APending else AClosed]\<rparr>"

definition mux_begin :: "nat \<Rightarrow> acceptor \<Rightarrow> acceptor" where
  "mux_begin n a =
     (case srv_withTimeout (a_srv a) of
        (None, s) \<Rightarrow> \<lparr>a_srv = s, a_phases = (a_phases a)[n := AClosed]\<rparr>
      | (Some c, s) \<Rightarrow> \<lparr>a_srv = bump (\<lambda>x. x\<lparr>Tunnel.numHalfOpen := Tunnel.numHalfOpen x + 1\<rparr>) s,
                        a_phases = (a_phases a)[n := AHandshake c]\<rparr>)"

definition mux_end :: "nat \<Rightarrow> ctx \<Rightarrow> bool \<Rightarrow> acceptor \<Rightarrow> acceptor" where
  "mux_end n c ok a =
     (let s = bump (\<lambda>x. x\<lparr>Tunnel.numHalfOpen := Tunnel.numHalfOpen x - 1\<rparr>) (srv_cancel c (a_srv a))
      in if \<not> ok then \<lparr>a_srv = s, a_phases = (a_phases a)[n := AFailed]\<rparr>
         else \<lparr>a_srv = bump (\<lambda>x. x\<lparr>served := served x + 1\<rparr>) s, a_phases = (a_phases a)[n := AServed]\<rparr>)"

fun mux_step :: "mux_event \<Rightarrow> acceptor \<Rightarrow> acceptor option" where
  "mux_step (MAccept go_ok) a = Some (mux_accept go_ok a)"
| "mux_step (MBegin n) a =
     (if n < length (a_phases a) \<and> a_phases a ! n = APending then Some (mux_begin n a) else None)"
| "mux_step (MEnd n ok) a =
     (if n < length (a_phases a)
      then case a_phases a ! n of AHandshake c \<Rightarrow> Some (mux_end n c ok a) | _ \<Rightarrow> None
      else None)"

definition new_acceptor :: "server \<Rightarrow> acceptor" where
  "new_acceptor s = \<lparr>a_srv = s, a_phases = []\<rparr>"

section \<open>Statistics\<close>

record server_stats =
  st_NumSessions :: u32
  st_NumSessionsCreated :: u64
  st_NumSessionsFinalized :: u64
  st_NumHalfOpen :: u32
  st_NumStreamsHalfOpen :: u32
  st_StreamOpenActive :: u64
  st_StreamOpenPassive :: u64
  st_StreamLatency :: latency_stats
  st_BytesReceived :: u64
  st_BytesSent :: u64
  st_WireLengthReceived :: u64
  st_WireLengthSent :: u64
  st_Accepted :: u64
  st_Served :: u64
  st_Authorized :: u64
  st_ReqTotal :: u64
  st_ReqSuccess :: u64
  st_sessions :: "(string \<times> session_stats) list"

text \<open>The map from peer identities to the most recently changed session.\<close>

fun put_session :: "session_stats \<Rightarrow> (string \<times> session_stats) list \<Rightarrow> (string \<times> session_stats) list" where
  "put_session v [] = [(s_PeerIdentity v, v)]"
| "put_session v ((p, prev) # m) =
     (if p = s_PeerIdentity v then (p, if s_LastChanged v > s_LastChanged prev then v else prev) # m
      else (p, prev) # put_session v m)"

definition add_session :: "session_stats \<Rightarrow> (string \<times> session_stats) list \<Rightarrow> (string \<times> session_stats) list" where
  "add_session v m = (if s_PeerIdentity v \<noteq> '''' then put_session v m else m)"

text \<open>\<open>lst\<close> are the counters of the active mux listener, \<open>hoc\<close> the value of the forwarder's \<^verbatim>\<open>HalfOpenCount\<close>.\<close>

definition server_Stats :: "u64 \<times> u64 \<Rightarrow> int \<Rightarrow> server \<Rightarrow> server_stats" where
  "server_Stats lst hoc s =
     (let vs = map (tunnel_Stats s) (getAllTunnels s);
          lat = concat (map (\<lambda>t. filter (\<lambda>d. d > 0) (Snapshot (streamLatency (tunnels s t)))) (getAllTunnels s));
          (ac, sv) = (if muxListener s \<noteq> None then lst else (accepted (stats s), served (stats s)))
      in \<lparr>st_NumSessions = sum_list (map (\<lambda>v. if Active v then 1 else 0) vs),
          st_NumSessionsCreated = numSessionsCreated (stats s), st_NumSessionsFinalized = numSessionsFinalized (stats s),
          st_NumHalfOpen = Tunnel.numHalfOpen (stats s), st_NumStreamsHalfOpen = to_u32 hoc,
          st_StreamOpenActive = sum_list (map s_StreamsOpened vs), st_StreamOpenPassive = sum_list (map s_StreamsAccepted vs),
          st_StreamLatency = latency_stats_of (percentiles_of lat),
          st_BytesReceived = sum_list (map s_BytesReceived vs) + payloadBytesReceived (stats s),
          st_BytesSent = sum_list (map s_BytesSent vs) + payloadBytesSent (stats s),
          st_WireLengthReceived = sum_list (map s_WireLengthReceived vs) + muxBytesReceived (stats s),
          st_WireLengthSent = sum_list (map s_WireLengthSent vs) + muxBytesSent (stats s),
          st_Accepted = ac, st_Served = sv, st_Authorized = authorized (stats s),
          st_ReqTotal = request (stats s), st_ReqSuccess = success (stats s),
          st_sessions = fold add_session vs []\<rparr>)"

section \<open>No stream is dropped\<close>

lemma ctx_use:
  assumes "ctx_inv (ctxs s)" and "srv_withTimeout s = (Some c, s')" and "contexts (ctxs s'') = contexts (ctxs s')"
  shows "contexts (cancel c (ctxs s'')) = contexts (ctxs s)"
  using assms by (cases "contexts (ctxs s)")
    (auto simp: srv_withTimeout_def withTimeout_def cancel_def ctx_inv_def Let_def)

lemma handleInboundStream_fate:
  assumes "handleInboundStream cr s = (f, g, s')"
  shows "f \<noteq> LeftOpen \<and> g \<noteq> Some LeftOpen \<and> (f = FateForwarded) = (g = Some FateForwarded)
    \<and> request (stats s') = request (stats s) + 1 \<and> ((f = FateForwarded) = (Connect (w_cfg s) \<noteq> '''' \<and> contexts (ctxs s) \<noteq> None \<and> cr_direct cr \<and> cr_forward cr))"
  using assms
  by (auto simp: handleInboundStream_def Let_def srv_withTimeout_def withTimeout_def srv_cancel_def
      split: if_splits option.splits)

text \<open>Every stream accepted on a session is forwarded or closed, and so is the connection dialed for it;
  one side is forwarded exactly when both are.  The loop answers every accepted stream up to and
  including the one whose goroutine could not be started.\<close>

theorem streams_never_leak:
  "list_all (\<lambda>(f, g). f \<noteq> LeftOpen \<and> g \<noteq> Some LeftOpen \<and> (f = FateForwarded) = (g = Some FateForwarded))
     (fst (acceptInboundStreams xs s))
   \<and> length (fst (acceptInboundStreams xs s))
     = (let ok = takeWhile (\<lambda>x. x \<noteq> None \<and> fst (the x)) xs
        in length ok + (if length ok < length xs \<and> xs ! length ok \<noteq> None then 1 else 0))"
proof (induction xs s rule: acceptInboundStreams.induct)
  case (3 go_ok cr xs s)
  obtain f g s1 where h: "handleInboundStream cr s = (f, g, s1)" by (cases "handleInboundStream cr s")
  obtain fs s2 where r: "acceptInboundStreams xs s1 = (fs, s2)" by (cases "acceptInboundStreams xs s1")
  show ?case
  proof (cases go_ok)
    case True
    have ih: "list_all (\<lambda>(f, g). f \<noteq> LeftOpen \<and> g \<noteq> Some LeftOpen \<and> (f = FateForwarded) = (g = Some FateForwarded)) fs"
      "length fs = (let ok = takeWhile (\<lambda>x. x \<noteq> None \<and> fst (the x)) xs
        in length ok + (if length ok < length xs \<and> xs ! length ok \<noteq> None then 1 else 0))"
      using 3 [OF _ h [symmetric] refl] True r by simp_all
    have e: "fst (acceptInboundStreams (Some (go_ok, cr) # xs) s) = (f, g) # fs" using True h r by simp
    have "f \<noteq> LeftOpen \<and> g \<noteq> Some LeftOpen \<and> (f = FateForwarded) = (g = Some FateForwarded)"
      using handleInboundStream_fate [OF h] by blast
    with ih True show ?thesis unfolding e by (auto simp: Let_def)
  next
    case False
    then show ?thesis by auto
  qed
qed simp_all

lemma ctxs_world [simp]:
  "ctxs (upd_tunnel t f s) = ctxs s" "ctxs (sess_close x s) = ctxs s" "ctxs (add_event n m s) = ctxs s"
  "ctxs (flushSessionMetrics x s) = ctxs s" "ctxs (start_watch g t x s) = ctxs s" "ctxs (close_current t s) = ctxs s"
  by (simp_all add: upd_tunnel_def sess_close_def add_event_def flushSessionMetrics_def start_watch_def close_current_def
      split: option.split)

lemma ctxs_finalize [simp]: "ctxs (finalizeSession now t x s) = ctxs s"
  by (simp add: finalizeSession_def Let_def)

lemma ctxs_addSession [simp]: "ctxs (snd (addSession now took g t x s)) = ctxs s"
  by (simp add: addSession_def Let_def)

lemma ctxs_dial_finish: "ctxs (snd (dial_finish d t s)) = ctxs s"
proof (cases "dialed d")
  case None
  then show ?thesis by (simp add: dial_finish_def dial_install_def)
next
  case (Some x)
  obtain n s1 where a: "alloc_session x s = (n, s1)" by (cases "alloc_session x s")
  obtain ok s2 where b: "addSession (d_now d) (d_setup d) (go_watch d) t n s1 = (ok, s2)"
    by (cases "addSession (d_now d) (d_setup d) (go_watch d) t n s1")
  have "ctxs s1 = ctxs s" using a by (auto simp: alloc_session_def)
  moreover have "ctxs s2 = ctxs s1" using ctxs_addSession [of "d_now d" "d_setup d" "go_watch d" t n s1] b by simp
  ultimately show ?thesis by (simp add: dial_finish_def dial_install_def Some a b Let_def)
qed

lemma ctxs_OpenStream: "ctxs (snd (OpenStream d opened t s)) = ctxs s"
proof -
  obtain b s1 where b: "OpenStream_begin t s = (b, s1)" by (cases "OpenStream_begin t s")
  obtain r s2 where r: "dial_finish d t s1 = (r, s2)" by (cases "dial_finish d t s1")
  have "ctxs s1 = ctxs s" using b by (auto simp: OpenStream_begin_def dial_begin_def split: option.splits if_splits)
  moreover have "ctxs s2 = ctxs s1" using ctxs_dial_finish [of d t s1] r by simp
  ultimately show ?thesis
    by (simp add: OpenStream_def b r OpenStream_open_def split: open_begin.split sum.split option.split)
qed

lemma ctxs_OpenStream_eq: "OpenStream d opened t s = (r, s') \<Longrightarrow> ctxs s' = ctxs s"
  using ctxs_OpenStream [of d opened t s] by simp

lemma serveOne_spec:
  assumes "serveOne cr h s = (f, g, s')"
  shows "(f = LeftOpen) = (contexts (ctxs s) = None)" "g \<noteq> Some LeftOpen" "(f = FateForwarded) = (g = Some FateForwarded)"
    "(contexts (ctxs s') = None) = (contexts (ctxs s) = None)"
proof -
  have h: "ctxs (snd (snd (handler_Serve cr h s))) = ctxs s" for s
    by (auto simp: handler_Serve_def LocalHandler_Serve_def EmptyHandler_Serve_def split: option.split prod.split handler.split
        dest: ctxs_OpenStream_eq)
  have f: "fst (handler_Serve cr h s) \<noteq> LeftOpen \<and> fst (snd (handler_Serve cr h s)) \<noteq> Some LeftOpen
      \<and> (fst (handler_Serve cr h s) = FateForwarded) = (fst (snd (handler_Serve cr h s)) = Some FateForwarded)" for s
    by (auto simp: handler_Serve_def LocalHandler_Serve_def EmptyHandler_Serve_def split: option.split prod.split handler.split)
  obtain c s1 where c: "srv_withTimeout s = (c, s1)" by (cases "srv_withTimeout s")
  have c': "(c = None) = (contexts (ctxs s) = None)" "(contexts (ctxs s1) = None) = (contexts (ctxs s) = None)"
    using c by (auto simp: srv_withTimeout_def withTimeout_def split: option.splits)
  have e: "serveOne cr h s = (case c of None \<Rightarrow> (LeftOpen, None, s1)
      | Some c \<Rightarrow> (fst (handler_Serve cr h s1), fst (snd (handler_Serve cr h s1)), srv_cancel c (snd (snd (handler_Serve cr h s1)))))"
    by (simp add: serveOne_def c split_beta split: option.split)
  have "(contexts (cancel k m) = None) = (contexts m = None)" for k m by (simp add: cancel_def split: option.split)
  then show "(f = LeftOpen) = (contexts (ctxs s) = None)" "g \<noteq> Some LeftOpen" "(f = FateForwarded) = (g = Some FateForwarded)"
    "(contexts (ctxs s') = None) = (contexts (ctxs s) = None)"
    using assms f [of s1] h [of s1] c' unfolding e by (auto simp: srv_cancel_def split: option.splits)
qed

text \<open>The connections a run of \<^verbatim>\<open>Serve\<close> accepts.\<close>

fun accepted_of :: "'a accept_result list \<Rightarrow> 'a list" where
  "accepted_of [] = []"
| "accepted_of (Accepted x # xs) = x # accepted_of xs"
| "accepted_of (AcceptTimeout # xs) = accepted_of xs"
| "accepted_of (AcceptEnd # xs) = []"

lemma serve_drops:
  "list_all2 (\<lambda>(go_ok, cr) (f, g). (f = LeftOpen) = (\<not> go_ok \<or> contexts (ctxs s) = None)
       \<and> g \<noteq> Some LeftOpen \<and> (f = FateForwarded) = (g = Some FateForwarded))
     (accepted_of xs) (fst (Serve h xs s))"
proof (induction h xs s rule: Serve.induct)
  case (4 h go_ok cr xs s)
  obtain f g s1 where o: "(if go_ok then serveOne cr h s else (LeftOpen, None, s)) = (f, g, s1)"
    by (cases "if go_ok then serveOne cr h s else (LeftOpen, None, s)")
  have f: "(f = LeftOpen) = (\<not> go_ok \<or> contexts (ctxs s) = None)" "g \<noteq> Some LeftOpen" "(f = FateForwarded) = (g = Some FateForwarded)"
    "(contexts (ctxs s1) = None) = (contexts (ctxs s) = None)"
  proof (atomize (full), cases go_ok)
    case True
    with o have "serveOne cr h s = (f, g, s1)" by simp
    note v = serveOne_spec [OF this]
    show "((f = LeftOpen) = (\<not> go_ok \<or> contexts (ctxs s) = None) \<and> g \<noteq> Some LeftOpen) \<and>
        (f = FateForwarded) = (g = Some FateForwarded) \<and> (contexts (ctxs s1) = None) = (contexts (ctxs s) = None)"
      using v True by simp
  next
    case False
    with o have "f = LeftOpen" "g = None" "s1 = s" by simp_all
    with False show "((f = LeftOpen) = (\<not> go_ok \<or> contexts (ctxs s) = None) \<and> g \<noteq> Some LeftOpen) \<and>
        (f = FateForwarded) = (g = Some FateForwarded) \<and> (contexts (ctxs s1) = None) = (contexts (ctxs s) = None)" by simp
  qed
  show ?case using 4 [OF o [symmetric] refl] f by (simp add: o split_beta)
qed simp_all

text \<open>An accepted local connection is dropped without being closed in exactly two cases: the goroutine
  serving it cannot be started, or the contexts were already closed by the shutdown; otherwise it is
  forwarded together with a newly opened stream, or whatever was opened is closed.\<close>

theorem serve_drops_iff:
  "list_all2 (\<lambda>(go_ok, cr) (f, g). (f = LeftOpen) = (if go_ok then contexts (ctxs s) = None else True)
       \<and> g \<noteq> Some LeftOpen \<and> (f = FateForwarded) = (g = Some FateForwarded))
     (accepted_of xs) (fst (Serve h xs s))"
  by (rule list_all2_mono [OF serve_drops]) auto

section \<open>The handshake counter\<close>

definition tally :: "(accept_phase \<Rightarrow> bool) \<Rightarrow> acceptor \<Rightarrow> nat" where
  "tally P a = length (filter P (a_phases a))"

definition in_handshake :: "accept_phase \<Rightarrow> bool" where
  "in_handshake p \<longleftrightarrow> (\<exists>c. p = AHandshake c)"

definition acc_inv :: "acceptor \<Rightarrow> bool" where
  "acc_inv a \<longleftrightarrow> Tunnel.numHalfOpen (stats (a_srv a)) = of_nat (tally in_handshake a)
     \<and> accepted (stats (a_srv a)) = of_nat (length (a_phases a))
     \<and> served (stats (a_srv a)) = of_nat (tally (\<lambda>p. p = AServed) a)"

lemma filter_update:
  "n < length xs \<Longrightarrow> length (filter P (xs[n := y])) = length (filter P xs) + of_bool (P y) - of_bool (P (xs ! n))"
proof (induction xs arbitrary: n)
  case (Cons x xs)
  have "P (xs ! m) \<Longrightarrow> m < length xs \<Longrightarrow> length (filter P xs) > 0" for m by (auto simp: filter_empty_conv)
  with Cons show ?case by (cases n) (auto simp: Suc_diff_le)
qed simp

lemma filter_pos: "n < length xs \<Longrightarrow> P (xs ! n) \<Longrightarrow> length (filter P xs) > 0"
  by (auto simp: filter_empty_conv)

lemma withTimeout_stats: "srv_withTimeout s = (c, s') \<Longrightarrow> stats s' = stats s"
  by (auto simp: srv_withTimeout_def split: prod.splits)

lemmas acc_simps = acc_inv_def tally_def in_handshake_def bump_def srv_cancel_def filter_update

interpretation acceptor_machine: invariant_machine mux_step acc_inv
proof
  fix a e b
  assume i: "acc_inv a" and e: "mux_step e a = Some b"
  show "acc_inv b"
  proof (cases e)
    case (MAccept go_ok)
    then show ?thesis using i e by (auto simp: acc_simps mux_accept_def)
  next
    case (MBegin n)
    then have n: "n < length (a_phases a)" "a_phases a ! n = APending" "b = mux_begin n a" using e by (auto split: if_splits)
    obtain c s where c: "srv_withTimeout (a_srv a) = (c, s)" by (cases "srv_withTimeout (a_srv a)")
    show ?thesis using i n withTimeout_stats [OF c] by (auto simp: acc_simps mux_begin_def c split: option.split)
  next
    case (MEnd n ok)
    then obtain c where n: "n < length (a_phases a)" "a_phases a ! n = AHandshake c" "b = mux_end n c ok a"
      using e by (auto split: if_splits accept_phase.splits)
    have "length (filter in_handshake (a_phases a)) > 0" by (rule filter_pos [OF n(1)]) (simp add: n(2) in_handshake_def)
    then obtain k where "length (filter in_handshake (a_phases a)) = Suc k" using gr0_implies_Suc by blast
    then show ?thesis using i n by (auto simp: acc_simps mux_end_def Let_def)
  qed
qed

text \<open>Whatever the interleaving of accepts, handshakes and their failures, and whether or not goroutines
  and contexts can be had, the counter of half-open sessions that the startup throttle reads is the
  number of handshakes in progress, and the accepted and served counters are the numbers of sessions
  accepted and handed over; a session is counted as served only after its handshake succeeded.\<close>

theorem half_open_sessions_exact:
  assumes "exec mux_step es (new_acceptor s) = Some a"
    and "Tunnel.numHalfOpen (stats s) = 0" and "accepted (stats s) = 0" and "served (stats s) = 0"
  shows "Tunnel.numHalfOpen (stats (a_srv a)) = of_nat (tally in_handshake a)
    \<and> accepted (stats (a_srv a)) = of_nat (length (a_phases a))
    \<and> served (stats (a_srv a)) = of_nat (tally (\<lambda>p. p = AServed) a)"
proof -
  have "acc_inv (new_acceptor s)" using assms(2-4) by (simp add: acc_inv_def new_acceptor_def tally_def)
  from acceptor_machine.exec_inv [OF this assms(1)] show ?thesis by (simp add: acc_inv_def)
qed

theorem half_open_sessions_exact_witness:
  "case NewServer ok_env Default of Inl _ \<Rightarrow> False | Inr s \<Rightarrow>
     (case exec mux_step [MAccept True, MAccept True, MBegin 1, MBegin 0, MEnd 1 False, MAccept False] (new_acceptor s) of
        None \<Rightarrow> False
      | Some a \<Rightarrow> Tunnel.numHalfOpen (stats (a_srv a)) = 1 \<and> accepted (stats (a_srv a)) = 3 \<and> served (stats (a_srv a)) = 0)"
proof -
  let ?es = "[MAccept True, MAccept True, MBegin 1, MBegin 0, MEnd 1 False, MAccept False]"
  obtain s where s: "NewServer ok_env Default = Inr s" "Tunnel.numHalfOpen (stats s) = 0" "accepted (stats s) = 0" "served (stats s) = 0"
    by (simp add: NewServer_def NewTLSConfig_def Default_def server.defs world.defs init_world_def zero_counters_def)
  have "case NewServer ok_env Default of Inl _ \<Rightarrow> False | Inr s \<Rightarrow>
     (case exec mux_step ?es (new_acceptor s) of None \<Rightarrow> False | Some a \<Rightarrow> a_phases a = [AHandshake 1, AFailed, AClosed])"
    by code_simp
  then obtain a where a: "exec mux_step ?es (new_acceptor s) = Some a" "a_phases a = [AHandshake 1, AFailed, AClosed]"
    using s(1) by (auto split: option.splits)
  from half_open_sessions_exact [OF a(1) s(2-4)] a show ?thesis by (simp add: s(1) tally_def in_handshake_def)
qed

section \<open>Traffic survives reconnects\<close>

lemma traffic_split:
  assumes "distinct ts" and "t \<in> set ts" and "f' t = 0" and "\<And>u. u \<in> set ts \<Longrightarrow> u \<noteq> t \<Longrightarrow> f' u = f u"
  shows "sum_list (map f' ts) + f t = (sum_list (map f ts) :: u64)"
  using assms
proof (induction ts)
  case (Cons a ts)
  show ?case
  proof (cases "a = t")
    case True
    then have "map f' ts = map f ts" using Cons.prems by auto
    then have "sum_list (map f' ts) = sum_list (map f ts)" by (rule arg_cong)
    then show ?thesis using True Cons.prems(3) by (simp only: list.map sum_list.Cons add_0 add.commute)
  next
    case False
    then have "sum_list (map f' ts) + f t = sum_list (map f ts)" using Cons by simp
    moreover have "f' a = f a" using Cons.prems(4) [of a] False by simp
    ultimately show ?thesis by (simp add: algebra_simps)
  qed
qed simp

definition metrics_of :: "server \<Rightarrow> tid \<Rightarrow> session_metrics" where
  "metrics_of s t = (case getSession s t of None \<Rightarrow> zero_metrics
     | Some x \<Rightarrow> (case sess_metrics (sessions s x) of None \<Rightarrow> zero_metrics | Some m \<Rightarrow> m))"

lemma Stats_traffic:
  "st_BytesReceived (server_Stats l h s) = sum_list (map (\<lambda>t. BytesReceived (metrics_of s t)) (getAllTunnels s)) + payloadBytesReceived (stats s)"
  "st_BytesSent (server_Stats l h s) = sum_list (map (\<lambda>t. BytesSent (metrics_of s t)) (getAllTunnels s)) + payloadBytesSent (stats s)"
  "st_WireLengthReceived (server_Stats l h s) = sum_list (map (\<lambda>t. WireLengthReceived (metrics_of s t)) (getAllTunnels s)) + muxBytesReceived (stats s)"
  "st_WireLengthSent (server_Stats l h s) = sum_list (map (\<lambda>t. WireLengthSent (metrics_of s t)) (getAllTunnels s)) + muxBytesSent (stats s)"
  by (simp_all add: server_Stats_def Let_def tunnel_Stats_def metrics_of_def comp_def split_beta)

lemma finalize_frame:
  fixes s :: server
  assumes s'_def: "s' = finalizeSession now t x (sess_close x s)"
  shows "getAllTunnels s' = getAllTunnels s" "u \<noteq> t \<Longrightarrow> tunnels s' u = tunnels s u"
    "sessions s' = (sessions s)(x := (sessions s x)\<lparr>sess_closed := True\<rparr>)"
    "ss (tunnels s t) = Some x \<Longrightarrow> ss (tunnels s' t) = None"
proof -
  have "mainTunnel s' = mainTunnel s" "identityTunnels s' = identityTunnels s" "acceptedTunnels s' = acceptedTunnels s" "next_sid s' = next_sid s"
    by (simp_all add: s'_def finalizeSession_def Let_def add_event_def flushSessionMetrics_def upd_tunnel_def sess_close_def split: option.split)
  then show "getAllTunnels s' = getAllTunnels s" by (simp add: getAllTunnels_def accepted_list_def)
  show "u \<noteq> t \<Longrightarrow> tunnels s' u = tunnels s u" "sessions s' = (sessions s)(x := (sessions s x)\<lparr>sess_closed := True\<rparr>)"
    "ss (tunnels s t) = Some x \<Longrightarrow> ss (tunnels s' t) = None"
    by (simp_all add: s'_def finalizeSession_def Let_def add_event_def flushSessionMetrics_def upd_tunnel_def sess_close_def split: option.split)
qed

lemma finalize_flush:
  fixes s :: server
  assumes m_def: "m = (case sess_metrics (sessions s x) of None \<Rightarrow> zero_metrics | Some m \<Rightarrow> m)"
  shows "payloadBytesReceived (stats (finalizeSession now t x (sess_close x s))) = payloadBytesReceived (stats s) + BytesReceived m"
    "payloadBytesSent (stats (finalizeSession now t x (sess_close x s))) = payloadBytesSent (stats s) + BytesSent m"
    "muxBytesReceived (stats (finalizeSession now t x (sess_close x s))) = muxBytesReceived (stats s) + WireLengthReceived m"
    "muxBytesSent (stats (finalizeSession now t x (sess_close x s))) = muxBytesSent (stats s) + WireLengthSent m"
  unfolding m_def
  by (simp_all add: finalizeSession_def Let_def add_event_def flushSessionMetrics_def upd_tunnel_def sess_close_def zero_metrics_def
      split: option.split)

text \<open>The traffic totals survive a reconnect: when the session of a tunnel is closed and finalized, the
  bytes it had moved leave the live part of the statistics and enter the accumulated part, so every
  total reported afterwards is the total reported before.\<close>

theorem traffic_survives_close:
  assumes "getSession s t = Some x" and "distinct (getAllTunnels s)" and "t \<in> set (getAllTunnels s)"
    and "\<And>u. u \<in> set (getAllTunnels s) \<Longrightarrow> u \<noteq> t \<Longrightarrow> ss (tunnels s u) \<noteq> Some x"
    and "s' = finalizeSession now t x (sess_close x s)"
  shows "st_BytesReceived (server_Stats l h s') = st_BytesReceived (server_Stats l h s)
    \<and> st_BytesSent (server_Stats l h s') = st_BytesSent (server_Stats l h s)
    \<and> st_WireLengthReceived (server_Stats l h s') = st_WireLengthReceived (server_Stats l h s)
    \<and> st_WireLengthSent (server_Stats l h s') = st_WireLengthSent (server_Stats l h s)"
proof -
  have sx: "ss (tunnels s t) = Some x" using assms(1) by (auto simp: getSession_def split: option.splits if_splits)
  note fr = finalize_frame [OF assms(5)] and fl = finalize_flush [OF refl, where s = s and x = x and now = now and t = t, folded assms(5)]
  have z: "metrics_of s' t = zero_metrics" using fr(4) [OF sx] by (simp add: metrics_of_def getSession_def)
  have o: "metrics_of s' u = metrics_of s u" if "u \<in> set (getAllTunnels s)" "u \<noteq> t" for u
    using assms(4) [OF that] fr(2) [OF that(2)] fr(3) by (auto simp: metrics_of_def getSession_def IsClosed_def split: option.split)
  have m: "(case sess_metrics (sessions s x) of None \<Rightarrow> zero_metrics | Some m \<Rightarrow> m) = metrics_of s t"
    using assms(1) by (simp add: metrics_of_def)
  have sp: "sum_list (map (\<lambda>t. F (metrics_of s' t)) (getAllTunnels s)) + F (metrics_of s t) = sum_list (map (\<lambda>t. F (metrics_of s t)) (getAllTunnels s))"
    if "F zero_metrics = 0" for F :: "session_metrics \<Rightarrow> u64"
    by (rule traffic_split [OF assms(2,3)]) (simp_all add: z o that)
  note four = sp [of BytesReceived] sp [of BytesSent] sp [of WireLengthReceived] sp [of WireLengthSent]
  show ?thesis
    unfolding Stats_traffic fr(1) fl m using four by (simp add: zero_metrics_def algebra_simps)
qed

theorem traffic_survives_close_witness:
  "case NewServer ok_env Default of Inl _ \<Rightarrow> False | Inr s0 \<Rightarrow>
     let s = s0\<lparr>mainTunnel := Some 0, tunnels := (\<lambda>_. (newTunnel Default ''a'')\<lparr>ss := Some 0\<rparr>),
                sessions := (\<lambda>_. zero_session\<lparr>sess_metrics := Some (zero_metrics\<lparr>BytesReceived := 5\<rparr>)\<rparr>)\<rparr>
     in st_BytesReceived (server_Stats (0, 0) 0 s) = 5
        \<and> st_BytesReceived (server_Stats (0, 0) 0 (finalizeSession 9 0 0 (sess_close 0 s))) = 5"
proof -
  obtain s0 where s0: "NewServer ok_env Default = Inr s0" "identityTunnels s0 = []" "acceptedTunnels s0 = Map.empty" "next_sid s0 = 0"
      "stats s0 = zero_counters"
    by (simp add: NewServer_def NewTLSConfig_def Default_def server.defs world.defs init_world_def)
  let ?s = "s0\<lparr>mainTunnel := Some 0, tunnels := (\<lambda>_. (newTunnel Default ''a'')\<lparr>ss := Some 0\<rparr>),
                sessions := (\<lambda>_. zero_session\<lparr>sess_metrics := Some (zero_metrics\<lparr>BytesReceived := 5\<rparr>)\<rparr>)\<rparr>"
  have g: "getSession ?s 0 = Some 0" by (simp add: getSession_def IsClosed_def zero_session_def)
  have a: "getAllTunnels ?s = [0]" by (simp add: getAllTunnels_def accepted_list_def s0 List.map_filter_def)
  have "st_BytesReceived (server_Stats (0, 0) 0 ?s) = 5"
    using g by (simp add: Stats_traffic a metrics_of_def s0(5) zero_counters_def)
  moreover have "st_BytesReceived (server_Stats (0, 0) 0 (finalizeSession 9 0 0 (sess_close 0 ?s))) = st_BytesReceived (server_Stats (0, 0) 0 ?s)"
    using traffic_survives_close [OF g _ _ _ refl, where now = 9 and l = "(0, 0)" and h = 0] by (simp add: a)
  ultimately show ?thesis by (simp add: s0(1) Let_def)
qed

end
