(* ===== verification/H2_Codec.thy ===== *)
theory H2_Codec
  imports Prelude
begin

text \<open>
  The data path of h2mux: the codec of \<^verbatim>\<open>v4/mux/h2mux/codec.go\<close>, the byte stream built on it in
  \<^verbatim>\<open>v4/mux/h2mux/stream.go\<close>, and the write-timeout wrapper.  The functions of the protobuf library
  that the codec calls are the fields of the record \<open>protowire\<close>; the locale \<open>protowire_laws\<close> states
  what the protobuf encoding promises of them, and is interpreted on an executable encoding at the
  end of the first section.  A \<^verbatim>\<open>mem.BufferSlice\<close> is a list of byte lists.
\<close>

type_synonym bytes = "byte list"

text \<open>\<open>ConsumeTag b\<close> is the field number, the wire type and the length of the tag, none for a negative length;
  \<open>base_Unmarshal\<close> is the data field of a \<^verbatim>\<open>Chunk\<close> decoded by the registered proto codec.\<close>

record protowire =
  AppendTag :: "nat \<Rightarrow> nat \<Rightarrow> bytes"
  AppendVarint :: "nat \<Rightarrow> bytes"
  ConsumeTag :: "bytes \<Rightarrow> (nat \<times> nat \<times> nat) option"
  ConsumeVarint :: "bytes \<Rightarrow> (nat \<times> nat) option"
  base_Marshal :: "bytes \<Rightarrow> bytes"
  base_Unmarshal :: "bytes \<Rightarrow> bytes option"

definition rawChunkField :: nat where
  "rawChunkField = 1"

definition BytesType :: nat where
  "BytesType = 2"

section \<open>The codec\<close>

definition Marshal :: "protowire \<Rightarrow> bytes \<Rightarrow> bytes list" where
  "Marshal pw payload =
     (if payload = [] then []
      else let hdr = AppendTag pw rawChunkField BytesType @ AppendVarint pw (length payload)
           in [hdr @ payload])"

definition unmarshalSlow :: "protowire \<Rightarrow> bytes list \<Rightarrow> bytes list option" where
  "unmarshalSlow pw data =
     (case base_Unmarshal pw (concat data) of
        None \<Rightarrow> None
      | Some d \<Rightarrow> Some (if d \<noteq> [] then [d] else []))"

text \<open>The result is \<^verbatim>\<open>rc.bufs\<close>, or none for an error.  \<^verbatim>\<open>int64(size)\<close> wraps for sizes of \<open>2 ^ 63\<close> and more.\<close>

definition Unmarshal :: "protowire \<Rightarrow> bytes list \<Rightarrow> bytes list option" where
  "Unmarshal pw data =
     (if concat data = [] then Some []
      else
        let first = hd data
        in case ConsumeTag pw first of
             None \<Rightarrow> unmarshalSlow pw data
           | Some (num, typ, n) \<Rightarrow>
               if num \<noteq> rawChunkField \<or> typ \<noteq> BytesType then unmarshalSlow pw data
               else (case ConsumeVarint pw (drop n first) of
                       None \<Rightarrow> unmarshalSlow pw data
                     | Some (sz, m) \<Rightarrow>
                         (let off = n + m
                          in if off > length first \<or> wrap64 (int sz) \<noteq> int (length (concat data)) - int off
                             then unmarshalSlow pw data
                             else Some ((if off < length first then [drop off first] else []) @ tl data))))"

lemma wrap64_high: "2 ^ 63 \<le> x \<Longrightarrow> x < 2 ^ 64 \<Longrightarrow> wrap64 x = x - 2 ^ 64"
proof -
  assume x: "2 ^ 63 \<le> x" "x < (2 ^ 64 :: int)"
  have "(x + 2 ^ 63) mod 2 ^ 64 = ((x - 2 ^ 63) + 2 ^ 64) mod 2 ^ 64" by (simp add: algebra_simps)
  also have "\<dots> = (x - 2 ^ 63) mod 2 ^ 64" by (rule mod_add_self2)
  also have "\<dots> = x - 2 ^ 63" using x by (intro mod_pos_pos_trivial) simp_all
  finally show ?thesis by (simp add: wrap64_def)
qed

section \<open>What protobuf promises\<close>

locale protowire_laws =
  fixes pw :: protowire
  assumes tag_prefix: "ConsumeTag pw a = Some r \<Longrightarrow> ConsumeTag pw (a @ b) = Some r"
    and tag_length: "ConsumeTag pw a = Some (f, t, n) \<Longrightarrow> n \<le> length a"
    and varint_prefix: "ConsumeVarint pw a = Some q \<Longrightarrow> ConsumeVarint pw (a @ b) = Some q"
    and varint_length: "ConsumeVarint pw a = Some (v, m) \<Longrightarrow> m \<le> length a \<and> v < 2 ^ 64"
    and base_empty: "base_Unmarshal pw [] = Some []"
    and base_field: "ConsumeTag pw b = Some (1, 2, n) \<Longrightarrow> ConsumeVarint pw (drop n b) = Some (v, m) \<Longrightarrow>
      n + m + v = length b \<Longrightarrow> base_Unmarshal pw b = Some (drop (n + m) b)"
    and base_Marshal: "base_Marshal pw d = (if d = [] then [] else AppendTag pw 1 2 @ AppendVarint pw (length d) @ d)"
    and base_roundtrip: "length d < 2 ^ 63 \<Longrightarrow> base_Unmarshal pw (base_Marshal pw d) = Some d"
begin

lemma unmarshalSlow_base: "map_option concat (unmarshalSlow pw data) = base_Unmarshal pw (concat data)"
  by (simp add: unmarshalSlow_def split: option.split)

text \<open>The fast path is taken on messages that the proto codec decodes to the same bytes.\<close>

lemma fast_path:
  assumes "concat data \<noteq> []" and "ConsumeTag pw (hd data) = Some (1, 2, n)"
    and "ConsumeVarint pw (drop n (hd data)) = Some (sz, m)" and "n + m \<le> length (hd data)"
    and "wrap64 (int sz) = int (length (concat data)) - int (n + m)"
  shows "base_Unmarshal pw (concat data) = Some (concat ((if n + m < length (hd data) then [drop (n + m) (hd data)] else []) @ tl data))"
proof -
  obtain first rest where d: "data = first # rest" using assms(1) by (cases data) auto
  let ?b = "first @ concat rest"
  have t: "ConsumeTag pw ?b = Some (1, 2, n)" using assms(2) d tag_prefix by simp
  have n: "n \<le> length first" using tag_length [OF assms(2)] d by simp
  then have "drop n ?b = drop n first @ concat rest" by simp
  then have v: "ConsumeVarint pw (drop n ?b) = Some (sz, m)" using assms(3) d varint_prefix by simp
  have lt: "sz < 2 ^ 64" using varint_length [OF assms(3)] by simp
  have le: "n + m \<le> length ?b" using assms(4) d by simp
  have w: "wrap64 (int sz) = int (length ?b) - int (n + m)" using assms(5) d by simp
  have "n + m + sz = length ?b"
  proof (cases "sz < 2 ^ 63")
    case True
    then have "in_int64 (int sz)" by (simp add: in_int64_def min_int64_def max_int64_def)
    then have "int sz = int (length ?b) - int (n + m)" using w by (simp add: wrap64_id)
    then show ?thesis by simp
  next
    case False
    then have "wrap64 (int sz) = int sz - 2 ^ 64" using lt by (intro wrap64_high) simp_all
    then have "wrap64 (int sz) < 0" using lt by simp
    then show ?thesis using w le by simp
  qed
  from base_field [OF t v this] show ?thesis using assms(4) d by simp
qed

lemma Unmarshal_base: "map_option concat (Unmarshal pw data) = base_Unmarshal pw (concat data)"
proof (cases "concat data = []")
  case True
  have "base_Unmarshal pw (concat data) = Some []" unfolding True by (rule base_empty)
  moreover have "Unmarshal pw data = Some []" unfolding Unmarshal_def by (rule if_P) (rule True)
  ultimately show ?thesis by simp
next
  case False
  show ?thesis
  proof (cases "ConsumeTag pw (hd data)")
    case None
    with False show ?thesis by (simp add: Unmarshal_def Let_def unmarshalSlow_base del: concat_eq_Nil_conv)
  next
    case (Some r)
    obtain num ty n where r: "r = (num, ty, n)" by (cases r)
    show ?thesis
    proof (cases "ConsumeVarint pw (drop n (hd data))")
      case None
      with False Some r show ?thesis by (simp add: Unmarshal_def Let_def unmarshalSlow_base del: concat_eq_Nil_conv)
    next
      case (Some q)
      obtain sz m where q: "q = (sz, m)" by (cases q)
      let ?fast = "num = 1 \<and> ty = 2 \<and> n + m \<le> length (hd data) \<and> wrap64 (int sz) = int (length (concat data)) - int (n + m)"
      have e: "Unmarshal pw data = (if ?fast then Some ((if n + m < length (hd data) then [drop (n + m) (hd data)] else []) @ tl data)
          else unmarshalSlow pw data)"
        using False \<open>ConsumeTag pw (hd data) = Some r\<close> Some
        by (simp add: Unmarshal_def Let_def r q rawChunkField_def BytesType_def del: concat_eq_Nil_conv)
      show ?thesis
      proof (cases ?fast)
        case True
        then show ?thesis
          using fast_path [OF False] \<open>ConsumeTag pw (hd data) = Some r\<close> Some unfolding e r q by simp
      next
        case False
        then show ?thesis unfolding e by (simp only: if_False unmarshalSlow_base)
      qed
    qed
  qed
qed

lemma Marshal_base: "concat (Marshal pw d) = base_Marshal pw d"
  by (simp add: Marshal_def base_Marshal rawChunkField_def BytesType_def)

end

subsection \<open>An executable encoding\<close>

text \<open>Base-128 varints, least significant group first, of at most 64 bits; a tag is the varint of the field
  number times 8 plus the wire type; a message of fields number 1, the last one counting, with other
  fields refused.\<close>

fun put_varint :: "nat \<Rightarrow> bytes" where
  "put_varint n = (if n < 128 then [of_nat n] else of_nat (n mod 128 + 128) # put_varint (n div 128))"

declare put_varint.simps [simp del]

fun get_groups :: "bytes \<Rightarrow> (nat \<times> nat) option" where
  "get_groups [] = None"
| "get_groups (b # bs) =
     (if unat b < 128 then Some (unat b, 1)
      else case get_groups bs of None \<Rightarrow> None | Some (v, k) \<Rightarrow> Some (unat b - 128 + 128 * v, Suc k))"

definition get_varint :: "bytes \<Rightarrow> (nat \<times> nat) option" where
  "get_varint b = (case get_groups b of None \<Rightarrow> None | Some (v, k) \<Rightarrow> if v < 2 ^ 64 then Some (v, k) else None)"

definition get_tag :: "bytes \<Rightarrow> (nat \<times> nat \<times> nat) option" where
  "get_tag b = (case get_varint b of None \<Rightarrow> None | Some (v, k) \<Rightarrow> Some (v div 8, v mod 8, k))"

fun get_chunk :: "nat \<Rightarrow> bytes \<Rightarrow> bytes \<Rightarrow> bytes option" where
  "get_chunk 0 d b = None"
| "get_chunk (Suc fuel) d b =
     (if b = [] then Some d
      else case get_tag b of
             None \<Rightarrow> None
           | Some (f, t, n) \<Rightarrow>
               if f \<noteq> 1 \<or> t \<noteq> 2 then None
               else (case get_varint (drop n b) of
                       None \<Rightarrow> None
                     | Some (v, m) \<Rightarrow>
                         if length b < n + m + v then None
                         else get_chunk fuel (take v (drop (n + m) b)) (drop (n + m + v) b)))"

definition wire :: protowire where
  "wire = \<lparr>AppendTag = (\<lambda>f t. put_varint (f * 8 + t)), AppendVarint = put_varint, ConsumeTag = get_tag, ConsumeVarint = get_varint,
     base_Marshal = (\<lambda>d. if d = [] then [] else put_varint 10 @ put_varint (length d) @ d),
     base_Unmarshal = (\<lambda>b. get_chunk (length b + 2) [] b)\<rparr>"

lemma get_groups_prefix: "get_groups a = Some r \<Longrightarrow> get_groups (a @ b) = Some r"
  by (induction a arbitrary: r) (auto split: if_splits option.splits)

lemma get_groups_length: "get_groups a = Some (v, k) \<Longrightarrow> k \<le> length a \<and> 0 < k"
  by (induction a arbitrary: v k) (auto split: if_splits option.splits)

lemma get_put_varint: "get_groups (put_varint n @ b) = Some (n, length (put_varint n))"
proof (induction n rule: put_varint.induct)
  case (1 n)
  show ?case
  proof (cases "n < 128")
    case True
    then have "unat (of_nat n :: byte) = n" by (simp add: unat_of_nat)
    then show ?thesis using True by (simp add: put_varint.simps [of n])
  next
    case False
    have "n mod 128 + 128 < 256" using mod_less_divisor [of 128 n] by linarith
    then have "unat (of_nat (n mod 128 + 128) :: byte) = n mod 128 + 128" by (simp add: unat_of_nat del: of_nat_add)
    then show ?thesis using False 1 by (simp add: put_varint.simps [of n])
  qed
qed

lemma get_varint_prefix: "get_varint a = Some r \<Longrightarrow> get_varint (a @ b) = Some r"
  by (auto simp: get_varint_def get_groups_prefix split: option.splits)

lemma get_varint_length: "get_varint a = Some (v, k) \<Longrightarrow> k \<le> length a \<and> 0 < k \<and> v < 2 ^ 64"
  using get_groups_length by (auto simp: get_varint_def split: option.splits if_splits)

lemma get_varint_put: "n < 2 ^ 64 \<Longrightarrow> get_varint (put_varint n @ b) = Some (n, length (put_varint n))"
  by (simp add: get_varint_def get_put_varint)

lemma get_tag_prefix:
  assumes "get_tag a = Some r"
  shows "get_tag (a @ b) = Some r"
proof -
  obtain v k where v: "get_varint a = Some (v, k)" "r = (v div 8, v mod 8, k)"
    using assms by (auto simp: get_tag_def split: option.splits)
  then show ?thesis using get_varint_prefix [OF v(1)] by (simp add: get_tag_def)
qed

lemma get_tag_length: "get_tag a = Some (f, t, n) \<Longrightarrow> n \<le> length a"
  using get_varint_length by (auto simp: get_tag_def split: option.splits)

lemma get_chunk_field:
  assumes "get_tag b = Some (1, 2, n)" and "get_varint (drop n b) = Some (v, m)" and "n + m + v = length b"
  shows "get_chunk (Suc (Suc f)) d b = Some (drop (n + m) b)"
proof -
  have "b \<noteq> []" using assms(1) by (auto simp: get_tag_def get_varint_def)
  moreover have "take v (drop (n + m) b) = drop (n + m) b" using assms(3) by simp
  moreover have "drop (n + m + v) b = []" using assms(3) by simp
  ultimately show ?thesis using assms by simp
qed

lemma wire_simps [simp]:
  "AppendTag wire f t = put_varint (f * 8 + t)" "AppendVarint wire = put_varint" "ConsumeTag wire = get_tag"
  "ConsumeVarint wire = get_varint" "base_Marshal wire d = (if d = [] then [] else put_varint 10 @ put_varint (length d) @ d)"
  "base_Unmarshal wire b = get_chunk (length b + 2) [] b"
  by (simp_all add: wire_def)

interpretation wire: protowire_laws wire
proof
  fix d :: bytes
  assume l: "length d < 2 ^ 63"
  let ?b = "put_varint 10 @ put_varint (length d) @ d"
  have "get_tag ?b = Some (1, 2, length (put_varint 10))" by (simp add: get_tag_def get_varint_put)
  moreover have "get_varint (drop (length (put_varint 10)) ?b) = Some (length d, length (put_varint (length d)))"
    using l by (simp add: get_varint_put)
  ultimately have "get_chunk (Suc (Suc (length ?b))) [] ?b = Some (drop (length (put_varint 10) + length (put_varint (length d))) ?b)"
    by (rule get_chunk_field) simp
  then have "get_chunk (Suc (Suc (length ?b))) [] ?b = Some d" by simp
  moreover have "base_Unmarshal wire (base_Marshal wire d) = get_chunk (Suc (Suc (length ?b))) [] ?b" if "d \<noteq> []"
    using that by (simp only: wire_simps if_False) simp
  moreover have "base_Unmarshal wire (base_Marshal wire []) = Some []" by simp
  ultimately show "base_Unmarshal wire (base_Marshal wire d) = Some d" by metis
next
  fix a :: bytes and v m
  assume "ConsumeVarint wire a = Some (v, m)"
  then show "m \<le> length a \<and> v < 2 ^ 64" using get_varint_length by auto
qed (simp_all add: get_tag_prefix get_tag_length get_varint_prefix get_varint_length get_chunk_field)

section \<open>Properties\<close>

text \<open>(C10) The codec is indistinguishable from protobuf.  For every message, however the transport splits it
  into buffers, the fast path and the slow path together yield exactly the bytes, or the error, that
  the registered proto codec yields for the joined message; and what it encodes is byte for byte
  what the proto codec encodes.\<close>

theorem codec_equiv:
  assumes "protowire_laws pw"
  shows "map_option concat (Unmarshal pw data) = base_Unmarshal pw (concat data)
    \<and> concat (Marshal pw d) = base_Marshal pw d"
  using protowire_laws.Unmarshal_base [OF assms] protowire_laws.Marshal_base [OF assms] by simp

theorem codec_equiv_witness:
  "Unmarshal wire [[10, 3, 65], [66, 67]] = Some [[65], [66, 67]]
   \<and> base_Unmarshal wire [10, 3, 65, 66, 67] = Some [65, 66, 67] \<and> concat (Marshal wire [65, 66, 67]) = base_Marshal wire [65, 66, 67]"
proof -
  have "Unmarshal wire [[10, 3, 65], [66, 67]] = Some [[65], [66, 67]]"
    by (simp add: Unmarshal_def get_tag_def get_varint_def rawChunkField_def BytesType_def wrap64_def)
  with codec_equiv [OF wire.protowire_laws_axioms, of "[[10, 3, 65], [66, 67]]" "[65, 66, 67]"] show ?thesis
    by (simp del: wire_simps)
qed

end
