(* ===== verification/H2_Stream.thy ===== *)
theory H2_Stream
  imports H2_Codec
begin

text \<open>
  The byte stream over one gRPC Stream RPC, \<^verbatim>\<open>v4/mux/h2mux/stream.go\<close>.  What the transport does is a
  script: each \<^verbatim>\<open>RecvMsg\<close> meets a message (as the transport's buffers), an error, or the timer of a
  deadline; each \<^verbatim>\<open>SendMsg\<close> succeeds, fails, or is overtaken by the timer.  The callbacks the stream
  invokes are counted.
\<close>

record grpc_stream =
  readBufs :: "bytes list"
  readDeadline :: go_time        \<comment> \<open>0 is the zero time\<close>
  writeDeadline :: go_time
  gs_closed :: bool              \<comment> \<open>closeOnce\<close>
  gs_cwOnce :: bool              \<comment> \<open>closeWriteOnce\<close>
  gs_sent :: "bytes list list"   \<comment> \<open>messages accepted by SendMsg, oldest first\<close>
  gs_doneClosed :: nat           \<comment> \<open>calls of close(doneCh)\<close>
  gs_onClose :: nat
  gs_closeWrite :: nat
  gs_aborts :: nat

definition new_stream :: grpc_stream where
  "new_stream = \<lparr>readBufs = [], readDeadline = 0, writeDeadline = 0, gs_closed = False, gs_cwOnce = False, gs_sent = [],
     gs_doneClosed = 0, gs_onClose = 0, gs_closeWrite = 0, gs_aborts = 0\<rparr>"

definition SetDeadline :: "go_time \<Rightarrow> grpc_stream \<Rightarrow> grpc_stream" where
  "SetDeadline t s = s\<lparr>readDeadline := t, writeDeadline := t\<rparr>"

definition SetReadDeadline :: "go_time \<Rightarrow> grpc_stream \<Rightarrow> grpc_stream" where
  "SetReadDeadline t s = s\<lparr>readDeadline := t\<rparr>"

definition SetWriteDeadline :: "go_time \<Rightarrow> grpc_stream \<Rightarrow> grpc_stream" where
  "SetWriteDeadline t s = s\<lparr>writeDeadline := t\<rparr>"

definition deadline_timeout :: "go_time \<Rightarrow> go_time \<Rightarrow> go_duration option" where
  "deadline_timeout deadline now = (if deadline \<noteq> 0 then Some (time_sub deadline now) else None)"

definition readTimeout :: "go_time \<Rightarrow> grpc_stream \<Rightarrow> go_duration option" where
  "readTimeout now s = deadline_timeout (readDeadline s) now"

definition writeTimeout :: "go_time \<Rightarrow> grpc_stream \<Rightarrow> go_duration option" where
  "writeTimeout now s = deadline_timeout (writeDeadline s) now"

section \<open>Reading\<close>

datatype io_error = DeadlineExceeded | TransportError

datatype recv_event = RecvMsg "bytes list" | RecvFail | RecvTimer

text \<open>One \<^verbatim>\<open>recvChunk\<close> at time \<open>now\<close>; a timer can only fire when a deadline is set.\<close>

definition recvChunk :: "protowire \<Rightarrow> go_time \<Rightarrow> recv_event \<Rightarrow> grpc_stream \<Rightarrow> (io_error + bytes list) \<times> grpc_stream" where
  "recvChunk pw now ev s =
     (let expired = (case readTimeout now s of None \<Rightarrow> False | Some t \<Rightarrow> t \<le> 0 \<or> ev = RecvTimer)
      in if expired then (Inl DeadlineExceeded, s\<lparr>gs_aborts := gs_aborts s + 1\<rparr>)
         else case ev of
                RecvMsg data \<Rightarrow>
                  (case Unmarshal pw data of None \<Rightarrow> (Inl TransportError, s) | Some bufs \<Rightarrow> (Inr bufs, s))
              | _ \<Rightarrow> (Inl TransportError, s))"

datatype read_result = ReadOk bytes | ReadErr io_error | ReadBlocked

text \<open>\<^verbatim>\<open>Read\<close> into a buffer of \<open>n\<close> bytes: empty buffers are freed, the first non-empty one is copied from;
  without one the next chunk is received.  \<open>ReadBlocked\<close> is a read still waiting when the script ends.\<close>

fun Read :: "protowire \<Rightarrow> nat \<Rightarrow> (go_time \<times> recv_event) list \<Rightarrow> grpc_stream \<Rightarrow>
    read_result \<times> (go_time \<times> recv_event) list \<times> grpc_stream" where
  "Read pw n evs s =
     (case dropWhile (\<lambda>b. b = []) (readBufs s) of
        b # bs \<Rightarrow> (ReadOk (take n b), evs, s\<lparr>readBufs := (if length b \<le> n then bs else drop n b # bs)\<rparr>)
      | [] \<Rightarrow>
          (case evs of
             [] \<Rightarrow> (ReadBlocked, [], s\<lparr>readBufs := []\<rparr>)
           | (now, ev) # evs' \<Rightarrow>
               (case recvChunk pw now ev (s\<lparr>readBufs := []\<rparr>) of
                  (Inl e, s) \<Rightarrow> (ReadErr e, evs', s)
                | (Inr bufs, s) \<Rightarrow> Read pw n evs' (s\<lparr>readBufs := bufs\<rparr>))))"

declare Read.simps [simp del]

section \<open>Writing\<close>

datatype send_event = SendOk | SendFail | SendTimer bool   \<comment> \<open>timer fired; whether the message was sent all the same\<close>

definition sendChunk :: "protowire \<Rightarrow> bytes \<Rightarrow> grpc_stream \<Rightarrow> grpc_stream" where
  "sendChunk pw data s = s\<lparr>gs_sent := gs_sent s @ [Marshal pw data]\<rparr>"

definition Write :: "protowire \<Rightarrow> go_time \<Rightarrow> send_event \<Rightarrow> bytes \<Rightarrow> grpc_stream \<Rightarrow> (io_error + nat) \<times> grpc_stream" where
  "Write pw now ev b s =
     (if b = [] then (Inr 0, s)
      else
        case writeTimeout now s of
          Some t \<Rightarrow>
            if t \<le> 0 then (Inl DeadlineExceeded, s\<lparr>gs_aborts := gs_aborts s + 1\<rparr>)
            else (case ev of
                    SendOk \<Rightarrow> (Inr (length b), sendChunk pw b s)
                  | SendFail \<Rightarrow> (Inl TransportError, s)
                  | SendTimer sent \<Rightarrow>
                      (Inl DeadlineExceeded, (if sent then sendChunk pw b s else s)\<lparr>gs_aborts := gs_aborts s + 1\<rparr>))
        | None \<Rightarrow>
            (case ev of
               SendOk \<Rightarrow> (Inr (length b), sendChunk pw b s)
             | _ \<Rightarrow> (Inl TransportError, s)))"

section \<open>Closing\<close>

definition doCloseWrite :: "grpc_stream \<Rightarrow> grpc_stream" where
  "doCloseWrite s = (if gs_cwOnce s then s else s\<lparr>gs_cwOnce := True, gs_closeWrite := gs_closeWrite s + 1\<rparr>)"

definition CloseWrite :: "grpc_stream \<Rightarrow> grpc_stream" where
  "CloseWrite s = doCloseWrite s"

definition stream_Close :: "grpc_stream \<Rightarrow> grpc_stream" where
  "stream_Close s =
     (if gs_closed s then s
      else doCloseWrite (s\<lparr>gs_closed := True, gs_doneClosed := gs_doneClosed s + 1, gs_onClose := gs_onClose s + 1\<rparr>))"

section \<open>Reads deliver the stream in order\<close>

text \<open>The bytes a script still holds, when every message decodes and there is no deadline.\<close>

fun payload_of :: "protowire \<Rightarrow> go_time \<times> recv_event \<Rightarrow> bytes option" where
  "payload_of pw (now, RecvMsg data) = map_option concat (Unmarshal pw data)"
| "payload_of pw (now, _) = None"

definition clean :: "protowire \<Rightarrow> (go_time \<times> recv_event) list \<Rightarrow> bool" where
  "clean pw evs \<longleftrightarrow> list_all (\<lambda>e. payload_of pw e \<noteq> None) evs"

definition pending_bytes :: "protowire \<Rightarrow> (go_time \<times> recv_event) list \<Rightarrow> grpc_stream \<Rightarrow> bytes" where
  "pending_bytes pw evs s = concat (readBufs s) @ concat (List.map_filter (payload_of pw) evs)"

lemma concat_dropWhile_empty: "concat (dropWhile (\<lambda>b. b = []) xs) = concat xs"
  by (induction xs) auto

lemma Read_clean:
  assumes "clean pw evs" and "readDeadline s = 0" and "Read pw n evs s = (r, evs', s')"
  shows "readDeadline s' = 0 \<and> clean pw evs' \<and> (case r of
      ReadOk d \<Rightarrow> pending_bytes pw evs s = d @ pending_bytes pw evs' s' \<and> length d \<le> n \<and> (n > 0 \<longrightarrow> d \<noteq> [])
    | ReadBlocked \<Rightarrow> pending_bytes pw evs s = [] \<and> pending_bytes pw evs' s' = []
    | ReadErr e \<Rightarrow> False)"
  using assms
proof (induction evs arbitrary: s)
  case Nil
  show ?case
  proof (cases "dropWhile (\<lambda>b. b = []) (readBufs s)")
    case Nil': Nil
    then have "concat (readBufs s) = []" using concat_dropWhile_empty [of "readBufs s"] by simp
    with Nil Nil' show ?thesis
      by (auto simp: Read.simps [of pw n "[]"] pending_bytes_def List.map_filter_def clean_def)
  next
    case (Cons b bs)
    have "concat (readBufs s) = b @ concat bs" using concat_dropWhile_empty [of "readBufs s"] Cons by simp
    moreover have "b \<noteq> []" using dropWhile_eq_Cons_conv [of "\<lambda>b. b = []" "readBufs s" b bs] Cons by auto
    ultimately show ?thesis using Nil Cons
      by (auto simp: Read.simps [of pw n "[]"] pending_bytes_def split: if_splits)
  qed
next
  case (Cons e evs)
  show ?case
  proof (cases "dropWhile (\<lambda>b. b = []) (readBufs s)")
    case Nil
    have c: "concat (readBufs s) = []" using concat_dropWhile_empty [of "readBufs s"] Nil by simp
    obtain now data bufs where e: "e = (now, RecvMsg data)" "Unmarshal pw data = Some bufs"
      using Cons.prems(1) by (cases e; cases "snd e") (auto simp: clean_def)
    have "Read pw n (e # evs) s = Read pw n evs (s\<lparr>readBufs := bufs\<rparr>)"
      using Cons.prems(2)
      by (subst Read.simps, subst Nil) (simp add: e recvChunk_def readTimeout_def deadline_timeout_def)
    with Cons.prems have "Read pw n evs (s\<lparr>readBufs := bufs\<rparr>) = (r, evs', s')" by simp
    from Cons.IH [OF _ _ this] Cons.prems(1,2) c show ?thesis
      by (simp add: clean_def pending_bytes_def e List.map_filter_simps split: read_result.splits)
  next
    case (Cons b bs)
    have "concat (readBufs s) = b @ concat bs" using concat_dropWhile_empty [of "readBufs s"] Cons by simp
    moreover have "b \<noteq> []" using dropWhile_eq_Cons_conv [of "\<lambda>b. b = []" "readBufs s" b bs] Cons by auto
    ultimately show ?thesis using Cons.prems Cons
      by (auto simp: Read.simps [of pw n "e # evs"] pending_bytes_def split: if_splits)
  qed
qed

section \<open>End to end\<close>

fun read_all :: "protowire \<Rightarrow> nat list \<Rightarrow> (go_time \<times> recv_event) list \<Rightarrow> grpc_stream \<Rightarrow>
    read_result list \<times> (go_time \<times> recv_event) list \<times> grpc_stream" where
  "read_all pw [] evs s = ([], evs, s)"
| "read_all pw (n # ns) evs s =
     (let (r, evs, s) = Read pw n evs s; (rs, evs, s) = read_all pw ns evs s in (r # rs, evs, s))"

fun write_all :: "protowire \<Rightarrow> bytes list \<Rightarrow> grpc_stream \<Rightarrow> grpc_stream" where
  "write_all pw [] s = s"
| "write_all pw (w # ws) s = write_all pw ws (snd (Write pw 0 SendOk w s))"

fun result_bytes :: "read_result \<Rightarrow> bytes" where
  "result_bytes (ReadOk d) = d"
| "result_bytes (ReadErr e) = []"
| "result_bytes ReadBlocked = []"

lemma read_all_clean:
  assumes "clean pw evs" and "readDeadline s = 0" and "list_all (\<lambda>n. n > 0) ns" and "read_all pw ns evs s = (rs, evs', s')"
  shows "pending_bytes pw evs s = concat (map result_bytes rs) @ pending_bytes pw evs' s'
    \<and> list_all (\<lambda>r. \<forall>e. r \<noteq> ReadErr e) rs
    \<and> (pending_bytes pw evs' s' = [] \<or> length ns \<le> length (concat (map result_bytes rs)))"
  using assms
proof (induction ns arbitrary: evs s rs evs' s')
  case (Cons n ns)
  obtain r evs1 s1 where r: "Read pw n evs s = (r, evs1, s1)" by (cases "Read pw n evs s")
  obtain rs1 evs2 s2 where q: "read_all pw ns evs1 s1 = (rs1, evs2, s2)" by (cases "read_all pw ns evs1 s1")
  have eq: "rs = r # rs1" "evs' = evs2" "s' = s2" using Cons.prems(4) by (simp_all add: r q)
  note v = Read_clean [OF Cons.prems(1,2) r]
  have ih: "pending_bytes pw evs1 s1 = concat (map result_bytes rs1) @ pending_bytes pw evs2 s2
    \<and> list_all (\<lambda>r. \<forall>e. r \<noteq> ReadErr e) rs1
    \<and> (pending_bytes pw evs2 s2 = [] \<or> length ns \<le> length (concat (map result_bytes rs1)))"
    by (rule Cons.IH [OF _ _ _ q]) (use v Cons.prems(3) in simp_all)
  have "length d > 0" if "r = ReadOk d" for d using v that Cons.prems(3) by simp
  then show ?case using v ih unfolding eq by (cases r) (auto simp: Suc_le_eq neq_Nil_conv)
qed simp

lemma write_all_sent:
  "writeDeadline s = 0 \<Longrightarrow> gs_sent (write_all pw ws s) = gs_sent s @ map (Marshal pw) (filter (\<lambda>w. w \<noteq> []) ws)"
proof (induction ws arbitrary: s)
  case (Cons w ws)
  have "writeDeadline (snd (Write pw 0 SendOk w s)) = 0"
    "gs_sent (snd (Write pw 0 SendOk w s)) = gs_sent s @ (if w = [] then [] else [Marshal pw w])"
    using Cons.prems by (simp_all add: Write_def writeTimeout_def deadline_timeout_def sendChunk_def)
  with Cons.IH show ?case by simp
qed simp

lemma concat_filter_nonempty: "concat (filter (\<lambda>w. w \<noteq> []) ws) = concat ws"
  by (induction ws) auto

text \<open>A message decodes to what was written, however the transport cuts it into buffers.\<close>

lemma split_decodes:
  assumes "protowire_laws pw" and "length w < 2 ^ 63" and "concat data = concat (Marshal pw w)"
  shows "payload_of pw (now, RecvMsg data) = Some w"
  using protowire_laws.Unmarshal_base [OF assms(1), of data] protowire_laws.Marshal_base [OF assms(1), of w]
    protowire_laws.base_roundtrip [OF assms(1,2)] assms(3) by simp

lemma script_pending:
  assumes "protowire_laws pw" and "list_all (\<lambda>w. length w < 2 ^ 63) ws"
    and "list_all2 (\<lambda>data w. concat data = concat (Marshal pw w)) datas ws"
  shows "clean pw (map (\<lambda>d. (now, RecvMsg d)) datas)
    \<and> List.map_filter (payload_of pw) (map (\<lambda>d. (now, RecvMsg d)) datas) = ws"
  using assms(3,2)
proof (induction rule: list_all2_induct)
  case (Cons data datas w ws)
  have "payload_of pw (now, RecvMsg data) = Some w" by (rule split_decodes [OF assms(1)]) (use Cons in simp_all)
  then show ?case using Cons by (simp add: clean_def List.map_filter_simps del: payload_of.simps)
qed (simp add: clean_def List.map_filter_def)

text \<open>(C11) What one side writes to a stream the other side reads.  Whatever sizes are written, however the
  transport splits every encoded message into buffers, and whatever positive sizes are asked for, the
  reads return the written bytes in order without loss or duplication and never an error, and as
  many reads as there are bytes return them all.\<close>

theorem stream_roundtrip:
  assumes "protowire_laws pw" and "list_all (\<lambda>w. length w < 2 ^ 63) ws"
    and "list_all2 (\<lambda>data msg. concat data = concat msg) datas (gs_sent (write_all pw ws new_stream))"
    and "list_all (\<lambda>n. n > 0) ns" and "read_all pw ns (map (\<lambda>d. (now, RecvMsg d)) datas) new_stream = (rs, evs, s)"
  shows "concat ws = concat (map result_bytes rs) @ pending_bytes pw evs s
    \<and> list_all (\<lambda>r. \<forall>e. r \<noteq> ReadErr e) rs
    \<and> (length (concat ws) \<le> length ns \<longrightarrow> concat (map result_bytes rs) = concat ws)"
proof -
  let ?ws = "filter (\<lambda>w. w \<noteq> []) ws" and ?evs = "map (\<lambda>d. (now, RecvMsg d)) datas"
  have "gs_sent (write_all pw ws new_stream) = map (Marshal pw) ?ws" by (subst write_all_sent) (simp_all add: new_stream_def)
  then have "list_all2 (\<lambda>data w. concat data = concat (Marshal pw w)) datas ?ws"
    using assms(3) by (simp add: list_all2_map2)
  moreover have "list_all (\<lambda>w. length w < 2 ^ 63) ?ws" using assms(2) by (simp add: list_all_iff)
  ultimately have e: "clean pw ?evs" "List.map_filter (payload_of pw) ?evs = ?ws"
    using script_pending [OF assms(1)] by blast+
  have p: "pending_bytes pw ?evs new_stream = concat ws"
    by (simp add: pending_bytes_def e(2) concat_filter_nonempty new_stream_def)
  have "readDeadline new_stream = 0" by (simp add: new_stream_def)
  note r = read_all_clean [OF e(1) this assms(4,5), unfolded p]
  have "concat (map result_bytes rs) = concat ws" if "length (concat ws) \<le> length ns"
  proof (cases "pending_bytes pw evs s = []")
    case False
    then have "length (concat ws) \<le> length (concat (map result_bytes rs))" using r that by linarith
    moreover have "length (concat ws) = length (concat (map result_bytes rs)) + length (pending_bytes pw evs s)"
      using r by (metis length_append)
    ultimately show ?thesis using False by simp
  qed (use r in simp)
  with r show ?thesis by blast
qed

theorem stream_roundtrip_witness:
  "gs_sent (write_all wire [[65, 66], [], [67]] new_stream) = [[[10, 2, 65, 66]], [[10, 1, 67]]]
   \<and> concat (map result_bytes (fst (read_all wire [1, 5, 5] (map (\<lambda>d. (0, RecvMsg d)) [[[10, 2, 65], [66]], [[10, 1], [67]]]) new_stream)))
     = [65, 66, 67]"
proof -
  let ?ws = "[[65, 66], [], [67]] :: bytes list" and ?ds = "[[[10, 2, 65], [66]], [[10, 1], [67]]] :: bytes list list"
  have m: "gs_sent (write_all wire ?ws new_stream) = [[[10, 2, 65, 66]], [[10, 1, 67]]]"
    by (subst write_all_sent) (simp_all add: new_stream_def Marshal_def rawChunkField_def BytesType_def put_varint.simps)
  obtain rs evs s where r: "read_all wire [1, 5, 5] (map (\<lambda>d. (0, RecvMsg d)) ?ds) new_stream = (rs, evs, s)"
    by (cases "read_all wire [1, 5, 5] (map (\<lambda>d. (0, RecvMsg d)) ?ds) new_stream")
  have "list_all2 (\<lambda>data msg. concat data = concat msg) ?ds (gs_sent (write_all wire ?ws new_stream))" unfolding m by simp
  moreover have "list_all (\<lambda>w. length w < 2 ^ 63) ?ws" by simp
  moreover have "list_all (\<lambda>n. n > 0) [1, 5, 5 :: nat]" by simp
  moreover have "length (concat ?ws) \<le> length [1, 5, 5 :: nat]" "concat ?ws = [65, 66, 67]" by simp_all
  ultimately have "concat (map result_bytes rs) = [65, 66, 67]"
    using stream_roundtrip [OF wire.protowire_laws_axioms _ _ _ r, of ?ws] by metis
  then show ?thesis using m by (simp only: r fst_conv)
qed

section \<open>Closing happens once\<close>

datatype close_call = CallCloseWrite | CallClose

fun close_calls :: "close_call list \<Rightarrow> grpc_stream \<Rightarrow> grpc_stream" where
  "close_calls [] s = s"
| "close_calls (CallCloseWrite # cs) s = close_calls cs (CloseWrite s)"
| "close_calls (CallClose # cs) s = close_calls cs (stream_Close s)"

definition close_inv :: "grpc_stream \<Rightarrow> bool" where
  "close_inv s \<longleftrightarrow> gs_doneClosed s = of_bool (gs_closed s) \<and> gs_onClose s = of_bool (gs_closed s)
     \<and> gs_closeWrite s = of_bool (gs_cwOnce s) \<and> (gs_closed s \<longrightarrow> gs_cwOnce s)"

lemma close_step_inv:
  "close_inv s \<Longrightarrow> close_inv (CloseWrite s) \<and> (gs_closed (CloseWrite s) = gs_closed s) \<and> gs_cwOnce (CloseWrite s)"
  "close_inv s \<Longrightarrow> close_inv (stream_Close s) \<and> gs_closed (stream_Close s) \<and> gs_cwOnce (stream_Close s)"
  by (auto simp: close_inv_def CloseWrite_def stream_Close_def doCloseWrite_def)

lemma close_calls_inv:
  "close_inv s \<Longrightarrow> close_inv (close_calls cs s)
     \<and> gs_closed (close_calls cs s) = (gs_closed s \<or> CallClose \<in> set cs)
     \<and> gs_cwOnce (close_calls cs s) = (gs_cwOnce s \<or> cs \<noteq> [])"
  by (induction cs s rule: close_calls.induct) (use close_step_inv in auto)

text \<open>However often and in whatever order both forwarder directions half-close and close a stream, the
  RPC's \<^verbatim>\<open>CloseSend\<close> runs at most once, and the done channel is closed (a second close would panic) and
  the cancel callback invoked exactly once if \<^verbatim>\<open>Close\<close> was called and never otherwise.\<close>

theorem stream_closes_once:
  "let s = close_calls cs new_stream
   in gs_doneClosed s = of_bool (CallClose \<in> set cs) \<and> gs_onClose s = of_bool (CallClose \<in> set cs)
      \<and> gs_closeWrite s = of_bool (cs \<noteq> [])"
proof -
  have "close_inv new_stream" by (simp add: close_inv_def new_stream_def)
  from close_calls_inv [OF this, of cs] show ?thesis by (simp add: close_inv_def new_stream_def Let_def)
qed

end
