(* ===== verification/H2_Support.thy ===== *)
theory H2_Support
  imports Tunnel
begin

text \<open>
  The supporting parts of h2mux: the buffer pool (\<^verbatim>\<open>bufferpool.go\<close>), the statistics handler
  (\<^verbatim>\<open>metrics.go\<close>), the identity exchange on the control stream (\<^verbatim>\<open>handshake.go\<close>) and the write
  timeout (\<^verbatim>\<open>writetimeout.go\<close>).  The exchange is stated against an interface, \<open>identity_exchange\<close>,
  that h3mux implements with its own message format.
\<close>

section \<open>The buffer pool\<close>

text \<open>A buffer is its length and capacity; a \<^verbatim>\<open>sync.Pool\<close> is the list of capacities put into it.\<close>

record buffer_pool =
  pool_sizes :: "nat list"
  pool_bufs :: "nat list list"

definition newDirtyBufferPool :: "nat list \<Rightarrow> buffer_pool" where
  "newDirtyBufferPool szs = \<lparr>pool_sizes = szs, pool_bufs = replicate (length szs) []\<rparr>"

fun first_fit :: "nat \<Rightarrow> nat \<Rightarrow> nat list \<Rightarrow> nat option" where
  "first_fit i len [] = None"
| "first_fit i len (sz # szs) = (if len \<le> sz then Some i else first_fit (Suc i) len szs)"

text \<open>\<open>pick\<close> is what \<^verbatim>\<open>sync.Pool.Get\<close> hands out: one of the pooled buffers, or none for a new one.  Reslicing
  beyond the capacity panics, which is \<open>None\<close>.\<close>

definition pool_Get :: "nat option \<Rightarrow> nat \<Rightarrow> buffer_pool \<Rightarrow> (nat \<times> nat) option \<times> buffer_pool" where
  "pool_Get pick len p =
     (case first_fit 0 len (pool_sizes p) of
        None \<Rightarrow> (Some (len, len), p)
      | Some i \<Rightarrow>
          let bufs = pool_bufs p ! i;
              (c, bufs') = (case pick of
                 Some k \<Rightarrow> if k < length bufs then (bufs ! k, take k bufs @ drop (Suc k) bufs) else (pool_sizes p ! i, bufs)
               | None \<Rightarrow> (pool_sizes p ! i, bufs));
              p = p\<lparr>pool_bufs := (pool_bufs p)[i := bufs']\<rparr>
          in (if len \<le> c then Some (len, c) else None, p))"

fun last_fit :: "nat \<Rightarrow> nat list \<Rightarrow> nat option" where
  "last_fit c [] = None"
| "last_fit c (sz # szs) = (case last_fit c szs of Some i \<Rightarrow> Some (Suc i) | None \<Rightarrow> if c \<ge> sz then Some 0 else None)"

definition pool_Put :: "nat \<Rightarrow> buffer_pool \<Rightarrow> buffer_pool" where
  "pool_Put c p =
     (case last_fit c (pool_sizes p) of
        None \<Rightarrow> p
      | Some i \<Rightarrow> p\<lparr>pool_bufs := (pool_bufs p)[i := c # pool_bufs p ! i]\<rparr>)"

datatype pool_call = PGet "nat option" nat | PPut nat

text \<open>The machine stops when a \<^verbatim>\<open>Get\<close> panics.\<close>

fun pool_step :: "pool_call \<Rightarrow> buffer_pool \<Rightarrow> buffer_pool option" where
  "pool_step (PGet pick len) p = (case pool_Get pick len p of (None, _) \<Rightarrow> None | (Some _, p) \<Rightarrow> Some p)"
| "pool_step (PPut c) p = Some (pool_Put c p)"

definition pool_inv :: "buffer_pool \<Rightarrow> bool" where
  "pool_inv p \<longleftrightarrow> length (pool_bufs p) = length (pool_sizes p)
     \<and> (\<forall>i < length (pool_sizes p). \<forall>c \<in> set (pool_bufs p ! i). pool_sizes p ! i \<le> c)"

lemma first_fit_spec: "first_fit j len szs = Some i \<Longrightarrow> j \<le> i \<and> i - j < length szs \<and> len \<le> szs ! (i - j)"
  by (induction szs arbitrary: j) (fastforce split: if_splits simp: nth_Cons')+

lemma last_fit_spec: "last_fit c szs = Some i \<Longrightarrow> i < length szs \<and> szs ! i \<le> c"
  by (induction szs arbitrary: i) (auto split: option.splits if_splits)

lemma pool_Get_inv:
  assumes "pool_inv p"
  shows "\<exists>c p'. pool_Get pick len p = (Some (len, c), p') \<and> len \<le> c \<and> pool_inv p' \<and> pool_sizes p' = pool_sizes p"
proof (cases "first_fit 0 len (pool_sizes p)")
  case None
  with assms show ?thesis by (simp add: pool_Get_def)
next
  case (Some i)
  have i: "i < length (pool_sizes p)" "len \<le> pool_sizes p ! i" using first_fit_spec [OF Some] by simp_all
  let ?bufs = "pool_bufs p ! i"
  have b: "\<And>c. c \<in> set ?bufs \<Longrightarrow> pool_sizes p ! i \<le> c" "length (pool_bufs p) = length (pool_sizes p)"
    using assms i by (auto simp: pool_inv_def)
  have keep: "pool_inv (p\<lparr>pool_bufs := (pool_bufs p)[i := bs]\<rparr>)" if "set bs \<subseteq> set ?bufs" for bs
    using assms i that unfolding pool_inv_def by (auto simp: nth_list_update)
  show ?thesis
  proof (cases "\<exists>k. pick = Some k \<and> k < length ?bufs")
    case True
    then obtain k where k: "pick = Some k" "k < length ?bufs" by blast
    have "len \<le> ?bufs ! k" using b(1) [OF nth_mem [OF k(2)]] i(2) by simp
    moreover have "set (take k ?bufs @ drop (Suc k) ?bufs) \<subseteq> set ?bufs" by (auto dest: in_set_takeD in_set_dropD)
    ultimately show ?thesis using keep k by (simp add: pool_Get_def Some Let_def)
  next
    case False
    then show ?thesis using keep [of ?bufs] i(2) by (auto simp: pool_Get_def Some Let_def split: option.split)
  qed
qed

lemma pool_Put_inv: "pool_inv p \<Longrightarrow> pool_inv (pool_Put c p)"
  using last_fit_spec [of c "pool_sizes p"]
  by (auto simp: pool_Put_def pool_inv_def nth_list_update split: option.split)

interpretation pool_machine: invariant_machine pool_step pool_inv
proof
  fix p e q
  assume i: "pool_inv p" and e: "pool_step e p = Some q"
  show "pool_inv q"
  proof (cases e)
    case (PGet pick len)
    then show ?thesis using pool_Get_inv [OF i, of pick len] e by auto
  next
    case (PPut c)
    then show ?thesis using e pool_Put_inv [OF i, of c] by simp
  qed
qed

text \<open>The buffer pool never panics: whatever tier sizes it is made with, whatever buffers of whatever
  capacity are put back, and whichever of them \<^verbatim>\<open>sync.Pool\<close> hands out, \<^verbatim>\<open>Get\<close> returns a buffer of exactly
  the requested length within its capacity.\<close>

theorem pool_never_panics:
  assumes "exec pool_step calls (newDirtyBufferPool szs) = Some p"
  shows "\<exists>c p'. pool_Get pick len p = (Some (len, c), p') \<and> len \<le> c"
proof -
  have "pool_inv (newDirtyBufferPool szs)" by (simp add: pool_inv_def newDirtyBufferPool_def)
  from pool_Get_inv [OF pool_machine.exec_inv [OF this assms]] show ?thesis by blast
qed

theorem pool_never_panics_witness:
  "case exec pool_step [PPut 300, PPut 5000, PGet None 10] (newDirtyBufferPool [256, 4096]) of None \<Rightarrow> False
   | Some p \<Rightarrow> pool_bufs p = [[300], [5000]] \<and> (\<exists>c p'. pool_Get (Some 0) 4096 p = (Some (4096, c), p') \<and> 4096 \<le> c)"
proof -
  obtain p where p: "exec pool_step [PPut 300, PPut 5000, PGet None 10] (newDirtyBufferPool [256, 4096]) = Some p" "pool_bufs p = [[300], [5000]]"
    by (simp add: newDirtyBufferPool_def pool_Put_def pool_Get_def)
  from pool_never_panics [OF p(1), of "Some 0" 4096] p show ?thesis by (simp only: option.case simp_thms)
qed

section \<open>The statistics handler\<close>

record stats_handler =
  sh_metrics :: session_metrics
  sh_idle :: bool                 \<comment> \<open>a token in idleNotify, of capacity 1\<close>

definition newMuxStatsHandler :: stats_handler where
  "newMuxStatsHandler = \<lparr>sh_metrics = zero_metrics, sh_idle = False\<rparr>"

definition streamMethod :: string where
  "streamMethod = ''/tlswrapper.mux.v1.Mux/Stream''"

definition TagRPC :: "string \<Rightarrow> bool" where
  "TagRPC fullMethodName = (fullMethodName = streamMethod)"

datatype rpc_stats = RpcBegin | RpcEnd bool | InPayload nat nat | OutPayload nat nat | OtherStats

text \<open>\<open>tracked\<close> is what \<^verbatim>\<open>TagRPC\<close> put into the context; \<open>RpcEnd\<close> carries whether the RPC ended without error.\<close>

definition HandleRPC :: "bool \<Rightarrow> rpc_stats \<Rightarrow> stats_handler \<Rightarrow> stats_handler" where
  "HandleRPC tracked v h =
     (if \<not> tracked then h
      else
        let m = sh_metrics h
        in case v of
             RpcBegin \<Rightarrow> h\<lparr>sh_metrics := m\<lparr>NumStreams := NumStreams m + 1\<rparr>\<rparr>
           | RpcEnd ok \<Rightarrow>
               let m = (if ok then m\<lparr>StreamsSucceeded := StreamsSucceeded m + 1\<rparr> else m\<lparr>StreamsFailed := StreamsFailed m + 1\<rparr>);
                   m = m\<lparr>NumStreams := NumStreams m - 1\<rparr>
               in h\<lparr>sh_metrics := m, sh_idle := (NumStreams m = 0 \<or> sh_idle h)\<rparr>
           | InPayload n w \<Rightarrow>
               h\<lparr>sh_metrics := m\<lparr>BytesReceived := BytesReceived m + of_nat n, WireLengthReceived := WireLengthReceived m + of_nat w\<rparr>\<rparr>
           | OutPayload n w \<Rightarrow>
               h\<lparr>sh_metrics := m\<lparr>BytesSent := BytesSent m + of_nat n, WireLengthSent := WireLengthSent m + of_nat w\<rparr>\<rparr>
           | OtherStats \<Rightarrow> h)"

text \<open>The view a tunnel has of a session that keeps these statistics.\<close>

definition session_view :: "stats_handler \<Rightarrow> session \<Rightarrow> session" where
  "session_view h x = x\<lparr>sess_metrics := Some (sh_metrics h), idle_sig := sh_idle h\<rparr>"

text \<open>The end of the last stream is what the tunnel's model of the mux layer calls a change of the stream
  count: the count and the idle signal are the same.\<close>

lemma HandleRPC_refines:
  assumes "sessions w s = session_view h x"
  shows "let h' = HandleRPC True (RpcEnd ok) h; w' = set_streams s (NumStreams (sh_metrics h) - 1) w
    in idle_sig (sessions w' s) = sh_idle h' \<and> num_streams (sessions w' s) = NumStreams (sh_metrics h')"
  using assms by (simp add: HandleRPC_def set_streams_def session_view_def num_streams_def Let_def)

fun streams_after :: "(bool \<times> rpc_stats) list \<Rightarrow> int" where
  "streams_after [] = 0"
| "streams_after ((tracked, v) # vs) =
     streams_after vs + (if tracked then case v of RpcBegin \<Rightarrow> 1 | RpcEnd _ \<Rightarrow> -1 | _ \<Rightarrow> 0 else 0)"

definition run_stats :: "(bool \<times> rpc_stats) list \<Rightarrow> stats_handler" where
  "run_stats vs = fold (\<lambda>(t, v). HandleRPC t v) vs newMuxStatsHandler"

lemma HandleRPC_count:
  "NumStreams (sh_metrics (HandleRPC t v h)) = NumStreams (sh_metrics h) + streams_after [(t, v)]"
  by (cases v) (simp_all add: HandleRPC_def Let_def)

lemma run_count: "NumStreams (sh_metrics (fold (\<lambda>(t, v). HandleRPC t v) vs h)) = NumStreams (sh_metrics h) + streams_after vs"
  by (induction vs arbitrary: h) (auto simp: HandleRPC_count)

text \<open>The stream count never sees the Control RPC, and the end of the last stream leaves the idle signal set.\<close>

lemma idle_after_last:
  "NumStreams (sh_metrics (run_stats vs)) = streams_after vs"
  "streams_after (vs @ [(True, RpcEnd ok)]) = 0 \<Longrightarrow> sh_idle (run_stats (vs @ [(True, RpcEnd ok)]))"
proof -
  show n: "NumStreams (sh_metrics (run_stats vs)) = streams_after vs" for vs
    by (simp add: run_stats_def run_count newMuxStatsHandler_def zero_metrics_def)
  assume "streams_after (vs @ [(True, RpcEnd ok)]) = 0"
  moreover have "streams_after (vs @ [(True, RpcEnd ok)]) = streams_after vs - 1"
    by (induction vs rule: streams_after.induct) auto
  ultimately have "NumStreams (sh_metrics (run_stats vs)) = 1" using n by simp
  then show "sh_idle (run_stats (vs @ [(True, RpcEnd ok)]))" by (simp add: run_stats_def HandleRPC_def Let_def)
qed

section \<open>The identity exchange\<close>

text \<open>What both transports do: the client sends its identity claim and whether it rejects inbound streams,
  the server reads it and answers with its own.  \<open>ok\<close> are the parameters a side can send.\<close>

locale identity_exchange =
  fixes ok :: "string \<times> bool \<Rightarrow> bool"
    and hello :: "string \<times> bool \<Rightarrow> 'm" and ack :: "string \<times> bool \<Rightarrow> 'm"
    and read_hello :: "'m \<Rightarrow> (string \<times> bool) option" and read_ack :: "'m \<Rightarrow> (string \<times> bool) option"
  assumes read_hello: "ok p \<Longrightarrow> read_hello (hello p) = Some p"
    and read_ack: "ok p \<Longrightarrow> read_ack (ack p) = Some p"
begin

text \<open>Both sides learn exactly what the other claimed.\<close>

lemma agreement:
  assumes "ok client" and "ok server"
  shows "read_hello (hello client) = Some client \<and> read_ack (ack server) = Some server"
  using assms by (simp add: read_hello read_ack)

lemma claims_injective: "ok p \<Longrightarrow> ok q \<Longrightarrow> hello p = hello q \<or> ack p = ack q \<Longrightarrow> p = q"
  by (metis option.inject read_ack read_hello)

end

datatype control_msg = ClientHello string bool | ServerHello string bool | OpenRequest string | NoBody

datatype hs_error = HsSend | HsRecv | HsUnexpected

text \<open>\<open>send_ok\<close> is whether \<^verbatim>\<open>ctrl.Send\<close> succeeds, \<open>recv\<close> what \<^verbatim>\<open>ctrl.Recv\<close> returns.  The results are the messages sent and
  the peer's identity and reject flag.\<close>

definition doClientHandshake ::
  "bool \<Rightarrow> control_msg option \<Rightarrow> string \<Rightarrow> bool \<Rightarrow> control_msg list \<times> (hs_error + string \<times> bool)" where
  "doClientHandshake send_ok recv localID rejectInbound =
     (if \<not> send_ok then ([], Inl HsSend)
      else ([ClientHello localID rejectInbound],
            case recv of
              None \<Rightarrow> Inl HsRecv
            | Some (ServerHello i r) \<Rightarrow> Inr (i, r)
            | Some _ \<Rightarrow> Inl HsUnexpected))"

definition doServerHandshake ::
  "control_msg option \<Rightarrow> bool \<Rightarrow> string \<Rightarrow> bool \<Rightarrow> control_msg list \<times> (hs_error + string \<times> bool)" where
  "doServerHandshake recv send_ok localID rejectInbound =
     (case recv of
        None \<Rightarrow> ([], Inl HsRecv)
      | Some (ClientHello i r) \<Rightarrow>
          if send_ok then ([ServerHello localID rejectInbound], Inr (i, r)) else ([], Inl HsSend)
      | Some _ \<Rightarrow> ([], Inl HsUnexpected))"

fun hello_params :: "control_msg \<Rightarrow> (string \<times> bool) option" where
  "hello_params (ClientHello i r) = Some (i, r)"
| "hello_params _ = None"

fun ack_params :: "control_msg \<Rightarrow> (string \<times> bool) option" where
  "ack_params (ServerHello i r) = Some (i, r)"
| "ack_params _ = None"

interpretation h2_exchange: identity_exchange "\<lambda>_. True" "\<lambda>p. ClientHello (fst p) (snd p)" "\<lambda>p. ServerHello (fst p) (snd p)" hello_params ack_params
  by unfold_locales simp_all

lemma doServerHandshake_params:
  "snd (doServerHandshake recv True i r) = (case recv of None \<Rightarrow> Inl HsRecv
     | Some m \<Rightarrow> (case hello_params m of None \<Rightarrow> Inl HsUnexpected | Some p \<Rightarrow> Inr p))"
  by (simp add: doServerHandshake_def split: option.split control_msg.split)

lemma doClientHandshake_params:
  "snd (doClientHandshake True recv i r) = (case recv of None \<Rightarrow> Inl HsRecv
     | Some m \<Rightarrow> (case ack_params m of None \<Rightarrow> Inl HsUnexpected | Some p \<Rightarrow> Inr p))"
  by (simp add: doClientHandshake_def split: option.split control_msg.split)

section \<open>The write timeout\<close>

text \<open>The deadline of the wrapped connection after the call, the result of the write and whether it was attempted.\<close>

definition wt_Write :: "bool \<Rightarrow> ('e + nat) \<Rightarrow> 'e \<Rightarrow> go_time \<Rightarrow> go_duration \<Rightarrow> ('e + nat) \<times> go_time list" where
  "wt_Write set_ok written set_err now timeout =
     (if \<not> set_ok then (Inl set_err, []) else (written, [now + timeout, 0]))"

end
