(* ===== verification/H2_Session.thy ===== *)
theory H2_Session
  imports H2_Support "HOL-Library.Multiset"
begin

text \<open>
  The sessions of h2mux, \<^verbatim>\<open>v4/mux/h2mux/session.go\<close>.  Connections are numbered in the order they are
  handed to the session; the state records where each one is: in the accept queue, in the hands of a
  deliverer, in the channel of a waiting \<^verbatim>\<open>Open\<close>, returned to a caller, or closed by the session.
  Every lock-protected section, channel operation and select of \<^verbatim>\<open>Open\<close>, \<^verbatim>\<open>DeliverStream\<close>, \<^verbatim>\<open>Accept\<close> and
  \<^verbatim>\<open>Close\<close> is a step, so that a schedule is an interleaving of the goroutines.
\<close>

section \<open>The interface of a session\<close>

locale mux_session =
  fixes sclose :: "'s \<Rightarrow> 's" and is_closed :: "'s \<Rightarrow> bool" and open_error :: "'s \<Rightarrow> 'e option" and closed_error :: 'e
  assumes close_closes: "is_closed (sclose s)"
    and close_idle: "is_closed s \<Longrightarrow> sclose s = s"
    and open_closed: "is_closed s \<Longrightarrow> open_error s = Some closed_error"
begin

lemma close_idempotent: "sclose (sclose s) = sclose s"
  by (simp add: close_idle close_closes)

lemma open_after_close: "open_error (sclose s) = Some closed_error"
  by (simp add: open_closed close_closes)

end

locale mux_session_machine = mux_session +
  fixes step :: "'ev \<Rightarrow> 's \<Rightarrow> 's option"
  assumes closed_stays: "is_closed s \<Longrightarrow> step e s = Some t \<Longrightarrow> is_closed t"
begin

lemma exec_closed: "is_closed s \<Longrightarrow> exec step es s = Some t \<Longrightarrow> is_closed t"
  by (induction es arbitrary: s) (auto split: option.splits dest: closed_stays)

text \<open>Once closed, a session stays closed and refuses every later \<^verbatim>\<open>Open\<close> with the error for closed sessions.\<close>

lemma open_refused:
  assumes "exec step es (sclose s) = Some t"
  shows "is_closed t \<and> open_error t = Some closed_error \<and> sclose t = t"
  using exec_closed [OF close_closes assms] by (simp add: open_closed close_idle)

end

section \<open>Common state\<close>

type_synonym conn = nat

datatype open_result = Opened conn | ErrSessionClosed | ErrInboundRejected | ErrContext | ErrSend | ErrStream

record h2_sess =
  h_closed :: bool
  h_rejects :: bool               \<comment> \<open>peerRejectsInbound\<close>
  h_acceptCh :: "conn list"       \<comment> \<open>capacity 16\<close>
  h_connsClosed :: "conn list"
  h_accepted :: "conn list"       \<comment> \<open>returned by Accept\<close>
  h_nextConn :: conn
  h_StreamsOpened :: u64
  h_StreamsAccepted :: u64
  h_cleanup :: bool               \<comment> \<open>cleanup is not nil\<close>
  h_cleanups :: nat               \<comment> \<open>calls of cleanup\<close>

definition acceptCap :: nat where
  "acceptCap = 16"

definition h2_IsClosed :: "'a h2_sess_scheme \<Rightarrow> bool" where
  "h2_IsClosed s = h_closed s"

text \<open>The checks at the head of both \<^verbatim>\<open>Open\<close> methods.\<close>

definition open_check :: "'a h2_sess_scheme \<Rightarrow> open_result option" where
  "open_check s =
     (if h2_IsClosed s then Some ErrSessionClosed else if h_rejects s then Some ErrInboundRejected else None)"

text \<open>A new connection is pushed into the accept queue, or closed when the session is closed; with both
  possible the select takes either.\<close>

definition push_accept :: "'a h2_sess_scheme \<Rightarrow> 'a h2_sess_scheme option" where
  "push_accept s =
     (if length (h_acceptCh s) < acceptCap
      then Some (s\<lparr>h_acceptCh := h_acceptCh s @ [h_nextConn s], h_nextConn := Suc (h_nextConn s),
                   h_StreamsAccepted := h_StreamsAccepted s + 1\<rparr>)
      else None)"

definition push_refused :: "'a h2_sess_scheme \<Rightarrow> 'a h2_sess_scheme option" where
  "push_refused s =
     (if h_closed s
      then Some (s\<lparr>h_connsClosed := h_connsClosed s @ [h_nextConn s], h_nextConn := Suc (h_nextConn s)\<rparr>) else None)"

text \<open>\<^verbatim>\<open>Accept\<close>: a queued connection, or the error once the session is closed and the queue empty, or it blocks.\<close>

definition h2_Accept :: "'a h2_sess_scheme \<Rightarrow> (open_result \<times> 'a h2_sess_scheme) option" where
  "h2_Accept s =
     (case h_acceptCh s of
        c # cs \<Rightarrow> Some (Opened c, s\<lparr>h_acceptCh := cs, h_accepted := h_accepted s @ [c]\<rparr>)
      | [] \<Rightarrow> if h_closed s then Some (ErrSessionClosed, s) else None)"

definition close_base :: "'a h2_sess_scheme \<Rightarrow> 'a h2_sess_scheme" where
  "close_base s = s\<lparr>h_closed := True, h_cleanups := h_cleanups s + of_bool (h_cleanup s)\<rparr>"

text \<open>\<^verbatim>\<open>recvControlLoop\<close>: the request ids for which \<^verbatim>\<open>onOpenRequest\<close> is started, until \<^verbatim>\<open>Recv\<close> fails.\<close>

fun recvControlLoop :: "bool \<Rightarrow> control_msg option list \<Rightarrow> string list" where
  "recvControlLoop handler [] = []"
| "recvControlLoop handler (None # ms) = []"
| "recvControlLoop handler (Some (OpenRequest rid) # ms) =
     (if rid = '''' \<or> \<not> handler then recvControlLoop handler ms else rid # recvControlLoop handler ms)"
| "recvControlLoop handler (Some _ # ms) = recvControlLoop handler ms"

section \<open>Client sessions\<close>

record cli_sess = h2_sess +
  c_cancelled :: bool             \<comment> \<open>streamCtxCancel was called\<close>

definition newClientSession :: "bool \<Rightarrow> cli_sess" where
  "newClientSession rejects = \<lparr>h_closed = False, h_rejects = rejects, h_acceptCh = [], h_connsClosed = [], h_accepted = [],
     h_nextConn = 0, h_StreamsOpened = 0, h_StreamsAccepted = 0, h_cleanup = True, h_cleanups = 0, c_cancelled = False\<rparr>"

text \<open>\<open>stream_ok\<close> is whether \<^verbatim>\<open>grpcClient.Stream\<close> succeeds.\<close>

definition cli_Open :: "bool \<Rightarrow> cli_sess \<Rightarrow> open_result \<times> cli_sess" where
  "cli_Open stream_ok s =
     (case open_check s of
        Some e \<Rightarrow> (e, s)
      | None \<Rightarrow>
          if \<not> stream_ok then (ErrStream, s)
          else (Opened (h_nextConn s), s\<lparr>h_nextConn := Suc (h_nextConn s), h_StreamsOpened := h_StreamsOpened s + 1\<rparr>))"

definition cli_Close :: "cli_sess \<Rightarrow> cli_sess" where
  "cli_Close s = (if h_closed s then s else (close_base s)\<lparr>c_cancelled := True\<rparr>)"

datatype cli_event = COpen bool | CDialForServer bool bool | CAccept | CClose

text \<open>\<^verbatim>\<open>dialStreamForServer\<close>: nothing happens when the RPC cannot be started; otherwise the select pushes or refuses.\<close>

definition dialStreamForServer :: "bool \<Rightarrow> bool \<Rightarrow> cli_sess \<Rightarrow> cli_sess option" where
  "dialStreamForServer stream_ok push s =
     (if \<not> stream_ok then Some s else if push then push_accept s else push_refused s)"

fun cli_step :: "cli_event \<Rightarrow> cli_sess \<Rightarrow> cli_sess option" where
  "cli_step (COpen stream_ok) s = Some (snd (cli_Open stream_ok s))"
| "cli_step (CDialForServer stream_ok push) s = dialStreamForServer stream_ok push s"
| "cli_step CAccept s = map_option snd (h2_Accept s)"
| "cli_step CClose s = Some (cli_Close s)"

interpretation cli_session: mux_session_machine cli_Close h2_IsClosed open_check ErrSessionClosed cli_step
proof
  fix s t :: cli_sess and e
  assume "h2_IsClosed s" and "cli_step e s = Some t"
  then show "h2_IsClosed t"
    by (cases e) (auto simp: h2_IsClosed_def cli_Open_def open_check_def dialStreamForServer_def push_accept_def push_refused_def
        h2_Accept_def cli_Close_def split: if_splits list.splits)
qed (simp_all add: h2_IsClosed_def cli_Close_def close_base_def open_check_def)

section \<open>Server sessions\<close>

text \<open>Where a call of \<^verbatim>\<open>Open\<close> is: sending the request, in its select, draining a claimed connection before it
  returns an error, or returned.  The connection meant for it is with the deliverer (\<open>w_flight\<close>) or in its
  channel of capacity 1 (\<open>w_chan\<close>).\<close>

datatype open_phase = WSend | WWait | WDrain open_result | WDone open_result

record waiter =
  w_phase :: open_phase
  w_flight :: "conn option"
  w_chan :: "conn option"

record srv_sess = h2_sess +
  h_openSeq :: u64
  h_pending :: "string \<rightharpoonup> nat"
  h_waiters :: "waiter list"

definition newServerSession :: "bool \<Rightarrow> srv_sess" where
  "newServerSession rejects = \<lparr>h_closed = False, h_rejects = rejects, h_acceptCh = [], h_connsClosed = [], h_accepted = [],
     h_nextConn = 0, h_StreamsOpened = 0, h_StreamsAccepted = 0, h_cleanup = False, h_cleanups = 0,
     h_openSeq = 0, h_pending = Map.empty, h_waiters = []\<rparr>"

text \<open>The request id of the \<open>i\<close>-th call that got past the checks.\<close>

definition rid_of :: "nat \<Rightarrow> string" where
  "rid_of i = nat_digits (unat (of_nat (Suc i) :: u64))"

text \<open>\<^verbatim>\<open>Open\<close> up to the registration of its channel.\<close>

definition srv_Open :: "srv_sess \<Rightarrow> open_result option \<times> srv_sess" where
  "srv_Open s =
     (case open_check s of
        Some e \<Rightarrow> (Some e, s)
      | None \<Rightarrow>
          let q = h_openSeq s + 1; rid = nat_digits (unat q); i = length (h_waiters s)
          in (None, s\<lparr>h_openSeq := q, h_pending := (h_pending s)(rid \<mapsto> i),
                      h_waiters := h_waiters s @ [\<lparr>w_phase = WSend, w_flight = None, w_chan = None\<rparr>]\<rparr>))"

definition set_waiter :: "nat \<Rightarrow> (waiter \<Rightarrow> waiter) \<Rightarrow> srv_sess \<Rightarrow> srv_sess" where
  "set_waiter i f s = s\<lparr>h_waiters := (h_waiters s)[i := f (h_waiters s ! i)]\<rparr>"

text \<open>\<^verbatim>\<open>abandon\<close>, followed by the return of the error or by the draining of the claimed connection.\<close>

definition abandon :: "nat \<Rightarrow> open_result \<Rightarrow> srv_sess \<Rightarrow> srv_sess" where
  "abandon i e s =
     (if h_pending s (rid_of i) = Some i
      then set_waiter i (\<lambda>w. w\<lparr>w_phase := WDone e\<rparr>) (s\<lparr>h_pending := (h_pending s)(rid_of i := None)\<rparr>)
      else set_waiter i (\<lambda>w. w\<lparr>w_phase := WDrain e\<rparr>) s)"

text \<open>\<^verbatim>\<open>DeliverStream\<close> with a request id: claim the waiter, or close the connection.\<close>

definition deliver_claim :: "string \<Rightarrow> srv_sess \<Rightarrow> srv_sess" where
  "deliver_claim rid s =
     (let c = h_nextConn s; s = s\<lparr>h_nextConn := Suc c\<rparr>
      in case h_pending s rid of
           None \<Rightarrow> s\<lparr>h_connsClosed := h_connsClosed s @ [c]\<rparr>
         | Some i \<Rightarrow> set_waiter i (\<lambda>w. w\<lparr>w_flight := Some c\<rparr>) (s\<lparr>h_pending := (h_pending s)(rid := None)\<rparr>))"

definition srv_Close :: "srv_sess \<Rightarrow> srv_sess" where
  "srv_Close s = (if h_closed s then s else close_base s)"

datatype srv_event =
    SOpen
  | SSend nat bool           \<comment> \<open>ctrl.Send returns\<close>
  | SRecv nat                \<comment> \<open>the select takes the connection\<close>
  | SGiveUp nat bool         \<comment> \<open>the select sees the session closed, or the context done\<close>
  | SDrain nat
  | SClaim string            \<comment> \<open>a stream with a request id arrives\<close>
  | SHand nat                \<comment> \<open>the deliverer sends on the channel\<close>
  | SPush bool               \<comment> \<open>a stream without request id arrives; pushed or refused\<close>
  | SAccept
  | SClose
  | SWire                    \<comment> \<open>Server() sets cleanup\<close>

fun srv_step :: "srv_event \<Rightarrow> srv_sess \<Rightarrow> srv_sess option" where
  "srv_step SOpen s = Some (snd (srv_Open s))"
| "srv_step (SSend i ok) s =
     (if i < length (h_waiters s) \<and> w_phase (h_waiters s ! i) = WSend
      then Some (if ok then set_waiter i (\<lambda>w. w\<lparr>w_phase := WWait\<rparr>) s else abandon i ErrSend s) else None)"
| "srv_step (SRecv i) s =
     (if i < length (h_waiters s) \<and> w_phase (h_waiters s ! i) = WWait
      then case w_chan (h_waiters s ! i) of
             None \<Rightarrow> None
           | Some c \<Rightarrow> Some ((set_waiter i (\<lambda>w. w\<lparr>w_phase := WDone (Opened c), w_chan := None\<rparr>) s)
                              \<lparr>h_StreamsOpened := h_StreamsOpened s + 1\<rparr>)
      else None)"
| "srv_step (SGiveUp i closed) s =
     (if i < length (h_waiters s) \<and> w_phase (h_waiters s ! i) = WWait \<and> (closed \<longrightarrow> h_closed s)
      then Some (abandon i (if closed then ErrSessionClosed else ErrContext) s) else None)"
| "srv_step (SDrain i) s =
     (if i < length (h_waiters s)
      then case (w_phase (h_waiters s ! i), w_chan (h_waiters s ! i)) of
             (WDrain e, Some c) \<Rightarrow> Some ((set_waiter i (\<lambda>w. w\<lparr>w_phase := WDone e, w_chan := None\<rparr>) s)
                                          \<lparr>h_connsClosed := h_connsClosed s @ [c]\<rparr>)
           | _ \<Rightarrow> None
      else None)"
| "srv_step (SClaim rid) s = (if rid \<noteq> '''' then Some (deliver_claim rid s) else None)"
| "srv_step (SHand i) s =
     (if i < length (h_waiters s)
      then case (w_flight (h_waiters s ! i), w_chan (h_waiters s ! i)) of
             (Some c, None) \<Rightarrow> Some (set_waiter i (\<lambda>w. w\<lparr>w_flight := None, w_chan := Some c\<rparr>) s)
           | _ \<Rightarrow> None
      else None)"
| "srv_step (SPush push) s = (if push then push_accept s else push_refused s)"
| "srv_step SAccept s = map_option snd (h2_Accept s)"
| "srv_step SClose s = Some (srv_Close s)"
| "srv_step SWire s = Some (s\<lparr>h_cleanup := True\<rparr>)"

lemma set_waiter_closed [simp]: "h_closed (set_waiter i f s) = h_closed s"
  by (simp add: set_waiter_def)

interpretation srv_session: mux_session_machine srv_Close h2_IsClosed open_check ErrSessionClosed srv_step
proof
  fix s t :: srv_sess and e
  assume "h2_IsClosed s" and "srv_step e s = Some t"
  then show "h2_IsClosed t"
    by (cases e) (auto simp: h2_IsClosed_def srv_Open_def open_check_def abandon_def deliver_claim_def push_accept_def push_refused_def
        h2_Accept_def srv_Close_def Let_def split: if_splits list.splits option.splits open_phase.splits)
qed (simp_all add: h2_IsClosed_def srv_Close_def close_base_def open_check_def)

section \<open>Every connection is handed over exactly once\<close>

fun opt_mset :: "'a option \<Rightarrow> 'a multiset" where
  "opt_mset None = {#}"
| "opt_mset (Some x) = {#x#}"

fun phase_conns :: "open_phase \<Rightarrow> conn multiset" where
  "phase_conns (WDone (Opened c)) = {#c#}"
| "phase_conns _ = {#}"

definition conns_of :: "waiter \<Rightarrow> conn multiset" where
  "conns_of w = opt_mset (w_flight w) + opt_mset (w_chan w) + phase_conns (w_phase w)"

definition base_conns :: "srv_sess \<Rightarrow> conn multiset" where
  "base_conns s = mset (h_connsClosed s) + mset (h_acceptCh s) + mset (h_accepted s)"

text \<open>A registered waiter has no connection; one that was claimed has exactly one until it returns.\<close>

definition waiter_ok :: "bool \<Rightarrow> waiter \<Rightarrow> bool" where
  "waiter_ok registered w \<longleftrightarrow> (w_flight w = None \<or> w_chan w = None) \<and>
     (case w_phase w of
        WSend \<Rightarrow> registered = (w_flight w = None \<and> w_chan w = None)
      | WWait \<Rightarrow> registered = (w_flight w = None \<and> w_chan w = None)
      | WDrain e \<Rightarrow> \<not> registered \<and> (w_flight w \<noteq> None \<or> w_chan w \<noteq> None) \<and> (\<forall>c. e \<noteq> Opened c)
      | WDone e \<Rightarrow> \<not> registered \<and> w_flight w = None \<and> w_chan w = None)"

definition sess_good :: "srv_sess \<Rightarrow> bool" where
  "sess_good s \<longleftrightarrow> h_openSeq s = of_nat (length (h_waiters s))
     \<and> (\<forall>rid i. h_pending s rid = Some i \<longrightarrow> i < length (h_waiters s) \<and> rid = rid_of i)
     \<and> (\<forall>i < length (h_waiters s). waiter_ok (h_pending s (rid_of i) = Some i) (h_waiters s ! i))
     \<and> base_conns s + sum_list (map conns_of (h_waiters s)) = mset [0..<h_nextConn s]"

text \<open>Request ids repeat after \<open>2 ^ 64\<close> calls of \<^verbatim>\<open>Open\<close>.\<close>

definition sess_inv :: "srv_sess \<Rightarrow> bool" where
  "sess_inv s \<longleftrightarrow> (length (h_waiters s) < 2 ^ 64 \<longrightarrow> sess_good s)"

lemma rid_of_inj: "Suc i < 2 ^ 64 \<Longrightarrow> Suc j < 2 ^ 64 \<Longrightarrow> rid_of i = rid_of j \<longleftrightarrow> i = j"
  by (simp add: rid_of_def unat_of_nat del: of_nat_Suc)

lemma sum_list_update_mset:
  "i < length xs \<Longrightarrow> sum_list (map f (xs[i := y])) + f (xs ! i) = sum_list (map f xs) + (f y :: 'b multiset)"
  by (induction xs arbitrary: i) (auto simp: algebra_simps split: nat.splits)

lemma sess_good_waiter:
  assumes "sess_good s" and "length (h_waiters s) < 2 ^ 64" and "i < length (h_waiters s)"
    and "h_waiters s' = (h_waiters s)[i := w]" and "h_openSeq s' = h_openSeq s"
    and "\<And>rid. rid \<noteq> rid_of i \<Longrightarrow> h_pending s' rid = h_pending s rid"
    and "h_pending s' (rid_of i) = None \<or> h_pending s' (rid_of i) = Some i"
    and "waiter_ok (h_pending s' (rid_of i) = Some i) w"
    and "base_conns s' + conns_of w = base_conns s + conns_of (h_waiters s ! i) + D"
    and "mset [0..<h_nextConn s'] = mset [0..<h_nextConn s] + D"
  shows "sess_good s'"
proof -
  have len: "length (h_waiters s') = length (h_waiters s)" using assms(4) by simp
  have p: "j < length (h_waiters s) \<and> rid = rid_of j" if "h_pending s' rid = Some j" for rid j
  proof (cases "rid = rid_of i")
    case True
    with that assms(3,7) show ?thesis by auto
  next
    case False
    with that assms(1) assms(6) [OF False] show ?thesis by (simp add: sess_good_def)
  qed
  have w: "waiter_ok (h_pending s' (rid_of j) = Some j) (h_waiters s' ! j)" if j: "j < length (h_waiters s)" for j
  proof (cases "j = i")
    case True
    then show ?thesis using assms(3,4,8) by simp
  next
    case False
    then have "rid_of j \<noteq> rid_of i" using rid_of_inj [of j i] j assms(2,3) by simp
    then show ?thesis using assms(1) j False assms(6) [of "rid_of j"] by (simp add: assms(4) sess_good_def)
  qed
  have "base_conns s' + sum_list (map conns_of (h_waiters s')) = mset [0..<h_nextConn s']"
  proof -
    have "sum_list (map conns_of (h_waiters s')) + conns_of (h_waiters s ! i) = sum_list (map conns_of (h_waiters s)) + conns_of w"
      unfolding assms(4) by (rule sum_list_update_mset [OF assms(3)])
    then have "base_conns s' + sum_list (map conns_of (h_waiters s')) + conns_of (h_waiters s ! i)
        = (base_conns s' + conns_of w) + sum_list (map conns_of (h_waiters s))" by (simp add: ac_simps)
    also have "\<dots> = (base_conns s + sum_list (map conns_of (h_waiters s))) + D + conns_of (h_waiters s ! i)"
      unfolding assms(9) by (simp add: ac_simps)
    also have "base_conns s + sum_list (map conns_of (h_waiters s)) = mset [0..<h_nextConn s]" using assms(1) by (simp add: sess_good_def)
    finally show ?thesis using assms(10) by simp
  qed
  then show ?thesis using assms(1,5) len p w unfolding sess_good_def by metis
qed

text \<open>Steps that touch neither the waiters nor the registrations.\<close>

lemma sess_good_base:
  assumes "sess_good s" and "h_waiters s' = h_waiters s" and "h_openSeq s' = h_openSeq s" and "h_pending s' = h_pending s"
    and "base_conns s' = base_conns s + D" and "mset [0..<h_nextConn s'] = mset [0..<h_nextConn s] + D"
  shows "sess_good s'"
  using assms unfolding sess_good_def by (auto simp: ac_simps) 


lemma abandon_simps [simp]:
  "h_waiters (abandon i e s) = (h_waiters s)[i := (h_waiters s ! i)\<lparr>w_phase := if h_pending s (rid_of i) = Some i then WDone e else WDrain e\<rparr>]"
  "h_openSeq (abandon i e s) = h_openSeq s" "h_nextConn (abandon i e s) = h_nextConn s"
  "base_conns (abandon i e s) = base_conns s"
  "h_pending (abandon i e s) = (if h_pending s (rid_of i) = Some i then (h_pending s)(rid_of i := None) else h_pending s)"
  by (simp_all add: abandon_def set_waiter_def base_conns_def)

lemma phase_conns_err: "(\<forall>c. e \<noteq> Opened c) \<Longrightarrow> phase_conns (WDone e) = {#}"
  by (cases e) auto

lemma pending_own:
  assumes "sess_good s" and "length (h_waiters s) < 2 ^ 64" and "i < length (h_waiters s)" and "h_pending s (rid_of i) = Some j"
  shows "j = i"
proof -
  have "j < length (h_waiters s)" "rid_of i = rid_of j" using assms(1,4) by (auto simp: sess_good_def)
  then show ?thesis using rid_of_inj [of i j] assms(2,3) by simp
qed

lemma good_waiter_ok: "sess_good s \<Longrightarrow> i < length (h_waiters s) \<Longrightarrow> waiter_ok (h_pending s (rid_of i) = Some i) (h_waiters s ! i)"
  by (simp add: sess_good_def)

lemma good_abandon:
  assumes g: "sess_good s" and l: "length (h_waiters s) < 2 ^ 64" and i: "i < length (h_waiters s)"
    and ph: "w_phase (h_waiters s ! i) = WSend \<or> w_phase (h_waiters s ! i) = WWait" and e: "\<forall>c. e \<noteq> Opened c"
  shows "sess_good (abandon i e s)"
proof (rule sess_good_waiter [OF g l i, where D = "{#}"])
  show "h_waiters (abandon i e s) = (h_waiters s)[i := (h_waiters s ! i)\<lparr>w_phase := if h_pending s (rid_of i) = Some i then WDone e else WDrain e\<rparr>]"
    by simp
  show "waiter_ok (h_pending (abandon i e s) (rid_of i) = Some i)
      ((h_waiters s ! i)\<lparr>w_phase := if h_pending s (rid_of i) = Some i then WDone e else WDrain e\<rparr>)"
    using good_waiter_ok [OF g i] ph e by (auto simp: waiter_ok_def)
  show "base_conns (abandon i e s) + conns_of ((h_waiters s ! i)\<lparr>w_phase := if h_pending s (rid_of i) = Some i then WDone e else WDrain e\<rparr>)
      = base_conns s + conns_of (h_waiters s ! i) + {#}"
    using ph by (auto simp: conns_of_def phase_conns_err [OF e])
  show "h_pending (abandon i e s) (rid_of i) = None \<or> h_pending (abandon i e s) (rid_of i) = Some i"
    using pending_own [OF g l i] by (cases "h_pending s (rid_of i)") auto
qed (simp_all split: if_splits)

lemma good_open:
  assumes g: "sess_good s" and l: "Suc (length (h_waiters s)) < 2 ^ 64"
  shows "sess_good (snd (srv_Open s))"
proof (cases "open_check s")
  case (Some e)
  then show ?thesis using g by (simp add: srv_Open_def)
next
  case None
  let ?n = "length (h_waiters s)"
  have q: "h_openSeq s + 1 = of_nat (Suc ?n)" using g by (simp add: sess_good_def)
  have r: "nat_digits (unat (h_openSeq s + 1)) = rid_of ?n" by (simp only: q rid_of_def)
  have fresh: "rid_of j \<noteq> rid_of ?n" if "j < ?n" for j using rid_of_inj [of j ?n] that l by simp
  have p: "j < ?n \<and> rid = rid_of j" if "h_pending s rid = Some j" for rid j using g that by (simp add: sess_good_def)
  have "base_conns (snd (srv_Open s)) = base_conns s" "h_nextConn (snd (srv_Open s)) = h_nextConn s"
    "h_pending (snd (srv_Open s)) = (h_pending s)(rid_of ?n \<mapsto> ?n)"
    "h_waiters (snd (srv_Open s)) = h_waiters s @ [\<lparr>w_phase = WSend, w_flight = None, w_chan = None\<rparr>]"
    "h_openSeq (snd (srv_Open s)) = of_nat (Suc ?n)"
    unfolding q [symmetric] using None by (simp_all add: srv_Open_def base_conns_def Let_def r)
  then show ?thesis using g fresh p
    by (auto simp: sess_good_def nth_append waiter_ok_def conns_of_def less_Suc_eq)
qed

lemma good_claim:
  assumes g: "sess_good s" and l: "length (h_waiters s) < 2 ^ 64"
  shows "sess_good (deliver_claim rid s)"
proof (cases "h_pending s rid")
  case None
  then show ?thesis
    by (intro sess_good_base [OF g, where D = "{#h_nextConn s#}"]) (simp_all add: deliver_claim_def Let_def base_conns_def)
next
  case (Some i)
  then have i: "i < length (h_waiters s)" and r: "rid = rid_of i" using g by (auto simp: sess_good_def)
  have w: "waiter_ok True (h_waiters s ! i)" using good_waiter_ok [OF g i] Some r by simp
  show ?thesis
  proof (rule sess_good_waiter [OF g l i, where D = "{#h_nextConn s#}" and w = "(h_waiters s ! i)\<lparr>w_flight := Some (h_nextConn s)\<rparr>"])
    show "base_conns (deliver_claim rid s) + conns_of ((h_waiters s ! i)\<lparr>w_flight := Some (h_nextConn s)\<rparr>)
      = base_conns s + conns_of (h_waiters s ! i) + {#h_nextConn s#}"
      using Some w by (auto simp: deliver_claim_def Let_def set_waiter_def base_conns_def conns_of_def waiter_ok_def split: open_phase.splits)
  qed (use Some r w in \<open>auto simp: deliver_claim_def Let_def set_waiter_def waiter_ok_def split: open_phase.splits\<close>)
qed


text \<open>The steps of one waiter that leave the registrations alone.\<close>

lemma good_set:
  assumes g: "sess_good s" and l: "length (h_waiters s) < 2 ^ 64" and i: "i < length (h_waiters s)"
    and "waiter_ok (h_pending s (rid_of i) = Some i) (f (h_waiters s ! i))"
    and "h_waiters s' = h_waiters (set_waiter i f s)" and "h_pending s' = h_pending s" and "h_openSeq s' = h_openSeq s"
    and "h_nextConn s' = h_nextConn s"
    and "base_conns s' + conns_of (f (h_waiters s ! i)) = base_conns s + conns_of (h_waiters s ! i)"
  shows "sess_good s'"
proof (rule sess_good_waiter [OF g l i, where D = "{#}"])
  show "h_pending s' (rid_of i) = None \<or> h_pending s' (rid_of i) = Some i"
    using pending_own [OF g l i] assms(6) by (cases "h_pending s (rid_of i)") auto
  show "base_conns s' + conns_of (f (h_waiters s ! i)) = base_conns s + conns_of (h_waiters s ! i) + {#}" using assms(9) by simp
qed (use assms in \<open>simp_all add: set_waiter_def\<close>)

lemma srv_step_length: "srv_step e s = Some t \<Longrightarrow> length (h_waiters s) \<le> length (h_waiters t)"
  by (cases e) (auto simp: srv_Open_def set_waiter_def deliver_claim_def push_accept_def push_refused_def h2_Accept_def srv_Close_def close_base_def
      Let_def split: if_splits option.splits list.splits open_phase.splits)

lemma good_step:
  assumes st: "srv_step e s = Some t" and g: "sess_good s" and lt: "length (h_waiters t) < 2 ^ 64"
  shows "sess_good t"
proof -
  have l: "length (h_waiters s) < 2 ^ 64" using srv_step_length [OF st] lt by simp
  note ok = good_waiter_ok [OF g]
  show ?thesis
  proof (cases e)
    case SOpen
    have "Suc (length (h_waiters s)) < 2 ^ 64 \<or> snd (srv_Open s) = s"
      using lt st SOpen by (auto simp: srv_Open_def Let_def split: option.splits)
    then show ?thesis using good_open [OF g] g st SOpen by auto
  next
    case (SSend i b)
    then show ?thesis using st ok [of i] good_abandon [OF g l, of i ErrSend]
      by (auto split: if_splits intro!: good_set [OF g l, of i "\<lambda>w. w\<lparr>w_phase := WWait\<rparr>"]
          simp: waiter_ok_def set_waiter_def base_conns_def conns_of_def)
  next
    case (SRecv i)
    then obtain c where c: "i < length (h_waiters s)" "w_phase (h_waiters s ! i) = WWait" "w_chan (h_waiters s ! i) = Some c"
      "t = (set_waiter i (\<lambda>w. w\<lparr>w_phase := WDone (Opened c), w_chan := None\<rparr>) s)\<lparr>h_StreamsOpened := h_StreamsOpened s + 1\<rparr>"
      using st by (auto split: if_splits option.splits)
    show ?thesis
      by (rule good_set [OF g l c(1), of "\<lambda>w. w\<lparr>w_phase := WDone (Opened c), w_chan := None\<rparr>"])
        (use ok [OF c(1)] c in \<open>auto simp: waiter_ok_def set_waiter_def base_conns_def conns_of_def\<close>)
  next
    case (SGiveUp i b)
    then show ?thesis using st good_abandon [OF g l, of i] by (auto split: if_splits)
  next
    case (SDrain i)
    then obtain c e where c: "i < length (h_waiters s)" "w_phase (h_waiters s ! i) = WDrain e" "w_chan (h_waiters s ! i) = Some c"
      "t = (set_waiter i (\<lambda>w. w\<lparr>w_phase := WDone e, w_chan := None\<rparr>) s)\<lparr>h_connsClosed := h_connsClosed s @ [c]\<rparr>"
      using st by (auto split: if_splits option.splits open_phase.splits)
    then have "\<forall>c. e \<noteq> Opened c" using ok [OF c(1)] by (simp add: waiter_ok_def)
    then show ?thesis
      by (intro good_set [OF g l c(1), of "\<lambda>w. w\<lparr>w_phase := WDone e, w_chan := None\<rparr>"])
        (use ok [OF c(1)] c in \<open>auto simp: waiter_ok_def set_waiter_def base_conns_def conns_of_def phase_conns_err\<close>)
  next
    case (SClaim rid)
    then show ?thesis using st good_claim [OF g l] by (auto split: if_splits)
  next
    case (SHand i)
    then obtain c where c: "i < length (h_waiters s)" "w_flight (h_waiters s ! i) = Some c" "w_chan (h_waiters s ! i) = None"
      "t = set_waiter i (\<lambda>w. w\<lparr>w_flight := None, w_chan := Some c\<rparr>) s"
      using st by (auto split: if_splits option.splits)
    show ?thesis
      by (rule good_set [OF g l c(1), of "\<lambda>w. w\<lparr>w_flight := None, w_chan := Some c\<rparr>"])
        (use ok [OF c(1)] c in \<open>auto simp: waiter_ok_def set_waiter_def base_conns_def conns_of_def split: open_phase.splits\<close>)
  next
    case (SPush b)
    then show ?thesis using st
      by (intro sess_good_base [OF g, where D = "{#h_nextConn s#}"])
        (auto simp: push_accept_def push_refused_def base_conns_def atLeastLessThanSuc split: if_splits)
  next
    case SAccept
    then show ?thesis using st
      by (intro sess_good_base [OF g, where D = "{#}"]) (auto simp: h2_Accept_def base_conns_def split: if_splits list.splits)
  next
    case SClose
    then show ?thesis using st
      by (cases "h_closed s"; intro sess_good_base [OF g, where D = "{#}"]) (auto simp: srv_Close_def close_base_def base_conns_def)
  next
    case SWire
    then show ?thesis using st by (intro sess_good_base [OF g, where D = "{#}"]) (auto simp: base_conns_def)
  qed
qed

interpretation srv_invariant: invariant_machine srv_step sess_inv
proof
  fix s e t
  assume "sess_inv s" and st: "srv_step e s = Some t"
  then show "sess_inv t" using srv_step_length [OF st] good_step [OF st] by (auto simp: sess_inv_def)
qed


section \<open>Theorems\<close>

text \<open>The connections that some caller holds: returned by \<^verbatim>\<open>Accept\<close> or by \<^verbatim>\<open>Open\<close>.\<close>

definition returned :: "srv_sess \<Rightarrow> conn multiset" where
  "returned s = mset (h_accepted s) + sum_list (map (phase_conns \<circ> w_phase) (h_waiters s))"

definition in_transit :: "srv_sess \<Rightarrow> conn multiset" where
  "in_transit s = mset (h_acceptCh s) + sum_list (map (\<lambda>w. opt_mset (w_flight w) + opt_mset (w_chan w)) (h_waiters s))"

lemma base_conns_split:
  "base_conns s + sum_list (map conns_of (h_waiters s)) = mset (h_connsClosed s) + returned s + in_transit s"
proof -
  have "sum_list (map conns_of ws) = sum_list (map (phase_conns \<circ> w_phase) ws)
      + sum_list (map (\<lambda>w. opt_mset (w_flight w) + opt_mset (w_chan w)) ws)" for ws
    by (induction ws) (simp_all add: conns_of_def ac_simps)
  then show ?thesis by (simp add: base_conns_def returned_def in_transit_def ac_simps)
qed

lemma sess_inv_init: "sess_inv (newServerSession r)"
  by (simp add: sess_inv_def sess_good_def newServerSession_def base_conns_def)

text \<open>(C1) As long as fewer than \<open>2 ^ 64\<close> calls of \<^verbatim>\<open>Open\<close> were made, in every interleaving of \<^verbatim>\<open>Open\<close>, \<^verbatim>\<open>DeliverStream\<close>,
  \<^verbatim>\<open>Accept\<close> and \<^verbatim>\<open>Close\<close> of a server session each connection handed to the session is at exactly one place: closed by the
  session, returned to exactly one caller, queued, or on its way to one waiting \<^verbatim>\<open>Open\<close>.  No connection is misrouted to two
  callers and none is lost; a caller that gave up but whose request was claimed is always sent its connection, so its drain
  (\<open>SDrain\<close>) or the deliverer's send (\<open>SHand\<close>) can run, and that send never blocks on a full channel.\<close>

theorem connections_exactly_once:
  assumes "exec srv_step es (newServerSession r) = Some s" and "length (h_waiters s) < 2 ^ 64"
  shows "mset (h_connsClosed s) + returned s + in_transit s = mset [0..<h_nextConn s]
     \<and> (\<forall>i e. i < length (h_waiters s) \<longrightarrow> w_phase (h_waiters s ! i) = WDrain e
           \<longrightarrow> srv_step (SDrain i) s \<noteq> None \<or> srv_step (SHand i) s \<noteq> None)
     \<and> (\<forall>i c. i < length (h_waiters s) \<longrightarrow> w_flight (h_waiters s ! i) = Some c \<longrightarrow> srv_step (SHand i) s \<noteq> None)"
proof -
  have g: "sess_good s" using srv_invariant.exec_inv [OF sess_inv_init assms(1)] assms(2) by (simp add: sess_inv_def)
  then have "mset (h_connsClosed s) + returned s + in_transit s = mset [0..<h_nextConn s]"
    unfolding base_conns_split [symmetric] by (simp add: sess_good_def)
  moreover have "srv_step (SDrain i) s \<noteq> None \<or> srv_step (SHand i) s \<noteq> None"
    if "i < length (h_waiters s)" "w_phase (h_waiters s ! i) = WDrain e" for i e
    using good_waiter_ok [OF g that(1)] that by (auto simp: waiter_ok_def)
  moreover have "srv_step (SHand i) s \<noteq> None" if "i < length (h_waiters s)" "w_flight (h_waiters s ! i) = Some c" for i c
    using good_waiter_ok [OF g that(1)] that by (auto simp: waiter_ok_def)
  ultimately show ?thesis by blast
qed

text \<open>A peer dials back twice with the same request id, after the caller gave up on the first.\<close>

definition late_delivery :: "srv_event list" where
  "late_delivery = [SOpen, SSend 0 True, SClaim ''1'', SGiveUp 0 False, SClaim ''1'', SHand 0, SDrain 0, SPush True, SAccept]"

lemma nat_digits_1: "nat_digits (Suc 0) = ''1''"
  by code_simp

lemma late_delivery_run:
  "\<exists>s. exec srv_step late_delivery (newServerSession False) = Some s \<and> h_connsClosed s = [1, 0] \<and> h_accepted s = [2]
     \<and> length (h_waiters s) = 1"
  by (simp add: late_delivery_def newServerSession_def srv_Open_def open_check_def h2_IsClosed_def Let_def nat_digits_1 set_waiter_def
      deliver_claim_def abandon_def rid_of_def push_accept_def acceptCap_def h2_Accept_def)

theorem connections_exactly_once_witness:
  "\<exists>s. exec srv_step late_delivery (newServerSession False) = Some s \<and> h_connsClosed s = [1, 0]
     \<and> mset (h_connsClosed s) + returned s + in_transit s = mset [0..<h_nextConn s]"
proof -
  obtain s where s: "exec srv_step late_delivery (newServerSession False) = Some s" "h_connsClosed s = [1, 0]" "length (h_waiters s) = 1"
    using late_delivery_run by blast
  then show ?thesis using connections_exactly_once [OF s(1)] by auto
qed

text \<open>Closing a session of either side is final whatever runs afterwards: it stays closed, every later \<^verbatim>\<open>Open\<close> is refused
  with \<^verbatim>\<open>ErrSessionClosed\<close> before anything is sent to the peer, and closing again changes nothing.\<close>

theorem closed_session_refuses:
  "(exec cli_step ces (cli_Close c) = Some c' \<longrightarrow> h2_IsClosed c' \<and> cli_Open b c' = (ErrSessionClosed, c') \<and> cli_Close c' = c')
   \<and> (exec srv_step ses (srv_Close s) = Some s' \<longrightarrow> h2_IsClosed s' \<and> srv_Open s' = (Some ErrSessionClosed, s') \<and> srv_Close s' = s')"
  using cli_session.open_refused [of ces c c'] srv_session.open_refused [of ses s s'] by (simp add: cli_Open_def srv_Open_def)

theorem closed_session_refuses_witness:
  "\<exists>c' s'. exec cli_step [CDialForServer True True, CAccept] (cli_Close (newClientSession False)) = Some c'
     \<and> exec srv_step [SOpen, SPush False] (srv_Close (newServerSession False)) = Some s'
     \<and> cli_Open True c' = (ErrSessionClosed, c') \<and> srv_Open s' = (Some ErrSessionClosed, s')"
proof -
  obtain c' where c: "exec cli_step [CDialForServer True True, CAccept] (cli_Close (newClientSession False)) = Some c'"
    by (simp add: cli_Close_def newClientSession_def close_base_def dialStreamForServer_def push_accept_def acceptCap_def h2_Accept_def)
  obtain s' where s: "exec srv_step [SOpen, SPush False] (srv_Close (newServerSession False)) = Some s'"
    by (simp add: srv_Close_def newServerSession_def close_base_def srv_Open_def open_check_def h2_IsClosed_def push_refused_def)
  show ?thesis using c s closed_session_refuses [of _ "newClientSession False" c' True _ "newServerSession False" s'] by blast
qed

lemma closed_no_cleanup: "srv_step e s = Some t \<Longrightarrow> h_closed s \<Longrightarrow> h_cleanups t = h_cleanups s \<and> h_closed t"
  by (cases e) (auto simp: srv_Open_def set_waiter_def abandon_def deliver_claim_def push_accept_def push_refused_def h2_Accept_def srv_Close_def
      Let_def split: if_splits option.splits list.splits open_phase.splits)

lemma exec_no_cleanup: "exec srv_step es s = Some t \<Longrightarrow> h_closed s \<Longrightarrow> h_cleanups t = h_cleanups s"
  by (induction es arbitrary: s) (auto split: option.splits dest: closed_no_cleanup)

text \<open>\<^verbatim>\<open>Server\<close> stores the cleanup function only after the session is running.  When the session closes first, the cleanup
  that stops the gRPC server never runs, whatever happens afterwards.\<close>

theorem cleanup_lost:
  "\<exists>s. exec srv_step [SClose, SWire] (newServerSession r) = Some s \<and> h_cleanup s
     \<and> (\<forall>es t. exec srv_step es s = Some t \<longrightarrow> h_cleanups t = 0)"
proof -
  obtain s where s: "exec srv_step [SClose, SWire] (newServerSession r) = Some s" by simp
  then have "h_closed s" "h_cleanup s" "h_cleanups s = 0" by (auto simp: srv_Close_def close_base_def newServerSession_def)
  then show ?thesis using s exec_no_cleanup by fastforce
qed

theorem cleanup_lost_witness:
  "\<exists>s t. exec srv_step [SClose, SWire] (newServerSession False) = Some s \<and> exec srv_step [SClose, SOpen] s = Some t \<and> h_cleanups t = 0"
proof -
  obtain s where s: "exec srv_step [SClose, SWire] (newServerSession False) = Some s"
    "\<forall>es t. exec srv_step es s = Some t \<longrightarrow> h_cleanups t = 0" using cleanup_lost [of False] by blast
  moreover obtain t where "exec srv_step [SClose, SOpen] s = Some t" by simp
  ultimately show ?thesis by blast
qed

end
