(* ===== verification/Inbound.thy ===== *)
theory Inbound
  imports Prelude
begin

text \<open>
  What the accepted sessions of both transports have in common: \<^verbatim>\<open>h2InboundSession\<close> and
  \<^verbatim>\<open>h3InboundSession\<close> hold a connection on which the server-side handshake runs at most once, under a
  mutex, with a flag that is set after the outcome is stored.  The state and the contract
  (\<open>handshake_once\<close>) are here; the operations of each transport are in \<open>H2_Connect\<close> and \<open>H3_Connect\<close>.
\<close>

text \<open>Where a goroutine inside \<^verbatim>\<open>doHandshake\<close> is: past the first look at the flag, or in the handshake with the
  mutex held.\<close>

record ('ss, 'err) inbound =
  i_waiting :: "nat list"         \<comment> \<open>callers that wait for the mutex\<close>
  i_holder :: "nat option"        \<comment> \<open>the caller that holds it, running the handshake\<close>
  i_handshakeDone :: bool
  i_ss :: "'ss option"
  i_handshakeErr :: "'err option"
  i_ssClosed :: bool              \<comment> \<open>the established session was closed\<close>
  i_connClosed :: bool
  i_runs :: nat                   \<comment> \<open>handshakes started\<close>
  i_results :: "(nat \<times> ('err + 'ss)) list"   \<comment> \<open>what callers got from delegate\<close>

definition inbound_init :: "('ss, 'err) inbound" where
  "inbound_init = \<lparr>i_waiting = [], i_holder = None, i_handshakeDone = False, i_ss = None, i_handshakeErr = None,
     i_ssClosed = False, i_connClosed = False, i_runs = 0, i_results = []\<rparr>"

text \<open>What a caller that finds the flag set gets.  The flag is set after the outcome is stored.\<close>

definition outcome :: "('ss, 'err) inbound \<Rightarrow> ('err + 'ss) option" where
  "outcome s = (if i_handshakeDone s
     then case i_handshakeErr s of Some e \<Rightarrow> Some (Inl e) | None \<Rightarrow> map_option Inr (i_ss s)
     else None)"

definition stored_before_flag :: "('ss, 'err) inbound \<Rightarrow> bool" where
  "stored_before_flag s \<longleftrightarrow> (if i_handshakeDone s then outcome s \<noteq> None else i_handshakeErr s = None \<and> i_ss s = None)"

definition one_of :: "('ss, 'err) inbound \<Rightarrow> bool" where
  "one_of s \<longleftrightarrow> i_handshakeErr s = None \<or> i_ss s = None"

lemma outcome_done: "outcome s \<noteq> None \<Longrightarrow> i_handshakeDone s"
  by (auto simp: outcome_def split: if_splits)

definition add_result :: "nat \<Rightarrow> ('ss, 'err) inbound \<Rightarrow> ('ss, 'err) inbound" where
  "add_result c s = (case outcome s of None \<Rightarrow> s | Some r \<Rightarrow> s\<lparr>i_results := i_results s @ [(c, r)]\<rparr>)"

lemma add_result_simps [simp]:
  "i_runs (add_result c s) = i_runs s" "i_holder (add_result c s) = i_holder s"
  "i_handshakeDone (add_result c s) = i_handshakeDone s" "i_connClosed (add_result c s) = i_connClosed s"
  "i_ss (add_result c s) = i_ss s" "i_handshakeErr (add_result c s) = i_handshakeErr s"
  "outcome (add_result c s) = outcome s" "stored_before_flag (add_result c s) = stored_before_flag s"
  "x \<in> set (i_results (add_result c s)) \<longleftrightarrow> x \<in> set (i_results s) \<or> fst x = c \<and> outcome s = Some (snd x)"
  by (auto simp: add_result_def outcome_def stored_before_flag_def split: option.split)

text \<open>The other methods of an accepted session.  \<^verbatim>\<open>Open\<close> and \<^verbatim>\<open>Accept\<close> go through \<^verbatim>\<open>delegate\<close>, which gives the session or the error of the
  handshake; \<^const>\<open>None\<close> is a caller that still has to wait for it.  The accessors never wait and answer with a default \<open>d\<close> until
  there is a session.\<close>

definition inb_call :: "('ss \<Rightarrow> 'err + 'a) \<Rightarrow> ('ss, 'err) inbound \<Rightarrow> ('err + 'a) option" where
  "inb_call f s = (case outcome s of None \<Rightarrow> None | Some (Inl e) \<Rightarrow> Some (Inl e) | Some (Inr p) \<Rightarrow> Some (f p))"

definition inb_get :: "('ss \<Rightarrow> 'a) \<Rightarrow> 'a \<Rightarrow> ('ss, 'err) inbound \<Rightarrow> 'a" where
  "inb_get f d s = (if i_handshakeDone s then case i_ss s of Some p \<Rightarrow> f p | None \<Rightarrow> d else d)"

datatype ('ss, 'err) inbound_event =
    IEnter nat                    \<comment> \<open>a caller reads the flag\<close>
  | ILock nat                     \<comment> \<open>a caller gets the mutex and reads the flag again\<close>
  | IFinish "'err + 'ss"          \<comment> \<open>the handshake returns\<close>
  | IClose

text \<open>\<^verbatim>\<open>doHandshake\<close>, as \<^verbatim>\<open>Handshake\<close> and \<^verbatim>\<open>delegate\<close> call it: the flag without the mutex, the flag again under the mutex, the
  handshake, the store.  \<open>store\<close> is what the transport does with the result of the handshake, \<open>close_op\<close> its \<^verbatim>\<open>Close\<close>.\<close>

fun inbound_step ::
  "('err + 'ss \<Rightarrow> ('ss, 'err) inbound \<Rightarrow> ('ss, 'err) inbound) \<Rightarrow> (('ss, 'err) inbound \<Rightarrow> ('ss, 'err) inbound) \<Rightarrow>
   ('ss, 'err) inbound_event \<Rightarrow> ('ss, 'err) inbound \<Rightarrow> ('ss, 'err) inbound option" where
  "inbound_step store close_op (IEnter c) s =
     Some (if i_handshakeDone s then add_result c s else s\<lparr>i_waiting := i_waiting s @ [c]\<rparr>)"
| "inbound_step store close_op (ILock c) s =
     (if c \<in> set (i_waiting s) \<and> i_holder s = None
      then let s = s\<lparr>i_waiting := remove1 c (i_waiting s)\<rparr>
           in Some (if i_handshakeDone s then add_result c s else s\<lparr>i_holder := Some c, i_runs := Suc (i_runs s)\<rparr>)
      else None)"
| "inbound_step store close_op (IFinish r) s =
     (case i_holder s of None \<Rightarrow> None | Some c \<Rightarrow> Some (add_result c ((store r s)\<lparr>i_holder := None\<rparr>)))"
| "inbound_step store close_op IClose s = Some (close_op s)"

locale handshake_once =
  fixes step :: "('ss, 'err) inbound_event \<Rightarrow> ('ss, 'err) inbound \<Rightarrow> ('ss, 'err) inbound option"
  assumes starts: "step e s = Some t \<Longrightarrow> i_runs t \<noteq> i_runs s \<Longrightarrow>
        i_runs t = Suc (i_runs s) \<and> i_holder s = None \<and> \<not> i_handshakeDone s \<and> i_holder t \<noteq> None \<and> \<not> i_handshakeDone t"
    and holder: "step e s = Some t \<Longrightarrow> i_runs t = i_runs s \<Longrightarrow>
        i_holder t = i_holder s \<and> i_handshakeDone t = i_handshakeDone s \<or> (i_holder s \<noteq> None \<and> i_holder t = None \<and> outcome t \<noteq> None)"
    and stable: "step e s = Some t \<Longrightarrow> outcome s = Some r \<Longrightarrow> i_holder s = None \<Longrightarrow> outcome t = Some r \<and> i_holder t = None"
    and results: "step e s = Some t \<Longrightarrow> x \<in> set (i_results t) \<Longrightarrow> x \<in> set (i_results s) \<or> outcome t = Some (snd x)"
    and flag_last: "step e s = Some t \<Longrightarrow> stored_before_flag s \<Longrightarrow> stored_before_flag t"
    and failure_closes: "step e s = Some t \<Longrightarrow> stored_before_flag s \<Longrightarrow> outcome t = Some (Inl err) \<Longrightarrow> outcome s = Some (Inl err) \<or> i_connClosed t"
    and closed_stays: "step e s = Some t \<Longrightarrow> i_connClosed s \<Longrightarrow> i_connClosed t"
    and one_outcome: "step e s = Some t \<Longrightarrow> stored_before_flag s \<Longrightarrow> i_holder s = None \<or> \<not> i_handshakeDone s \<Longrightarrow> one_of s \<Longrightarrow> one_of t"
begin

text \<open>Before the handshake, during it, and after it.\<close>

definition once_inv :: "('ss, 'err) inbound \<Rightarrow> bool" where
  "once_inv s \<longleftrightarrow> stored_before_flag s \<and> (i_runs s = 0 \<and> i_holder s = None \<and> \<not> i_handshakeDone s \<and> i_results s = []
       \<or> i_runs s = 1 \<and> i_holder s \<noteq> None \<and> \<not> i_handshakeDone s \<and> i_results s = []
       \<or> i_runs s = 1 \<and> i_holder s = None \<and> outcome s \<noteq> None)
     \<and> (\<forall>x \<in> set (i_results s). outcome s = Some (snd x))
     \<and> (\<forall>err. outcome s = Some (Inl err) \<longrightarrow> i_connClosed s)"

lemma once_step:
  assumes inv: "once_inv s" and st: "step e s = Some t"
  shows "once_inv t"
proof -
  have f: "stored_before_flag s" "stored_before_flag t" using inv flag_last [OF st] by (simp_all add: once_inv_def)
  show ?thesis
  proof (cases "outcome s")
  case (Some r)
  then have "i_handshakeDone s" "i_holder s = None" using inv outcome_done [of s] by (auto simp: once_inv_def)
  moreover from this have "i_runs t = i_runs s" using starts [OF st] by auto
  ultimately show ?thesis
    using stable [OF st Some] results [OF st] failure_closes [OF st f(1)] closed_stays [OF st] inv Some f
    unfolding once_inv_def by fastforce
next
  case None
  then have rs: "i_results s = []" "\<not> i_handshakeDone s" using inv by (auto simp: once_inv_def)
  have res: "outcome t = Some (snd x)" if "x \<in> set (i_results t)" for x using results [OF st that] rs by simp
  have cl: "i_connClosed t" if "outcome t = Some (Inl err)" for err using failure_closes [OF st f(1) that] None by simp
  have nores: "i_results t = []" if "outcome t = None" using res that by (cases "i_results t") auto
  show ?thesis
  proof (cases "i_runs t = i_runs s")
    case True
    then show ?thesis using inv holder [OF st True] outcome_done [of t] res cl nores rs None f
      unfolding once_inv_def by (cases "i_holder s"; cases "outcome t") (auto split: if_splits)
  next
    case False
    then have "i_runs t = 1" "i_holder t \<noteq> None" "\<not> i_handshakeDone t"
      using starts [OF st False] inv rs None by (auto simp: once_inv_def)
    then show ?thesis using res cl nores outcome_done [of t] f unfolding once_inv_def by auto
  qed
qed
qed

lemma once_exec: "once_inv s \<Longrightarrow> exec step es s = Some t \<Longrightarrow> once_inv t"
  by (induction es arbitrary: s) (auto split: option.splits dest: once_step)

lemma once_init: "once_inv inbound_init"
  by (simp add: once_inv_def inbound_init_def outcome_def stored_before_flag_def)

lemma at_most_once:
  assumes "exec step es inbound_init = Some t"
  shows "i_runs t \<le> 1 \<and> (\<forall>x \<in> set (i_results t). outcome t = Some (snd x)) \<and> (\<forall>err. outcome t = Some (Inl err) \<longrightarrow> i_connClosed t)"
  using once_exec [OF once_init assms] by (auto simp: once_inv_def)

lemma outcome_exec:
  "once_inv s \<Longrightarrow> outcome s = Some r \<Longrightarrow> exec step es s = Some t \<Longrightarrow> outcome t = Some r"
proof (induction es arbitrary: s)
  case (Cons e es)
  then obtain u where u: "step e s = Some u" "exec step es u = Some t" by (auto split: option.splits)
  have "i_holder s = None" using Cons.prems(1,2) outcome_done [of s] by (auto simp: once_inv_def)
  then show ?case using Cons.IH [OF once_step [OF Cons.prems(1) u(1)] _ u(2)] stable [OF u(1) Cons.prems(2)] by blast
qed simp

text \<open>A call that got through always gets through to the same session, and an accessor that answers anything but its default answers
  for that session.\<close>

lemma call_stable:
  assumes "exec step es inbound_init = Some s" and "inb_call f s = Some r" and "exec step fs s = Some t"
  shows "inb_call f t = Some r"
proof -
  obtain q where "outcome s = Some q" using assms(2) by (auto simp: inb_call_def split: option.splits)
  moreover from this have "outcome t = Some q" by (rule outcome_exec [OF once_exec [OF once_init assms(1)] _ assms(3)])
  ultimately show ?thesis using assms(2) by (simp add: inb_call_def)
qed

lemma one_of_exec: "once_inv s \<Longrightarrow> one_of s \<Longrightarrow> exec step es s = Some t \<Longrightarrow> one_of t"
proof (induction es arbitrary: s)
  case (Cons e es)
  then obtain u where u: "step e s = Some u" "exec step es u = Some t" by (auto split: option.splits)
  have "stored_before_flag s" "i_holder s = None \<or> \<not> i_handshakeDone s" using Cons.prems(1) by (auto simp: once_inv_def)
  then have "one_of u" using one_outcome [OF u(1)] Cons.prems(2) by blast
  then show ?case using Cons.IH [OF once_step [OF Cons.prems(1) u(1)] _ u(2)] by blast
qed simp

lemma get_answers:
  assumes "exec step es inbound_init = Some s" and "inb_get f d s \<noteq> d"
  shows "inb_call (\<lambda>p. Inr (f p)) s = Some (Inr (inb_get f d s))"
proof -
  have "one_of s" by (rule one_of_exec [OF once_init _ assms(1)]) (simp add: one_of_def inbound_init_def)
  then show ?thesis using assms(2) by (auto simp: inb_get_def inb_call_def outcome_def one_of_def split: option.splits if_splits)
qed

end

text \<open>What a transport has to provide: its store sets the flag and closes the connection on failure, its close
  leaves the outcome alone.\<close>

locale inbound_ops =
  fixes store :: "'err + 'ss \<Rightarrow> ('ss, 'err) inbound \<Rightarrow> ('ss, 'err) inbound"
    and close_op :: "('ss, 'err) inbound \<Rightarrow> ('ss, 'err) inbound"
  assumes store_keeps: "i_runs (store r s) = i_runs s \<and> i_results (store r s) = i_results s"
    and store_flag: "i_handshakeDone (store r s)"
    and store_err: "i_handshakeErr (store (Inl e) s) = Some e \<and> i_connClosed (store (Inl e) s) \<and> i_ss (store (Inl e) s) = i_ss s"
    and store_ok: "i_handshakeErr (store (Inr p) s) = i_handshakeErr s \<and> i_ss (store (Inr p) s) = Some p"
    and store_closed: "i_connClosed s \<Longrightarrow> i_connClosed (store r s)"
    and close_keeps: "i_runs (close_op s) = i_runs s \<and> i_results (close_op s) = i_results s \<and> i_holder (close_op s) = i_holder s
        \<and> i_handshakeDone (close_op s) = i_handshakeDone s \<and> i_handshakeErr (close_op s) = i_handshakeErr s \<and> i_ss (close_op s) = i_ss s"
    and close_closed: "i_connClosed s \<Longrightarrow> i_connClosed (close_op s)"
begin

lemmas ops_simps [simp] = store_keeps store_flag store_err store_ok store_closed close_keeps close_closed

lemma outcome_upd [simp]:
  "outcome (s\<lparr>i_waiting := w\<rparr>) = outcome s" "outcome (s\<lparr>i_holder := h\<rparr>) = outcome s" "outcome (s\<lparr>i_runs := n\<rparr>) = outcome s"
  "outcome (close_op s) = outcome s"
  by (simp_all add: outcome_def split: option.split)

lemma stored_upd [simp]:
  "stored_before_flag (s\<lparr>i_waiting := w\<rparr>) = stored_before_flag s" "stored_before_flag (s\<lparr>i_holder := h\<rparr>) = stored_before_flag s"
  "stored_before_flag (s\<lparr>i_runs := n\<rparr>) = stored_before_flag s" "stored_before_flag (close_op s) = stored_before_flag s"
  by (simp_all add: stored_before_flag_def)

lemma outcome_store: "outcome (store r s) \<noteq> None" "outcome (store (Inl e) s) = Some (Inl e)"
  "outcome (store (Inr p) s) = (case i_handshakeErr s of Some e \<Rightarrow> Some (Inl e) | None \<Rightarrow> Some (Inr p))"
  by (cases r; simp add: outcome_def split: option.split)+

lemma stored_store: "stored_before_flag (store r s)"
  by (simp add: stored_before_flag_def outcome_store)

end

sublocale inbound_ops \<subseteq> handshake_once "inbound_step store close_op"
proof
  fix e s t assume st: "inbound_step store close_op e s = Some t"
  { assume "i_runs t \<noteq> i_runs s"
    then show "i_runs t = Suc (i_runs s) \<and> i_holder s = None \<and> \<not> i_handshakeDone s \<and> i_holder t \<noteq> None \<and> \<not> i_handshakeDone t"
      using st by (cases e) (auto simp: Let_def split: if_splits option.splits) }
  { assume "i_runs t = i_runs s"
    then show "i_holder t = i_holder s \<and> i_handshakeDone t = i_handshakeDone s \<or> (i_holder s \<noteq> None \<and> i_holder t = None \<and> outcome t \<noteq> None)"
      using st by (cases e) (auto simp: Let_def outcome_store simp del: not_None_eq split: if_splits option.splits) }
  { fix r assume o: "outcome s = Some r" and "i_holder s = None"
    moreover from o have "i_handshakeDone s" using outcome_done [of s] by simp
    ultimately show "outcome t = Some r \<and> i_holder t = None"
      using st by (cases e) (auto simp: Let_def split: if_splits option.splits) }
  { fix x assume "x \<in> set (i_results t)"
    then show "x \<in> set (i_results s) \<or> outcome t = Some (snd x)"
      using st by (cases e) (auto simp: Let_def split: if_splits option.splits) }
  { assume "stored_before_flag s"
    then show "stored_before_flag t"
      using st by (cases e) (auto simp: Let_def stored_store split: if_splits option.splits) }
  { fix err assume o1: "stored_before_flag s" and o2: "outcome t = Some (Inl err)"
    show "outcome s = Some (Inl err) \<or> i_connClosed t"
    proof (cases e)
      case (IFinish r)
      then obtain c where t: "t = add_result c ((store r s)\<lparr>i_holder := None\<rparr>)" using st by (auto split: option.splits)
      from o1 o2 show ?thesis
        by (cases r) (auto simp: t outcome_store stored_before_flag_def outcome_def split: option.splits if_splits)
    qed (use st o2 in \<open>auto simp: Let_def split: if_splits\<close>) }
  { assume "i_connClosed s"
    then show "i_connClosed t"
      using st by (cases e) (auto simp: Let_def split: if_splits option.splits) }
  { assume a: "stored_before_flag s" "i_holder s = None \<or> \<not> i_handshakeDone s" "one_of s"
    show "one_of t"
    proof (cases e)
      case (IFinish r)
      then obtain c where t: "t = add_result c ((store r s)\<lparr>i_holder := None\<rparr>)" "i_holder s \<noteq> None" using st by (auto split: option.splits)
      then have "i_ss s = None" "i_handshakeErr s = None" using a by (auto simp: stored_before_flag_def)
      then show ?thesis by (cases r) (auto simp: t(1) one_of_def)
    qed (use st a in \<open>auto simp: Let_def one_of_def split: if_splits\<close>) }
qed

end
