(* ===== verification/H2_Connect.thy ===== *)
theory H2_Connect
  imports Inbound H2_Session Mux_Config
begin

text \<open>
  Connection setup of h2mux, \<^verbatim>\<open>v4/mux/h2mux/connect.go\<close>: the client side (\<^verbatim>\<open>Dial\<close>, \<^verbatim>\<open>Client\<close>), the gRPC service
  of one accepted connection (\<^verbatim>\<open>muxServer\<close>) and the function that waits for it (\<^verbatim>\<open>Server\<close>) as interleaved steps,
  and the accepted session before its handshake (\<^verbatim>\<open>h2InboundSession\<close>).  What gRPC and the network return are
  arguments.
\<close>

section \<open>The client side\<close>

datatype conn_error = ErrDial | ErrDeadline | ErrNewClient | ErrControl | ErrHandshake hs_error | ErrCtx | ErrHandshakeFailed

datatype conn_layer = TLSLayer tlsc | WriteTimeoutLayer go_duration

text \<open>What the client side acquires: the connection, the gRPC channel and the session context.\<close>

record client_res =
  conn_open :: bool
  cc_open :: bool
  ctx_live :: bool

record client_env =
  e_deadline :: "bool option"     \<comment> \<open>whether ctx has a deadline and SetDeadline succeeds\<close>
  e_newClient :: bool             \<comment> \<open>grpc.NewClient succeeds\<close>
  e_control :: bool               \<comment> \<open>the Control RPC can be started\<close>
  e_handshake :: "(bool \<times> control_msg option) option"   \<comment> \<open>None when the context ends first\<close>

definition conn_layers :: "tlsc option \<Rightarrow> h2_config \<Rightarrow> conn_layer list" where
  "conn_layers cur cfg =
     (case h2_appliedTLSConfig cur cfg of None \<Rightarrow> [] | Some c \<Rightarrow> [TLSLayer c])
     @ (if h2_WriteTimeout cfg > 0 then [WriteTimeoutLayer (h2_WriteTimeout cfg)] else [])"

definition h2_Client ::
  "client_env \<Rightarrow> h2_config \<Rightarrow> client_res \<Rightarrow> (conn_error + string \<times> cli_sess) \<times> client_res" where
  "h2_Client e cfg r =
     (if e_deadline e = Some False then (Inl ErrDeadline, r)
      else if \<not> e_newClient e then (Inl ErrNewClient, r)
      else
        let r = r\<lparr>cc_open := True, ctx_live := True\<rparr>
        in if \<not> e_control e then (Inl ErrControl, r\<lparr>ctx_live := False, cc_open := False\<rparr>)
           else case e_handshake e of
                  None \<Rightarrow> (Inl ErrCtx, r\<lparr>ctx_live := False, cc_open := False\<rparr>)
                | Some (send_ok, recv) \<Rightarrow>
                    (case snd (doClientHandshake send_ok recv (h2_LocalID cfg) (h2_RejectInbound cfg)) of
                       Inl err \<Rightarrow> (Inl (ErrHandshake err), r\<lparr>ctx_live := False, cc_open := False\<rparr>)
                     | Inr (peerIdentity, rejects) \<Rightarrow> (Inr (peerIdentity, newClientSession rejects), r)))"

definition h2_Dial ::
  "bool \<Rightarrow> client_env \<Rightarrow> h2_config \<Rightarrow> (conn_error + string \<times> cli_sess) \<times> client_res" where
  "h2_Dial dial_ok e cfg =
     (let r = \<lparr>conn_open = False, cc_open = False, ctx_live = False\<rparr>
      in if \<not> dial_ok then (Inl ErrDial, r)
         else case h2_Client e cfg (r\<lparr>conn_open := True\<rparr>) of
                (Inl err, r) \<Rightarrow> (Inl err, r\<lparr>conn_open := False\<rparr>)
              | (Inr sess, r) \<Rightarrow> (Inr sess, r))"

text \<open>The dialer of the gRPC channel hands out the connection once; a reconnect of gRPC fails.\<close>

fun context_dialer :: "'c list \<Rightarrow> 'c option \<times> 'c list" where
  "context_dialer [] = (None, [])"
| "context_dialer (c # cs) = (Some c, cs)"

section \<open>The listener of one connection\<close>

record 'c one_conn_listener =
  ocl_ch :: "'c list"
  ocl_closed :: bool

definition newOneConnListener :: "'c \<Rightarrow> 'c one_conn_listener" where
  "newOneConnListener c = \<lparr>ocl_ch = [c], ocl_closed = False\<rparr>"

text \<open>\<open>None\<close>: the call blocks; \<open>Some None\<close>: \<^verbatim>\<open>net.ErrClosed\<close>.\<close>

definition ocl_Accept :: "'c one_conn_listener \<Rightarrow> ('c option \<times> 'c one_conn_listener) option" where
  "ocl_Accept l =
     (case ocl_ch l of
        c # cs \<Rightarrow> Some (Some c, l\<lparr>ocl_ch := cs\<rparr>)
      | [] \<Rightarrow> if ocl_closed l then Some (None, l) else None)"

definition ocl_Close :: "'c one_conn_listener \<Rightarrow> 'c one_conn_listener" where
  "ocl_Close l = l\<lparr>ocl_closed := True\<rparr>"

section \<open>The gRPC service\<close>

datatype control_error = ErrDuplicateControl | ErrCtlHandshake hs_error | ErrCtlCtx

datatype control_phase = CtlHandshake | CtlPublish | CtlHold | CtlReturned "control_error option"

datatype server_phase = SrvSelect | SrvReturned "conn_error + string"

record mux_server =
  m_localID :: string
  m_rejectInbound :: bool
  m_ready :: bool                 \<comment> \<open>a session in the channel ready, of capacity 1\<close>
  m_ctrlStarted :: bool
  m_sess :: "srv_sess option"
  m_peer :: string                \<comment> \<open>peerIdentity of sess\<close>
  m_sessReady :: nat              \<comment> \<open>how often sessReady was closed; twice is a panic\<close>
  m_controls :: "control_phase list"
  m_server :: server_phase
  m_stopped :: bool               \<comment> \<open>grpcSrv.Stop was called by Server\<close>
  m_hellos :: "(string \<times> bool) list"   \<comment> \<open>accepted ClientHellos\<close>

definition newMuxServer :: "h2_config \<Rightarrow> mux_server" where
  "newMuxServer cfg = \<lparr>m_localID = h2_LocalID cfg, m_rejectInbound = h2_RejectInbound cfg, m_ready = False, m_ctrlStarted = False,
     m_sess = None, m_peer = '''', m_sessReady = 0, m_controls = [], m_server = SrvSelect, m_stopped = False, m_hellos = []\<rparr>"

text \<open>A Control RPC arrives: the check for duplicates.\<close>

definition Control_begin :: "mux_server \<Rightarrow> mux_server" where
  "Control_begin m =
     (if m_ctrlStarted m then m\<lparr>m_controls := m_controls m @ [CtlReturned (Some ErrDuplicateControl)]\<rparr>
      else m\<lparr>m_ctrlStarted := True, m_controls := m_controls m @ [CtlHandshake]\<rparr>)"

text \<open>The hello exchange ends; on success the session is created and published.\<close>

definition Control_handshake :: "nat \<Rightarrow> control_msg option \<Rightarrow> bool \<Rightarrow> mux_server \<Rightarrow> mux_server" where
  "Control_handshake i recv send_ok m =
     (case snd (doServerHandshake recv send_ok (m_localID m) (m_rejectInbound m)) of
        Inl err \<Rightarrow> m\<lparr>m_controls := (m_controls m)[i := CtlReturned (Some (ErrCtlHandshake err))]\<rparr>
      | Inr (peerIdentity, rejects) \<Rightarrow>
          m\<lparr>m_sess := Some (newServerSession rejects), m_peer := peerIdentity, m_sessReady := Suc (m_sessReady m),
            m_controls := (m_controls m)[i := CtlPublish], m_hellos := m_hellos m @ [(peerIdentity, rejects)]\<rparr>)"

text \<open>The last select of \<^verbatim>\<open>Control\<close>: the session goes to \<^verbatim>\<open>Server\<close>, or the RPC ended and the session is closed.\<close>

definition Control_ready :: "nat \<Rightarrow> bool \<Rightarrow> mux_server \<Rightarrow> mux_server option" where
  "Control_ready i ctx_done m =
     (if ctx_done
      then Some (m\<lparr>m_sess := map_option srv_Close (m_sess m), m_controls := (m_controls m)[i := CtlReturned (Some ErrCtlCtx)]\<rparr>)
      else if m_ready m then None
      else Some (m\<lparr>m_ready := True, m_controls := (m_controls m)[i := CtlHold]\<rparr>))"

text \<open>A Stream RPC: it waits for the session, then \<^verbatim>\<open>DeliverStream\<close> routes its connection; \<open>push\<close> is the branch of
  the select there.\<close>

definition Stream_route :: "string list \<Rightarrow> bool \<Rightarrow> mux_server \<Rightarrow> mux_server option" where
  "Stream_route request_ids push m =
     (if m_sessReady m = 0 then None
      else case m_sess m of
             None \<Rightarrow> None
           | Some x \<Rightarrow>
               let rid = (case request_ids of [] \<Rightarrow> '''' | r # _ \<Rightarrow> r)
               in map_option (\<lambda>x. m\<lparr>m_sess := Some x\<rparr>) (srv_step (if rid \<noteq> '''' then SClaim rid else SPush push) x))"

text \<open>The select of \<^verbatim>\<open>Server\<close>.\<close>

definition Server_ready :: "mux_server \<Rightarrow> mux_server option" where
  "Server_ready m =
     (if m_server m = SrvSelect \<and> m_ready m
      then Some (m\<lparr>m_ready := False, m_sess := map_option (\<lambda>x. x\<lparr>h_cleanup := True\<rparr>) (m_sess m), m_server := SrvReturned (Inr (m_peer m))\<rparr>)
      else None)"

definition Server_ctx :: "mux_server \<Rightarrow> mux_server option" where
  "Server_ctx m =
     (if m_server m = SrvSelect
      then let m = m\<lparr>m_stopped := True, m_server := SrvReturned (Inl ErrCtx)\<rparr>
           in Some (if m_ready m then m\<lparr>m_ready := False, m_sess := map_option srv_Close (m_sess m)\<rparr> else m)
      else None)"

definition Server_serveDone :: "mux_server \<Rightarrow> mux_server option" where
  "Server_serveDone m =
     (if m_server m = SrvSelect then Some (m\<lparr>m_server := SrvReturned (Inl ErrHandshakeFailed)\<rparr>) else None)"

datatype mux_server_event =
    MControl
  | MHandshake nat "control_msg option" bool
  | MReady nat bool
  | MHoldEnd nat
  | MStream "string list" bool
  | MSession srv_event            \<comment> \<open>what the users of the session and its own goroutine do\<close>
  | MServerReady
  | MServerCtx
  | MServerServeDone

fun mux_server_step :: "mux_server_event \<Rightarrow> mux_server \<Rightarrow> mux_server option" where
  "mux_server_step MControl m = Some (Control_begin m)"
| "mux_server_step (MHandshake i recv send_ok) m =
     (if i < length (m_controls m) \<and> m_controls m ! i = CtlHandshake then Some (Control_handshake i recv send_ok m) else None)"
| "mux_server_step (MReady i ctx_done) m =
     (if i < length (m_controls m) \<and> m_controls m ! i = CtlPublish then Control_ready i ctx_done m else None)"
| "mux_server_step (MHoldEnd i) m =
     (if i < length (m_controls m) \<and> m_controls m ! i = CtlHold \<and> (\<exists>x \<in> set_option (m_sess m). h_closed x)
      then Some (m\<lparr>m_controls := (m_controls m)[i := CtlReturned None]\<rparr>) else None)"
| "mux_server_step (MStream rids push) m = Stream_route rids push m"
| "mux_server_step (MSession e) m =
     (case m_sess m of
        None \<Rightarrow> None
      | Some x \<Rightarrow> if e = SWire then None else map_option (\<lambda>x. m\<lparr>m_sess := Some x\<rparr>) (srv_step e x))"
| "mux_server_step MServerReady m = Server_ready m"
| "mux_server_step MServerCtx m = Server_ctx m"
| "mux_server_step MServerServeDone m = Server_serveDone m"


section \<open>The service accepts one control stream\<close>

lemma srv_step_keeps:
  assumes "srv_step e s = Some t"
  shows "h_rejects t = h_rejects s \<and> (h_cleanup s \<longrightarrow> h_cleanup t)"
  using assms
  by (cases e) (auto simp: srv_Open_def set_waiter_def abandon_def deliver_claim_def push_accept_def push_refused_def h2_Accept_def srv_Close_def
      close_base_def Let_def split: if_splits option.splits list.splits open_phase.splits)

definition returned_session :: "mux_server \<Rightarrow> bool" where
  "returned_session m \<longleftrightarrow> (\<exists>p. m_server m = SrvReturned (Inr p))"

fun control_ok :: "control_phase \<Rightarrow> mux_server \<Rightarrow> bool" where
  "control_ok CtlHandshake m = (m_hellos m = [])"
| "control_ok CtlPublish m = (m_hellos m \<noteq> [] \<and> \<not> m_ready m \<and> \<not> returned_session m)"
| "control_ok CtlHold m = (m_hellos m \<noteq> [])"
| "control_ok (CtlReturned e) m = (m_hellos m \<noteq> [] \<or> \<not> m_ready m)"

text \<open>The session is the one of the only accepted hello.\<close>

definition session_of :: "mux_server \<Rightarrow> bool" where
  "session_of m \<longleftrightarrow>
     (case m_hellos m of
        [] \<Rightarrow> m_sess m = None \<and> \<not> m_ready m \<and> \<not> returned_session m
      | [(p, r)] \<Rightarrow> m_peer m = p \<and> (\<exists>s. m_sess m = Some s \<and> h_rejects s = r \<and> (returned_session m \<longrightarrow> h_cleanup s))
          \<and> (\<forall>q. m_server m = SrvReturned (Inr q) \<longrightarrow> q = p)
      | _ \<Rightarrow> False)"

definition mux_server_inv :: "mux_server \<Rightarrow> bool" where
  "mux_server_inv m \<longleftrightarrow> m_sessReady m = length (m_hellos m) \<and> session_of m
     \<and> m_ctrlStarted m = (m_controls m \<noteq> [])
     \<and> (m_controls m = [] \<longrightarrow> m_hellos m = [])
     \<and> (m_controls m \<noteq> [] \<longrightarrow> control_ok (hd (m_controls m)) m)
     \<and> (\<forall>p \<in> set (tl (m_controls m)). p = CtlReturned (Some ErrDuplicateControl))"

lemma active_control:
  assumes "mux_server_inv m" and "i < length (m_controls m)" and "m_controls m ! i = p" and "p \<noteq> CtlReturned (Some ErrDuplicateControl)"
  shows "i = 0 \<and> (\<exists>ps. m_controls m = p # ps)"
proof (cases "m_controls m")
  case Nil
  with assms show ?thesis by simp
next
  case (Cons q qs)
  then show ?thesis using assms by (cases i) (auto simp: mux_server_inv_def)
qed

lemma session_of_update:
  assumes "session_of m" and "m_sess m = Some s" and "h_rejects t = h_rejects s" and "h_cleanup s \<longrightarrow> h_cleanup t"
  shows "session_of (m\<lparr>m_sess := Some t\<rparr>)"
  using assms by (auto simp: session_of_def returned_session_def split: list.splits prod.splits)

lemma inv_session_step:
  assumes "mux_server_inv m" and "m_sess m = Some s" and "srv_step e s = Some t"
  shows "mux_server_inv (m\<lparr>m_sess := Some t\<rparr>)"
proof -
  have "session_of (m\<lparr>m_sess := Some t\<rparr>)"
    using session_of_update [OF _ assms(2), of t] srv_step_keeps [OF assms(3)] assms(1) by (simp add: mux_server_inv_def)
  moreover have "control_ok p (m\<lparr>m_sess := Some t\<rparr>) = control_ok p m" for p by (cases p) (simp_all add: returned_session_def)
  ultimately show ?thesis using assms(1) by (simp add: mux_server_inv_def)
qed

lemma h_rejects_Close [simp]: "h_rejects (srv_Close s) = h_rejects s" "h_cleanup (srv_Close s) = h_cleanup s"
  by (simp_all add: srv_Close_def close_base_def)

lemma control_ok_cong:
  "m_hellos m' = m_hellos m \<Longrightarrow> m_ready m' = m_ready m \<Longrightarrow> m_server m' = m_server m \<Longrightarrow> control_ok p m' = control_ok p m"
  by (cases p) (simp_all add: returned_session_def)

lemma session_of_cong:
  "m_hellos m' = m_hellos m \<Longrightarrow> m_ready m' = m_ready m \<Longrightarrow> m_server m' = m_server m \<Longrightarrow> m_sess m' = m_sess m \<Longrightarrow> m_peer m' = m_peer m
   \<Longrightarrow> session_of m' = session_of m"
  by (simp only: session_of_def returned_session_def)

lemma inv_Control_begin: "mux_server_inv m \<Longrightarrow> mux_server_inv (Control_begin m)"
  using session_of_cong [of "Control_begin m" m] control_ok_cong [of "Control_begin m" m]
  by (cases "m_controls m") (auto simp: Control_begin_def mux_server_inv_def split: if_splits)

lemma inv_Control_handshake:
  assumes inv: "mux_server_inv m" and "i < length (m_controls m)" and "m_controls m ! i = CtlHandshake"
  shows "mux_server_inv (Control_handshake i recv send_ok m)"
proof -
  obtain ps where i: "i = 0" "m_controls m = CtlHandshake # ps" using active_control [OF assms] by auto
  then have h: "m_hellos m = []" "m_sess m = None" "\<not> m_ready m" "\<not> returned_session m"
    using inv by (auto simp: mux_server_inv_def session_of_def)
  show ?thesis
  proof (cases "snd (doServerHandshake recv send_ok (m_localID m) (m_rejectInbound m))")
    case (Inl e)
    then show ?thesis using inv i h by (auto simp: Control_handshake_def mux_server_inv_def session_of_def returned_session_def)
  next
    case (Inr x)
    then show ?thesis using inv i h
      by (cases x) (auto simp: Control_handshake_def mux_server_inv_def session_of_def returned_session_def newServerSession_def)
  qed
qed

lemma inv_Control_ready:
  assumes inv: "mux_server_inv m" and "i < length (m_controls m)" and "m_controls m ! i = CtlPublish" and "Control_ready i b m = Some m'"
  shows "mux_server_inv m'"
proof -
  obtain ps where i: "i = 0" "m_controls m = CtlPublish # ps" using active_control [OF assms(1-3)] by auto
  then show ?thesis using inv assms(4)
    by (auto simp: Control_ready_def mux_server_inv_def session_of_def returned_session_def split: if_splits list.splits)
qed

lemma session_of_hellos: "session_of m \<Longrightarrow> m_hellos m = [] \<or> (\<exists>h. m_hellos m = [h])"
  by (cases "m_hellos m"; cases "tl (m_hellos m)") (auto simp: session_of_def)

lemma inv_Server_ready: "mux_server_inv m \<Longrightarrow> Server_ready m = Some m' \<Longrightarrow> mux_server_inv m'"
proof -
  assume inv: "mux_server_inv m" and st: "Server_ready m = Some m'"
  then have m: "m_ready m" "m' = m\<lparr>m_ready := False, m_sess := map_option (\<lambda>x. x\<lparr>h_cleanup := True\<rparr>) (m_sess m), m_server := SrvReturned (Inr (m_peer m))\<rparr>"
    by (auto simp: Server_ready_def split: if_splits)
  moreover have "m_hellos m \<noteq> []" using m(1) inv by (auto simp: mux_server_inv_def session_of_def)
  ultimately obtain h where h: "m_hellos m = [h]" using inv session_of_hellos [of m] unfolding mux_server_inv_def by blast
  then have "session_of m'" using inv m by (auto simp: mux_server_inv_def session_of_def returned_session_def split: prod.splits)
  moreover have "control_ok p m'" if "control_ok p m" for p using that h m by (cases p) auto
  ultimately show ?thesis using inv h by (simp add: mux_server_inv_def m(2))
qed

text \<open>The other branches of the select return an error and at most close the session.\<close>

lemma inv_Server_fails:
  assumes inv: "mux_server_inv m" and "Server_ctx m = Some m' \<or> Server_serveDone m = Some m'"
  shows "mux_server_inv m'"
proof -
  have same: "m_hellos m' = m_hellos m" "m_peer m' = m_peer m" "m_sessReady m' = m_sessReady m" "m_controls m' = m_controls m"
    "m_ctrlStarted m' = m_ctrlStarted m" and r: "m_ready m' \<longrightarrow> m_ready m" "\<not> returned_session m'" "\<not> returned_session m"
    and s: "m_sess m' = m_sess m \<or> m_sess m' = map_option srv_Close (m_sess m)"
    using assms(2) by (auto simp: Server_ctx_def Server_serveDone_def returned_session_def Let_def split: if_splits)
  then have "session_of m'" using inv by (auto simp: mux_server_inv_def session_of_def returned_session_def split: list.splits prod.splits)
  moreover have "control_ok p m'" if "control_ok p m" for p using that same r by (cases p) auto
  ultimately show ?thesis using inv same by (simp add: mux_server_inv_def)
qed

interpretation mux_server_machine: invariant_machine mux_server_step mux_server_inv
proof
  fix m e m'
  assume inv: "mux_server_inv m" and st: "mux_server_step e m = Some m'"
  show "mux_server_inv m'"
  proof (cases e)
    case (MHoldEnd i)
    then have i: "i < length (m_controls m)" "m_controls m ! i = CtlHold" "m' = m\<lparr>m_controls := (m_controls m)[i := CtlReturned None]\<rparr>"
      using st by (auto split: if_splits)
    obtain ps where "i = 0" "m_controls m = CtlHold # ps" using active_control [OF inv i(1,2)] by auto
    then show ?thesis using inv i(3) session_of_cong [of m' m] by (auto simp: mux_server_inv_def)
  next
    case (MStream rids push)
    then obtain s e' t where "m_sess m = Some s" "srv_step e' s = Some t" "m' = m\<lparr>m_sess := Some t\<rparr>"
      using st by (auto simp: Stream_route_def Let_def simp del: srv_step.simps split: if_splits option.splits)
    then show ?thesis using inv_session_step [OF inv] by simp
  next
    case (MSession e)
    then show ?thesis using st inv_session_step [OF inv] by (auto simp del: srv_step.simps split: option.splits if_splits)
  next
    case MControl
    then show ?thesis using st inv_Control_begin [OF inv] by simp
  next
    case (MHandshake i recv b)
    then show ?thesis using st inv_Control_handshake [OF inv, of i recv b] by (simp split: if_splits)
  next
    case (MReady i b)
    then show ?thesis using st inv_Control_ready [OF inv, of i b m'] by (simp split: if_splits)
  qed (use st inv_Server_ready [OF inv, of m'] inv_Server_fails [OF inv, of m'] in simp_all)
qed

lemma mux_server_init: "mux_server_inv (newMuxServer cfg)"
  by (simp add: mux_server_inv_def newMuxServer_def session_of_def returned_session_def)

text \<open>(C12) On one accepted connection, in every interleaving of Control and Stream RPCs with the waiting \<^verbatim>\<open>Server\<close>: at most one
  hello is accepted and every further Control RPC is rejected as a duplicate, so the channel \<^verbatim>\<open>sessReady\<close> is never closed twice
  (which would crash the process); handing the session over never blocks; and the session that \<^verbatim>\<open>Server\<close> returns is the one of
  that hello, with the identity and the reject flag the peer sent and with its cleanup function set.\<close>

theorem one_control_stream:
  assumes "exec mux_server_step es (newMuxServer cfg) = Some m"
  shows "m_sessReady m \<le> 1 \<and> length (m_hellos m) \<le> 1
     \<and> (\<forall>p \<in> set (tl (m_controls m)). p = CtlReturned (Some ErrDuplicateControl))
     \<and> (\<forall>i < length (m_controls m). m_controls m ! i = CtlPublish \<longrightarrow> mux_server_step (MReady i False) m \<noteq> None)
     \<and> (\<forall>p. m_server m = SrvReturned (Inr p) \<longrightarrow>
           (\<exists>r x. m_hellos m = [(p, r)] \<and> m_peer m = p \<and> m_sess m = Some x \<and> h_rejects x = r \<and> h_cleanup x))"
proof -
  have inv: "mux_server_inv m" by (rule mux_server_machine.exec_inv [OF mux_server_init assms])
  then have s: "session_of m" "m_sessReady m = length (m_hellos m)"
    "\<forall>p \<in> set (tl (m_controls m)). p = CtlReturned (Some ErrDuplicateControl)" by (simp_all add: mux_server_inv_def)
  have "\<not> m_ready m" if "i < length (m_controls m)" "m_controls m ! i = CtlPublish" for i
    using active_control [OF inv that] inv by (auto simp: mux_server_inv_def)
  moreover have "length (m_hellos m) \<le> 1" using session_of_hellos [OF s(1)] by auto
  moreover have "\<exists>r x. m_hellos m = [(p, r)] \<and> m_peer m = p \<and> m_sess m = Some x \<and> h_rejects x = r \<and> h_cleanup x"
    if "m_server m = SrvReturned (Inr p)" for p
    using session_of_hellos [OF s(1)] s(1) that by (auto simp: session_of_def returned_session_def)
  ultimately show ?thesis using s by (auto simp: Control_ready_def)
qed

definition eager_peer :: "mux_server_event list" where
  "eager_peer = [MControl, MControl, MHandshake 0 (Some (ClientHello ''peer'' True)) True, MControl, MReady 0 False, MServerReady]"

definition sample_h2_config :: h2_config where
  "sample_h2_config = \<lparr>h2_LocalID = ''me'', h2_TLSConfig = None, h2_provider = False, h2_ServerName = '''', h2_ALPN = '''',
     h2_RejectInbound = False, h2_KeepAlive = 0, h2_PingTimeout = 0, h2_WriteTimeout = 0, h2_SessionWindow = 0, h2_StreamWindow = 0,
     h2_MaxConcurrentStreams = 0, h2_IdleTimeout = 0\<rparr>"

theorem one_control_stream_witness:
  "\<exists>m. exec mux_server_step eager_peer (newMuxServer sample_h2_config) = Some m \<and> m_server m = SrvReturned (Inr ''peer'')
     \<and> m_sessReady m \<le> 1 \<and> m_hellos m = [(''peer'', True)]
     \<and> tl (m_controls m) = [CtlReturned (Some ErrDuplicateControl), CtlReturned (Some ErrDuplicateControl)]"
proof -
  obtain m where m: "exec mux_server_step eager_peer (newMuxServer sample_h2_config) = Some m" "m_server m = SrvReturned (Inr ''peer'')"
    "m_hellos m = [(''peer'', True)]" "tl (m_controls m) = [CtlReturned (Some ErrDuplicateControl), CtlReturned (Some ErrDuplicateControl)]"
    by (simp add: eager_peer_def newMuxServer_def Control_begin_def Control_handshake_def doServerHandshake_def Control_ready_def Server_ready_def)
  then show ?thesis using one_control_stream [OF m(1)] by blast
qed

section \<open>Both ends\<close>

text \<open>Dialing leaks nothing: when \<^verbatim>\<open>Dial\<close> returns an error, whatever failed, the TCP connection is closed, the gRPC channel
  is closed and the session context is cancelled; when it returns a session all three are live and the session is open.\<close>

theorem dial_no_leak:
  "case h2_Dial dial_ok e cfg of
     (Inl _, r) \<Rightarrow> \<not> conn_open r \<and> \<not> cc_open r \<and> \<not> ctx_live r
   | (Inr (_, x), r) \<Rightarrow> conn_open r \<and> cc_open r \<and> ctx_live r \<and> \<not> h2_IsClosed x \<and> h_cleanup x"
  by (simp add: h2_Dial_def h2_Client_def Let_def newClientSession_def h2_IsClosed_def split: option.split sum.split prod.split)

text \<open>(C30) When the hello messages arrive, both ends agree: the client's session knows the server's identity and the server's
  session the client's, and each end's \<^verbatim>\<open>Open\<close> is refused with \<^verbatim>\<open>ErrInboundRejected\<close> exactly when the other end was
  configured to reject inbound streams.\<close>

theorem h2_handshake_agreement:
  assumes "e_deadline e \<noteq> Some False" and "e_newClient e" and "e_control e"
    and "fst (doServerHandshake (Some hello) True (h2_LocalID scfg) (h2_RejectInbound scfg)) = [reply]"
    and "fst (doClientHandshake True (Some reply) (h2_LocalID ccfg) (h2_RejectInbound ccfg)) = [hello]"
    and "e_handshake e = Some (True, Some reply)"
    and "exec mux_server_step [MControl, MHandshake 0 (Some hello) True, MReady 0 False, MServerReady] (newMuxServer scfg) = Some m"
  shows "m_server m = SrvReturned (Inr (h2_LocalID ccfg))
     \<and> (\<exists>s c r. m_sess m = Some s \<and> h2_Client e ccfg res = (Inr (h2_LocalID scfg, c), r)
          \<and> (open_check s = Some ErrInboundRejected \<longleftrightarrow> h2_RejectInbound ccfg)
          \<and> (open_check c = Some ErrInboundRejected \<longleftrightarrow> h2_RejectInbound scfg))"
proof -
  have h: "hello = ClientHello (h2_LocalID ccfg) (h2_RejectInbound ccfg)" using assms(5) by (simp add: doClientHandshake_def)
  then have r: "reply = ServerHello (h2_LocalID scfg) (h2_RejectInbound scfg)" using assms(4) by (simp add: doServerHandshake_def)
  show ?thesis using assms(1-3,6,7)
    by (auto simp: h r newMuxServer_def Control_begin_def Control_handshake_def doServerHandshake_params Control_ready_def Server_ready_def
        h2_Client_def doClientHandshake_params open_check_def h2_IsClosed_def newServerSession_def newClientSession_def)
qed


theorem h2_handshake_agreement_witness:
  "\<exists>m s c r. exec mux_server_step [MControl, MHandshake 0 (Some (ClientHello ''me'' False)) True, MReady 0 False, MServerReady]
       (newMuxServer (sample_h2_config\<lparr>h2_LocalID := ''you'', h2_RejectInbound := True\<rparr>)) = Some m
     \<and> m_server m = SrvReturned (Inr ''me'') \<and> m_sess m = Some s
     \<and> h2_Client \<lparr>e_deadline = Some True, e_newClient = True, e_control = True, e_handshake = Some (True, Some (ServerHello ''you'' True))\<rparr>
         sample_h2_config \<lparr>conn_open = True, cc_open = False, ctx_live = False\<rparr> = (Inr (''you'', c), r)
     \<and> open_check c = Some ErrInboundRejected \<and> open_check s \<noteq> Some ErrInboundRejected"
proof -
  let ?scfg = "sample_h2_config\<lparr>h2_LocalID := ''you'', h2_RejectInbound := True\<rparr>"
  let ?e = "\<lparr>e_deadline = Some True, e_newClient = True, e_control = True, e_handshake = Some (True, Some (ServerHello ''you'' True))\<rparr>"
  obtain m where m: "exec mux_server_step [MControl, MHandshake 0 (Some (ClientHello ''me'' False)) True, MReady 0 False, MServerReady]
       (newMuxServer ?scfg) = Some m"
    by (simp add: newMuxServer_def Control_begin_def Control_handshake_def doServerHandshake_def Control_ready_def Server_ready_def)
  have "m_server m = SrvReturned (Inr (h2_LocalID sample_h2_config))
     \<and> (\<exists>s c r. m_sess m = Some s \<and> h2_Client ?e sample_h2_config \<lparr>conn_open = True, cc_open = False, ctx_live = False\<rparr> = (Inr (h2_LocalID ?scfg, c), r)
          \<and> (open_check s = Some ErrInboundRejected \<longleftrightarrow> h2_RejectInbound sample_h2_config)
          \<and> (open_check c = Some ErrInboundRejected \<longleftrightarrow> h2_RejectInbound ?scfg))"
    by (rule h2_handshake_agreement [OF _ _ _ _ _ _ m]) (simp_all add: doServerHandshake_def doClientHandshake_def sample_h2_config_def)
  then show ?thesis using m by (auto simp: sample_h2_config_def)
qed

section \<open>Accepted sessions\<close>

text \<open>A session handle is the identity and the reject flag the handshake returned.\<close>

type_synonym peer = "string \<times> bool"

definition h2_store :: "conn_error + peer \<Rightarrow> (peer, conn_error) inbound \<Rightarrow> (peer, conn_error) inbound" where
  "h2_store r s =
     (case r of
        Inl e \<Rightarrow> s\<lparr>i_connClosed := True, i_handshakeErr := Some e, i_handshakeDone := True\<rparr>
      | Inr p \<Rightarrow> s\<lparr>i_ss := Some p, i_handshakeDone := True\<rparr>)"

definition h2_inb_Close :: "(peer, conn_error) inbound \<Rightarrow> (peer, conn_error) inbound" where
  "h2_inb_Close s =
     (if i_handshakeDone s then (if i_ss s \<noteq> None then s\<lparr>i_ssClosed := True\<rparr> else s) else s\<lparr>i_connClosed := True\<rparr>)"

definition h2_doHandshake :: "(peer, conn_error) inbound_event \<Rightarrow> (peer, conn_error) inbound \<Rightarrow> (peer, conn_error) inbound option" where
  "h2_doHandshake = inbound_step h2_store h2_inb_Close"

definition h2_inb_IsClosed :: "(peer, conn_error) inbound \<Rightarrow> bool" where
  "h2_inb_IsClosed s \<longleftrightarrow> i_handshakeDone s \<and> i_ss s \<noteq> None \<and> i_ssClosed s"

definition h2_inb_PeerIdentity :: "(peer, conn_error) inbound \<Rightarrow> string" where
  "h2_inb_PeerIdentity s = (if i_handshakeDone s then case i_ss s of Some p \<Rightarrow> fst p | None \<Rightarrow> '''' else '''')"

text \<open>\<^verbatim>\<open>Open\<close>, \<^verbatim>\<open>Accept\<close> and the accessors, given those of the inner session; a nil channel is \<^const>\<open>None\<close>.\<close>

definition h2_inb_Open :: "(peer \<Rightarrow> conn_error + 'c) \<Rightarrow> (peer, conn_error) inbound \<Rightarrow> (conn_error + 'c) option" where
  "h2_inb_Open open_op s = inb_call open_op s"

definition h2_inb_Accept :: "(peer \<Rightarrow> conn_error + 'c) \<Rightarrow> (peer, conn_error) inbound \<Rightarrow> (conn_error + 'c) option" where
  "h2_inb_Accept accept_op s = inb_call accept_op s"

definition h2_inb_CloseChan :: "(peer \<Rightarrow> 'a option) \<Rightarrow> (peer, conn_error) inbound \<Rightarrow> 'a option" where
  "h2_inb_CloseChan close_chan s = inb_get close_chan None s"

definition h2_inb_IdleChan :: "(peer \<Rightarrow> 'a option) \<Rightarrow> (peer, conn_error) inbound \<Rightarrow> 'a option" where
  "h2_inb_IdleChan idle_chan s = inb_get idle_chan None s"

definition h2_inb_Stats :: "(peer \<Rightarrow> 'a option) \<Rightarrow> (peer, conn_error) inbound \<Rightarrow> 'a option" where
  "h2_inb_Stats stats_op s = inb_get stats_op None s"

definition h2_inb_LocalAddr :: "(peer \<Rightarrow> 'a) \<Rightarrow> 'a \<Rightarrow> (peer, conn_error) inbound \<Rightarrow> 'a" where
  "h2_inb_LocalAddr addr conn_addr s = inb_get addr conn_addr s"

definition h2_inb_RemoteAddr :: "(peer \<Rightarrow> 'a) \<Rightarrow> 'a \<Rightarrow> (peer, conn_error) inbound \<Rightarrow> 'a" where
  "h2_inb_RemoteAddr addr conn_addr s = inb_get addr conn_addr s"

interpretation h2_inbound: inbound_ops h2_store h2_inb_Close
  by unfold_locales (auto simp: h2_store_def h2_inb_Close_def outcome_def split: sum.splits)

end
