(* ===== verification/H3_Handshake.thy ===== *)
theory H3_Handshake
  imports H2_Support H2_Codec
begin

text \<open>
  The identity exchange of h3mux, \<^verbatim>\<open>v4/mux/h3mux/handshake.go\<close>: a JSON message behind a big-endian length.
  JSON encoding and decoding are the fields of \<open>json_codec\<close>; the locale \<open>json_laws\<close> says what is relied on,
  gives the contract \<open>identity_exchange\<close> of \<open>H2_Support\<close>, and is interpreted on an encoder and decoder for
  identities that need no escapes.
\<close>

unbundle bit_operations_syntax

section \<open>The message format\<close>

record handshakeMsg =
  Identity :: string
  RejectInbound :: bool

record json_codec =
  json_Marshal :: "handshakeMsg \<Rightarrow> bytes option"
  json_Unmarshal :: "bytes \<Rightarrow> handshakeMsg option"

definition maxHandshakeMsgSize :: nat where
  "maxHandshakeMsgSize = 4096"

definition PutUint32 :: "u32 \<Rightarrow> bytes" where
  "PutUint32 v = [ucast (drop_bit 24 v), ucast (drop_bit 16 v), ucast (drop_bit 8 v), ucast v]"

definition Uint32 :: "bytes \<Rightarrow> u32" where
  "Uint32 b = ucast (b ! 3) OR push_bit 8 (ucast (b ! 2)) OR push_bit 16 (ucast (b ! 1)) OR push_bit 24 (ucast (b ! 0))"

datatype h3_hs_error = JsonEncode | MsgTooLarge nat | WriteHeader | WriteBody | ReadHeader | ReadBody | JsonDecode

text \<open>\<open>ok\<close> tells whether the write of the header and that of the body succeed; the second result is what was
  written.\<close>

definition writeHandshake :: "json_codec \<Rightarrow> bool \<times> bool \<Rightarrow> handshakeMsg \<Rightarrow> h3_hs_error option \<times> bytes" where
  "writeHandshake j ok msg =
     (case json_Marshal j msg of
        None \<Rightarrow> (Some JsonEncode, [])
      | Some data \<Rightarrow>
          if length data > maxHandshakeMsgSize then (Some (MsgTooLarge (length data)), [])
          else
            let hdr = PutUint32 (of_nat (length data))
            in if \<not> fst ok then (Some WriteHeader, [])
               else if \<not> snd ok then (Some WriteBody, hdr)
               else (None, hdr @ data))"

text \<open>\<^verbatim>\<open>io.ReadFull\<close> on a stream with the bytes \<open>r\<close>: an error when the stream ends early.\<close>

definition ReadFull :: "nat \<Rightarrow> bytes \<Rightarrow> (bytes \<times> bytes) option" where
  "ReadFull n r = (if n \<le> length r then Some (take n r, drop n r) else None)"

text \<open>The result, the bytes not consumed, and the size of the buffer that was allocated.\<close>

definition readHandshake :: "json_codec \<Rightarrow> bytes \<Rightarrow> (h3_hs_error + handshakeMsg) \<times> bytes \<times> nat" where
  "readHandshake j r =
     (case ReadFull 4 r of
        None \<Rightarrow> (Inl ReadHeader, [], 0)
      | Some (hdr, r) \<Rightarrow>
          let sz = Uint32 hdr
          in if sz > of_nat maxHandshakeMsgSize then (Inl (MsgTooLarge (unat sz)), r, 0)
             else case ReadFull (unat sz) r of
                    None \<Rightarrow> (Inl ReadBody, [], unat sz)
                  | Some (body, r) \<Rightarrow>
                      (case json_Unmarshal j body of
                         None \<Rightarrow> (Inl JsonDecode, r, unat sz)
                       | Some msg \<Rightarrow> (Inr msg, r, unat sz)))"

definition h3_doClientHandshake ::
  "json_codec \<Rightarrow> bool \<times> bool \<Rightarrow> bytes \<Rightarrow> string \<Rightarrow> bool \<Rightarrow> (h3_hs_error + string \<times> bool) \<times> bytes" where
  "h3_doClientHandshake j ok input localID rejectInbound =
     (let hello = \<lparr>Identity = localID, RejectInbound = rejectInbound\<rparr>
      in case writeHandshake j ok hello of
           (Some e, out) \<Rightarrow> (Inl e, out)
         | (None, out) \<Rightarrow>
             (case fst (readHandshake j input) of
                Inl e \<Rightarrow> (Inl e, out)
              | Inr reply \<Rightarrow> (Inr (Identity reply, RejectInbound reply), out)))"

definition h3_doServerHandshake ::
  "json_codec \<Rightarrow> bool \<times> bool \<Rightarrow> bytes \<Rightarrow> string \<Rightarrow> bool \<Rightarrow> (h3_hs_error + string \<times> bool) \<times> bytes" where
  "h3_doServerHandshake j ok input localID rejectInbound =
     (case fst (readHandshake j input) of
        Inl e \<Rightarrow> (Inl e, [])
      | Inr hello \<Rightarrow>
          let reply = \<lparr>Identity = localID, RejectInbound = rejectInbound\<rparr>
          in (case writeHandshake j ok reply of
                (Some e, out) \<Rightarrow> (Inl e, out)
              | (None, out) \<Rightarrow> (Inr (Identity hello, RejectInbound hello), out)))"

section \<open>Framing\<close>

lemma bit_byte:
  "n < 32 \<Longrightarrow> bit (push_bit k (ucast (ucast (drop_bit k v) :: byte)) :: u32) n \<longleftrightarrow> k \<le> n \<and> n < k + 8 \<and> bit (v :: u32) n"
  by (auto simp: bit_push_bit_iff bit_unsigned_iff bit_drop_bit_eq)

lemma Uint32_PutUint32: "Uint32 (PutUint32 v) = v"
proof (rule bit_eqI)
  fix n assume "possible_bit TYPE(32 word) n"
  then have n: "n < 32" by simp
  have "bit (Uint32 (PutUint32 v)) n \<longleftrightarrow> (n < 8 \<or> 8 \<le> n \<and> n < 16 \<or> 16 \<le> n \<and> n < 24 \<or> 24 \<le> n \<and> n < 32) \<and> bit v n"
    using bit_byte [OF n, of 0 v] bit_byte [OF n, of 8 v] bit_byte [OF n, of 16 v] bit_byte [OF n, of 24 v]
    by (simp add: Uint32_def PutUint32_def bit_or_iff) blast
  with n show "bit (Uint32 (PutUint32 v)) n = bit v n" by auto
qed

lemma length_PutUint32 [simp]: "length (PutUint32 v) = 4"
  by (simp add: PutUint32_def)

lemma small_size: "n \<le> maxHandshakeMsgSize \<Longrightarrow> unat (of_nat n :: u32) = n"
  by (simp add: unat_of_nat maxHandshakeMsgSize_def)

lemma frame_read:
  assumes "length data \<le> maxHandshakeMsgSize"
  shows "readHandshake j (PutUint32 (of_nat (length data)) @ data @ rest) =
     (case json_Unmarshal j data of None \<Rightarrow> (Inl JsonDecode, rest, length data) | Some msg \<Rightarrow> (Inr msg, rest, length data))"
proof -
  have "unat (of_nat (length data) :: u32) = length data" by (rule small_size [OF assms])
  moreover from this have "\<not> (of_nat (length data) :: u32) > of_nat maxHandshakeMsgSize"
    using assms small_size [of maxHandshakeMsgSize] by (simp add: word_less_nat_alt not_less)
  ultimately show ?thesis by (simp add: readHandshake_def ReadFull_def Uint32_PutUint32 Let_def split: option.split)
qed

text \<open>Reading a message is bounded whatever the peer sends: at most \<open>4 + 4096\<close> bytes are consumed, the buffer allocated has at most
  4096 bytes, and a header that announces more is refused before anything is allocated or read.\<close>

theorem handshake_read_bounded:
  "\<exists>used. input = used @ fst (snd (readHandshake j input)) \<and> length used \<le> 4 + maxHandshakeMsgSize
     \<and> snd (snd (readHandshake j input)) \<le> maxHandshakeMsgSize
     \<and> (4 \<le> length input \<longrightarrow> Uint32 (take 4 input) > of_nat maxHandshakeMsgSize \<longrightarrow>
          readHandshake j input = (Inl (MsgTooLarge (unat (Uint32 (take 4 input)))), drop 4 input, 0))"
proof (cases "4 \<le> length input")
  case False
  then show ?thesis by (intro exI [of _ input]) (simp add: readHandshake_def ReadFull_def)
next
  case True
  let ?sz = "Uint32 (take 4 input)"
  show ?thesis
  proof (cases "?sz > of_nat maxHandshakeMsgSize")
    case big: True
    then show ?thesis using True by (intro exI [of _ "take 4 input"]) (simp add: readHandshake_def ReadFull_def)
  next
    case False
    then have le: "unat ?sz \<le> maxHandshakeMsgSize"
      using small_size [of maxHandshakeMsgSize] by (simp add: not_less word_le_nat_alt)
    show ?thesis
      by (intro exI [of _ "take (4 + unat ?sz) input"])
        (use True False le in \<open>auto simp: readHandshake_def ReadFull_def Let_def not_le add.commute split: option.split\<close>)
  qed
qed

section \<open>The contract of the exchange\<close>

definition msg_of :: "string \<times> bool \<Rightarrow> handshakeMsg" where
  "msg_of p = \<lparr>Identity = fst p, RejectInbound = snd p\<rparr>"

definition read_params :: "json_codec \<Rightarrow> bytes \<Rightarrow> (string \<times> bool) option" where
  "read_params j input =
     (case fst (readHandshake j input) of Inl _ \<Rightarrow> None | Inr m \<Rightarrow> Some (Identity m, RejectInbound m))"

text \<open>What \<^verbatim>\<open>encoding/json\<close> promises for the messages that can be sent: it encodes them within the limit and decodes
  them back.\<close>

locale json_laws =
  fixes j :: json_codec and sendable :: "handshakeMsg \<Rightarrow> bool"
  assumes marshal: "sendable m \<Longrightarrow>
    \<exists>data. json_Marshal j m = Some data \<and> length data \<le> maxHandshakeMsgSize \<and> json_Unmarshal j data = Some m"
begin

lemma written:
  assumes "sendable m"
  shows "\<exists>data. writeHandshake j (True, True) m = (None, PutUint32 (of_nat (length data)) @ data) \<and> length data \<le> maxHandshakeMsgSize
     \<and> json_Unmarshal j data = Some m"
  using marshal [OF assms] by (auto simp: writeHandshake_def)

lemma read_back:
  assumes "sendable m" and "writeHandshake j (True, True) m = (None, out)"
  shows "fst (readHandshake j (out @ rest)) = Inr m \<and> fst (snd (readHandshake j (out @ rest))) = rest"
  using written [OF assms(1)] assms(2) frame_read [of _ j rest] by auto

end

context json_laws
begin

lemma params_back:
  assumes "sendable (msg_of p)"
  shows "read_params j (snd (writeHandshake j (True, True) (msg_of p))) = Some p"
  using written [OF assms] read_back [OF assms, of _ "[]"] by (auto simp: read_params_def msg_of_def)

end

sublocale json_laws \<subseteq> identity_exchange "sendable \<circ> msg_of" "\<lambda>p. snd (writeHandshake j (True, True) (msg_of p))"
  "\<lambda>p. snd (writeHandshake j (True, True) (msg_of p))" "read_params j" "read_params j"
  by unfold_locales (simp_all add: params_back)

section \<open>An encoding for identities without escapes\<close>

text \<open>What \<^verbatim>\<open>json.Marshal\<close> writes when no character of the identity has to be escaped.\<close>

definition plain :: "char \<Rightarrow> bool" where
  "plain c \<longleftrightarrow> 32 \<le> (of_char c :: nat) \<and> (of_char c :: nat) < 127 \<and> c \<notin> set [CHR 0x22, CHR 0x5C, CHR 0x3C, CHR 0x3E, CHR 0x26]"

definition id_key :: string where
  "id_key = ''{'' @ [CHR 0x22] @ ''identity'' @ [CHR 0x22] @ '':'' @ [CHR 0x22]"

definition rej_key :: string where
  "rej_key = [CHR 0x22] @ ''reject_inbound'' @ [CHR 0x22] @ '':true}''"

definition json_text :: "handshakeMsg \<Rightarrow> string" where
  "json_text m =
     (if Identity m = '''' then (if RejectInbound m then ''{'' @ rej_key else ''{}'')
      else id_key @ Identity m @ [CHR 0x22] @ (if RejectInbound m then '','' @ rej_key else ''}''))"

definition byte_of_char :: "char \<Rightarrow> byte" where
  "byte_of_char c = of_nat (of_char c)"

definition char_of_byte :: "byte \<Rightarrow> char" where
  "char_of_byte b = char_of (unat b)"

definition plain_text :: "string \<Rightarrow> handshakeMsg option" where
  "plain_text s =
     (if s = ''{}'' then Some \<lparr>Identity = '''', RejectInbound = False\<rparr>
      else if s = ''{'' @ rej_key then Some \<lparr>Identity = '''', RejectInbound = True\<rparr>
      else if take (length id_key) s = id_key
      then let r = drop (length id_key) s;
               i = takeWhile (\<lambda>c. c \<noteq> CHR 0x22) r; t = dropWhile (\<lambda>c. c \<noteq> CHR 0x22) r
           in if t = [CHR 0x22] @ ''}'' then Some \<lparr>Identity = i, RejectInbound = False\<rparr>
              else if t = [CHR 0x22] @ '','' @ rej_key then Some \<lparr>Identity = i, RejectInbound = True\<rparr>
              else None
      else None)"

definition plain_json :: json_codec where
  "plain_json = \<lparr>json_Marshal = (\<lambda>m. if list_all plain (Identity m) then Some (map byte_of_char (json_text m)) else None),
     json_Unmarshal = (\<lambda>b. plain_text (map char_of_byte b))\<rparr>"

definition plain_sendable :: "handshakeMsg \<Rightarrow> bool" where
  "plain_sendable m \<longleftrightarrow> list_all plain (Identity m) \<and> length (json_text m) \<le> maxHandshakeMsgSize"

lemma char_byte_char [simp]: "char_of_byte (byte_of_char c) = c"
proof -
  have "(of_char c :: nat) < 256" by simp
  then show ?thesis by (simp add: char_of_byte_def byte_of_char_def unat_of_nat)
qed

lemma takeWhile_plain: "list_all plain i \<Longrightarrow> takeWhile (\<lambda>c. c \<noteq> CHR 0x22) (i @ CHR 0x22 # t) = i \<and> dropWhile (\<lambda>c. c \<noteq> CHR 0x22) (i @ CHR 0x22 # t) = CHR 0x22 # t"
  by (induction i) (auto simp: plain_def)

lemma plain_text_json_text:
  fixes m :: handshakeMsg
  assumes "list_all plain (Identity m)"
  shows "plain_text (json_text m) = Some m"
proof (cases "Identity m = ''''")
  case True
  then show ?thesis by (cases m) (simp add: json_text_def plain_text_def rej_key_def)
next
  case False
  then obtain t where t: "json_text m = id_key @ Identity m @ CHR 0x22 # t" "t = (if RejectInbound m then '','' @ rej_key else ''}'')"
    by (simp add: json_text_def)
  moreover have "json_text m \<noteq> ''{}''" "json_text m \<noteq> ''{'' @ rej_key" using False by (simp_all add: t id_key_def rej_key_def)
  ultimately show ?thesis using takeWhile_plain [OF assms, of t] by (cases m) (auto simp: plain_text_def Let_def rej_key_def)
qed

interpretation h3_json: json_laws plain_json plain_sendable
proof
  fix m :: handshakeMsg
  assume "plain_sendable m"
  then show "\<exists>data. json_Marshal plain_json m = Some data \<and> length data \<le> maxHandshakeMsgSize \<and> json_Unmarshal plain_json data = Some m"
    by (auto simp: plain_sendable_def plain_json_def plain_text_json_text comp_def)
qed


section \<open>Agreement\<close>

lemma h3_client_params:
  assumes "writeHandshake j (True, True) (msg_of (i, r)) = (None, out)"
  shows "h3_doClientHandshake j (True, True) input i r =
     (case fst (readHandshake j input) of Inl e \<Rightarrow> Inl e | Inr m \<Rightarrow> Inr (Identity m, RejectInbound m), out)"
  using assms by (simp add: h3_doClientHandshake_def msg_of_def split: sum.split)

lemma h3_server_params:
  assumes "writeHandshake j (True, True) (msg_of (i, r)) = (None, out)" and "read_params j input = Some p"
  shows "h3_doServerHandshake j (True, True) input i r = (Inr p, out)"
  using assms by (auto simp: h3_doServerHandshake_def msg_of_def read_params_def split: sum.splits)

text \<open>(C29) Over a control stream that delivers what is written, both ends of an h3mux connection learn exactly the identity and the
  reject flag of the other, for every message that the JSON encoder can write within the size limit.\<close>

theorem h3_handshake_agreement:
  assumes "json_laws j sendable" and "sendable (msg_of (cid, crej))" and "sendable (msg_of (sid, srej))"
    and "h3_doClientHandshake j (True, True) sout cid crej = (cres, cout)"
    and "h3_doServerHandshake j (True, True) cout sid srej = (sres, sout)"
  shows "cres = Inr (sid, srej) \<and> sres = Inr (cid, crej)"
proof -
  note law = json_laws.written [OF assms(1)] json_laws.params_back [OF assms(1)]
  obtain c where c: "writeHandshake j (True, True) (msg_of (cid, crej)) = (None, c)" using law(1) [OF assms(2)] by blast
  obtain s where s: "writeHandshake j (True, True) (msg_of (sid, srej)) = (None, s)" using law(1) [OF assms(3)] by blast
  have "cout = c" using assms(4) h3_client_params [OF c] by simp
  moreover have "read_params j c = Some (cid, crej)" using law(2) [OF assms(2)] c by simp
  ultimately have "sres = Inr (cid, crej)" "sout = s" using assms(5) h3_server_params [OF s] by simp_all
  moreover have "read_params j s = Some (sid, srej)" using law(2) [OF assms(3)] s by simp
  ultimately show ?thesis using assms(4) h3_client_params [OF c, of sout] by (auto simp: read_params_def split: sum.splits)
qed

lemma plain_sample: "plain_sendable (msg_of (''client'', False))" "plain_sendable (msg_of (''server'', True))"
  by code_simp+

theorem h3_handshake_agreement_witness:
  "\<exists>cout sout. h3_doClientHandshake plain_json (True, True) sout ''client'' False = (Inr (''server'', True), cout)
     \<and> h3_doServerHandshake plain_json (True, True) cout ''server'' True = (Inr (''client'', False), sout)"
proof -
  obtain c where c: "writeHandshake plain_json (True, True) (msg_of (''client'', False)) = (None, c)"
    using h3_json.written [OF plain_sample(1)] by blast
  obtain s where s: "writeHandshake plain_json (True, True) (msg_of (''server'', True)) = (None, s)"
    using h3_json.written [OF plain_sample(2)] by blast
  obtain sres where sr: "h3_doServerHandshake plain_json (True, True) c ''server'' True = (sres, s)"
    using h3_server_params [OF s, of c] h3_json.params_back [OF plain_sample(1)] c by auto
  obtain cres where cr: "h3_doClientHandshake plain_json (True, True) s ''client'' False = (cres, c)"
    using h3_client_params [OF c] by blast
  show ?thesis using h3_handshake_agreement [OF h3_json.json_laws_axioms plain_sample cr sr] cr sr by auto
qed

text \<open>A message over the limit is refused by its sender before anything is written.\<close>

lemma oversize_refused:
  "json_Marshal j m = Some data \<Longrightarrow> length data > maxHandshakeMsgSize \<Longrightarrow> writeHandshake j ok m = (Some (MsgTooLarge (length data)), [])"
  by (simp add: writeHandshake_def)

theorem handshake_read_bounded_witness:
  "readHandshake plain_json ([0, 0, 16, 1] @ replicate 7 0) = (Inl (MsgTooLarge 4097), replicate 7 0, 0)"
proof -
  let ?input = "[0, 0, 16, 1] @ replicate 7 0 :: bytes"
  have u: "Uint32 (take 4 ?input) = 4097" by code_simp
  have "4 \<le> length ?input \<longrightarrow> Uint32 (take 4 ?input) > of_nat maxHandshakeMsgSize \<longrightarrow>
      readHandshake plain_json ?input = (Inl (MsgTooLarge (unat (Uint32 (take 4 ?input)))), drop 4 ?input, 0)"
    using handshake_read_bounded [of ?input plain_json] by blast
  moreover have "Uint32 (take 4 ?input) > of_nat maxHandshakeMsgSize" unfolding u by (simp add: maxHandshakeMsgSize_def)
  moreover have "4 \<le> length ?input" "drop 4 ?input = replicate 7 0" by simp_all
  ultimately show ?thesis by (simp only: u) simp
qed

end
