(* ===== verification/H3_Session.thy ===== *)
theory H3_Session
  imports H2_Session H3_Handshake
begin

text \<open>
  The sessions and streams of h3mux, \<^verbatim>\<open>v4/mux/h3mux/session.go\<close> and \<^verbatim>\<open>stream.go\<close>.  A session keeps its streams by
  index; the steps are the calls on the session and on its streams, and what the QUIC connection returns is in
  the event.  A call of \<^verbatim>\<open>Open\<close> is two steps, before and after the QUIC stream is opened, since the session may be
  closed in between.
\<close>

section \<open>Streams\<close>

text \<open>The receive side of a QUIC stream: the bytes that have arrived and what comes after them.\<close>

datatype rx_end = RxEOF | RxError | RxMore

record quic_stream =
  qs_rx :: bytes
  qs_end :: rx_end

datatype q_result = QBytes bytes | QEOF | QErr | QBlocked

text \<open>\<^verbatim>\<open>quic.Stream.Read\<close> into a buffer of \<open>n\<close> bytes: some of what has arrived, at least one byte; \<open>k\<close> is the number QUIC has
  ready in one frame.\<close>

definition qs_Read :: "nat \<Rightarrow> nat \<Rightarrow> 'a quic_stream_scheme \<Rightarrow> q_result \<times> 'a quic_stream_scheme" where
  "qs_Read n k q =
     (if qs_rx q = [] then (case qs_end q of RxEOF \<Rightarrow> QEOF | RxError \<Rightarrow> QErr | RxMore \<Rightarrow> QBlocked, q)
      else let l = min n (max 1 k) in (QBytes (take l (qs_rx q)), q\<lparr>qs_rx := drop l (qs_rx q)\<rparr>))"

record quic_conn = quic_stream +
  qc_stripMarker :: bool

definition openMarker :: bytes where
  "openMarker = [0]"

text \<open>\<^verbatim>\<open>quicConn.Read\<close>: an error while reading the marker is never \<^verbatim>\<open>io.EOF\<close> itself, it is wrapped.\<close>

definition qc_Read :: "nat \<Rightarrow> nat \<Rightarrow> quic_conn \<Rightarrow> q_result \<times> quic_conn" where
  "qc_Read n k c =
     (if qc_stripMarker c
      then case qs_rx c of
             [] \<Rightarrow> (case qs_end c of RxMore \<Rightarrow> QBlocked | _ \<Rightarrow> QErr, c)
           | m # rx \<Rightarrow> qs_Read n k (c\<lparr>qs_rx := rx, qc_stripMarker := False\<rparr>)
      else qs_Read n k c)"

section \<open>Sessions\<close>

text \<open>A stream handed out by the session, as \<^verbatim>\<open>countingConn\<close> around \<^verbatim>\<open>quicConn\<close> keeps it.\<close>

record h3_stream =
  k_closeOnce :: bool
  k_errored :: bool

record h3_sess =
  q_closed :: bool                \<comment> \<open>closedCh\<close>
  q_peerRejectsOpen :: bool
  q_metrics :: session_metrics
  q_idle :: bool                  \<comment> \<open>a token in idleCh, of capacity 1\<close>
  q_opening :: nat                \<comment> \<open>calls of Open waiting for OpenStreamSync\<close>
  q_streams :: "h3_stream list"
  q_connClosed :: nat             \<comment> \<open>calls of CloseWithError by the session\<close>

definition newH3Session :: "bool \<Rightarrow> session_metrics option \<Rightarrow> h3_sess" where
  "newH3Session peerRejectsOpen metrics =
     \<lparr>q_closed = False, q_peerRejectsOpen = peerRejectsOpen,
      q_metrics = (case metrics of None \<Rightarrow> zero_metrics | Some m \<Rightarrow> m),
      q_idle = False, q_opening = 0, q_streams = [], q_connClosed = 0\<rparr>"

definition h3_IsClosed :: "h3_sess \<Rightarrow> bool" where
  "h3_IsClosed s = q_closed s"

definition h3_close :: "h3_sess \<Rightarrow> h3_sess" where
  "h3_close s = (if q_closed s then s else s\<lparr>q_closed := True, q_connClosed := Suc (q_connClosed s)\<rparr>)"

definition onStreamClose :: "h3_sess \<Rightarrow> h3_sess" where
  "onStreamClose s =
     (let m = (q_metrics s)\<lparr>NumStreams := NumStreams (q_metrics s) - 1\<rparr>
      in s\<lparr>q_metrics := m, q_idle := (NumStreams m = 0 \<or> q_idle s)\<rparr>)"

definition wrapStream :: "h3_sess \<Rightarrow> h3_sess" where
  "wrapStream s = s\<lparr>q_streams := q_streams s @ [\<lparr>k_closeOnce = False, k_errored = False\<rparr>]\<rparr>"

definition h3_open_check :: "h3_sess \<Rightarrow> open_result option" where
  "h3_open_check s =
     (if h3_IsClosed s then Some ErrSessionClosed else if q_peerRejectsOpen s then Some ErrInboundRejected else None)"

datatype open_event = OpenStreamFails | MarkerFails | OpenSucceeds

text \<open>\<^verbatim>\<open>Open\<close> once \<^verbatim>\<open>OpenStreamSync\<close> and the write of the marker have returned.\<close>

definition h3_Open_end :: "open_event \<Rightarrow> h3_sess \<Rightarrow> open_result \<times> h3_sess" where
  "h3_Open_end ev s =
     (let m = q_metrics s
      in case ev of
           OpenSucceeds \<Rightarrow>
             (Opened (length (q_streams s)),
              wrapStream (s\<lparr>q_metrics := m\<lparr>StreamsOpened := StreamsOpened m + 1, NumStreams := NumStreams m + 1\<rparr>\<rparr>))
         | _ \<Rightarrow>
             (if h3_IsClosed s then ErrSessionClosed else ErrStream,
              s\<lparr>q_metrics := m\<lparr>StreamsFailed := StreamsFailed m + 1\<rparr>\<rparr>))"

definition h3_Accept :: "bool \<Rightarrow> h3_sess \<Rightarrow> open_result \<times> h3_sess" where
  "h3_Accept ok s =
     (if \<not> ok then (if h3_IsClosed s then ErrSessionClosed else ErrStream, s)
      else
        let m = q_metrics s
        in (Opened (length (q_streams s)),
            wrapStream (s\<lparr>q_metrics := m\<lparr>StreamsAccepted := StreamsAccepted m + 1, NumStreams := NumStreams m + 1\<rparr>\<rparr>)))"

text \<open>\<^verbatim>\<open>countingConn\<close>: \<open>n\<close> bytes and whether there was an error other than the end of the stream.\<close>

definition cc_Read :: "nat \<Rightarrow> nat \<Rightarrow> bool \<Rightarrow> h3_sess \<Rightarrow> h3_sess" where
  "cc_Read i n err s =
     s\<lparr>q_metrics := (q_metrics s)\<lparr>BytesReceived := BytesReceived (q_metrics s) + of_nat n\<rparr>,
       q_streams := (q_streams s)[i := (q_streams s ! i)\<lparr>k_errored := (err \<or> k_errored (q_streams s ! i))\<rparr>]\<rparr>"

definition cc_Write :: "nat \<Rightarrow> nat \<Rightarrow> bool \<Rightarrow> h3_sess \<Rightarrow> h3_sess" where
  "cc_Write i n err s =
     s\<lparr>q_metrics := (q_metrics s)\<lparr>BytesSent := BytesSent (q_metrics s) + of_nat n\<rparr>,
       q_streams := (q_streams s)[i := (q_streams s ! i)\<lparr>k_errored := (err \<or> k_errored (q_streams s ! i))\<rparr>]\<rparr>"

text \<open>\<^verbatim>\<open>quicConn.Close\<close> with its compare-and-swap, then the count of \<^verbatim>\<open>countingConn.Close\<close>, which is not guarded.\<close>

definition qc_Close :: "nat \<Rightarrow> h3_sess \<Rightarrow> h3_sess" where
  "qc_Close i s =
     (if k_closeOnce (q_streams s ! i) then s
      else onStreamClose (s\<lparr>q_streams := (q_streams s)[i := (q_streams s ! i)\<lparr>k_closeOnce := True\<rparr>]\<rparr>))"

definition cc_Close :: "nat \<Rightarrow> h3_sess \<Rightarrow> h3_sess" where
  "cc_Close i s =
     (let s = qc_Close i s; m = q_metrics s
      in s\<lparr>q_metrics := (if k_errored (q_streams s ! i) then m\<lparr>StreamsFailed := StreamsFailed m + 1\<rparr>
                         else m\<lparr>StreamsSucceeded := StreamsSucceeded m + 1\<rparr>)\<rparr>)"

datatype h3_event =
    QOpenBegin
  | QOpenEnd open_event
  | QAccept bool
  | QRead nat nat bool
  | QWrite nat nat bool
  | QCloseStream nat
  | QTakeIdle                     \<comment> \<open>the tunnel receives from IdleChan\<close>
  | QCloseSession
  | QConnDone                     \<comment> \<open>run: the connection ended\<close>

fun h3_step :: "h3_event \<Rightarrow> h3_sess \<Rightarrow> h3_sess option" where
  "h3_step QOpenBegin s = Some (case h3_open_check s of Some _ \<Rightarrow> s | None \<Rightarrow> s\<lparr>q_opening := Suc (q_opening s)\<rparr>)"
| "h3_step (QOpenEnd ev) s =
     (if q_opening s = 0 then None else Some ((snd (h3_Open_end ev s))\<lparr>q_opening := q_opening s - 1\<rparr>))"
| "h3_step (QAccept ok) s = Some (snd (h3_Accept ok s))"
| "h3_step (QRead i n err) s = (if i < length (q_streams s) then Some (cc_Read i n err s) else None)"
| "h3_step (QWrite i n err) s = (if i < length (q_streams s) then Some (cc_Write i n err s) else None)"
| "h3_step (QCloseStream i) s = (if i < length (q_streams s) then Some (cc_Close i s) else None)"
| "h3_step QTakeIdle s = (if q_idle s then Some (s\<lparr>q_idle := False\<rparr>) else None)"
| "h3_step QCloseSession s = Some (h3_close s)"
| "h3_step QConnDone s = Some (h3_close s)"

interpretation h3_session: mux_session_machine h3_close h3_IsClosed h3_open_check ErrSessionClosed h3_step
proof
  fix s t e
  assume "h3_IsClosed s" and "h3_step e s = Some t"
  then show "h3_IsClosed t"
    by (cases e) (auto simp: h3_IsClosed_def h3_open_check_def h3_Open_end_def h3_Accept_def wrapStream_def cc_Read_def cc_Write_def cc_Close_def
        qc_Close_def onStreamClose_def h3_close_def Let_def split: if_splits open_event.splits)
qed (simp_all add: h3_IsClosed_def h3_close_def h3_open_check_def)

section \<open>The stream count\<close>

definition open_streams :: "h3_sess \<Rightarrow> nat" where
  "open_streams s = length (filter (\<lambda>k. \<not> k_closeOnce k) (q_streams s))"

definition h3_inv :: "u64 \<Rightarrow> h3_sess \<Rightarrow> bool" where
  "h3_inv base s \<longleftrightarrow> NumStreams (q_metrics s) = int (open_streams s)
     \<and> StreamsOpened (q_metrics s) + StreamsAccepted (q_metrics s) = base + of_nat (length (q_streams s))"

lemma filter_close:
  "i < length ks \<Longrightarrow> \<not> P (ks ! i) \<Longrightarrow> P k' \<Longrightarrow>
   length (filter (\<lambda>k. \<not> P k) ks) = Suc (length (filter (\<lambda>k. \<not> P k) (ks[i := k'])))"
  by (induction ks arbitrary: i) (auto split: nat.splits)

lemma filter_keep:
  "i < length ks \<Longrightarrow> P (ks ! i) = P k' \<Longrightarrow> length (filter (\<lambda>k. \<not> P k) (ks[i := k'])) = length (filter (\<lambda>k. \<not> P k) ks)"
  by (induction ks arbitrary: i) (auto split: nat.splits)

lemma qc_Close_count:
  assumes "i < length (q_streams s)" and "\<not> k_closeOnce (q_streams s ! i)"
  shows "open_streams s = Suc (open_streams (qc_Close i s)) \<and> NumStreams (q_metrics (qc_Close i s)) = NumStreams (q_metrics s) - 1
     \<and> q_idle (qc_Close i s) = (NumStreams (q_metrics s) = 1 \<or> q_idle s)"
  using filter_close [of i "q_streams s" k_closeOnce "(q_streams s ! i)\<lparr>k_closeOnce := True\<rparr>"] assms
  by (simp add: qc_Close_def onStreamClose_def open_streams_def Let_def)

lemma qc_Close_fields:
  "length (q_streams (qc_Close i s)) = length (q_streams s)" "StreamsOpened (q_metrics (qc_Close i s)) = StreamsOpened (q_metrics s)"
  "StreamsAccepted (q_metrics (qc_Close i s)) = StreamsAccepted (q_metrics s)"
  by (simp_all add: qc_Close_def onStreamClose_def Let_def)

lemma cc_Close_fields:
  "length (q_streams (cc_Close i s)) = length (q_streams s)" "StreamsOpened (q_metrics (cc_Close i s)) = StreamsOpened (q_metrics s)"
  "StreamsAccepted (q_metrics (cc_Close i s)) = StreamsAccepted (q_metrics s)"
  "NumStreams (q_metrics (cc_Close i s)) = NumStreams (q_metrics (qc_Close i s))" "open_streams (cc_Close i s) = open_streams (qc_Close i s)"
  "q_idle (cc_Close i s) = q_idle (qc_Close i s)"
  by (simp_all add: cc_Close_def qc_Close_fields Let_def open_streams_def)

interpretation h3_machine: invariant_machine h3_step "h3_inv base"
proof
  fix s e t
  assume inv: "h3_inv base s" and st: "h3_step e s = Some t"
  show "h3_inv base t"
  proof (cases e)
    case (QCloseStream i)
    then have i: "i < length (q_streams s)" "t = cc_Close i s" using st by (auto split: if_splits)
    show ?thesis
    proof (cases "k_closeOnce (q_streams s ! i)")
      case True
      then show ?thesis using inv i(2) by (simp add: h3_inv_def cc_Close_fields qc_Close_def)
    next
      case False
      then show ?thesis using inv i(2) qc_Close_count [OF i(1) False] by (simp add: h3_inv_def cc_Close_fields)
    qed
  qed (use inv st in \<open>auto simp: h3_inv_def open_streams_def h3_Open_end_def h3_Accept_def wrapStream_def cc_Read_def cc_Write_def
         h3_close_def filter_keep Let_def algebra_simps split: if_splits open_event.splits option.splits\<close>)
qed

text \<open>(C27) In every interleaving of opening, accepting, reading, writing and closing streams of an h3mux session, the stream count is
  exactly the number of streams not yet closed, closing a stream twice does not count twice in it, and closing the last open
  stream leaves the idle signal for the tunnel.\<close>

theorem h3_streams_exact:
  assumes "NumStreams (q_metrics (newH3Session r metrics)) = 0" and "exec h3_step es (newH3Session r metrics) = Some s"
  shows "NumStreams (q_metrics s) = int (open_streams s)
     \<and> (\<forall>i < length (q_streams s). k_closeOnce (q_streams s ! i) \<longrightarrow> open_streams (cc_Close i s) = open_streams s)
     \<and> (\<forall>i < length (q_streams s). \<not> k_closeOnce (q_streams s ! i) \<longrightarrow> open_streams s = 1 \<longrightarrow> q_idle (cc_Close i s))"
proof -
  let ?base = "StreamsOpened (q_metrics (newH3Session r metrics)) + StreamsAccepted (q_metrics (newH3Session r metrics))"
  have "h3_inv ?base (newH3Session r metrics)" using assms(1) by (simp add: h3_inv_def open_streams_def newH3Session_def)
  then have inv: "h3_inv ?base s" by (rule h3_machine.exec_inv [OF _ assms(2)])
  moreover have "open_streams (cc_Close i s) = open_streams s" if "k_closeOnce (q_streams s ! i)" for i
    using that by (simp add: cc_Close_fields qc_Close_def)
  moreover have "q_idle (cc_Close i s)" if "i < length (q_streams s)" "\<not> k_closeOnce (q_streams s ! i)" "open_streams s = 1" for i
    using qc_Close_count [OF that(1,2)] inv that(3) by (simp add: cc_Close_fields h3_inv_def)
  ultimately show ?thesis by (simp add: h3_inv_def)
qed

theorem h3_streams_exact_witness:
  "\<exists>s. exec h3_step [QAccept True, QOpenBegin, QOpenEnd OpenSucceeds, QCloseStream 0, QCloseStream 0] (newH3Session False None) = Some s
     \<and> NumStreams (q_metrics s) = 1 \<and> q_idle (cc_Close 1 s) \<and> \<not> q_idle s"
proof -
  obtain s where s: "exec h3_step [QAccept True, QOpenBegin, QOpenEnd OpenSucceeds, QCloseStream 0, QCloseStream 0] (newH3Session False None) = Some s"
    "open_streams s = 1" "length (q_streams s) = 2" "\<not> k_closeOnce (q_streams s ! 1)" "\<not> q_idle s"
    by (simp add: newH3Session_def zero_metrics_def h3_Accept_def wrapStream_def h3_open_check_def h3_IsClosed_def h3_Open_end_def cc_Close_def
        qc_Close_def onStreamClose_def open_streams_def Let_def)
  have "NumStreams (q_metrics (newH3Session False None)) = 0" by (simp add: newH3Session_def zero_metrics_def)
  from h3_streams_exact [OF this s(1)] s show ?thesis by auto
qed

text \<open>The outcome counters are not protected the same way: closing a stream a second time counts it as finished again, so the
  finished streams can outnumber the opened and accepted ones.\<close>

theorem h3_double_close_counts:
  "\<exists>s. exec h3_step [QAccept True, QCloseStream 0, QCloseStream 0] (newH3Session False None) = Some s
     \<and> length (q_streams s) = 1 \<and> StreamsSucceeded (q_metrics s) = 2"
  by (simp add: newH3Session_def zero_metrics_def h3_Accept_def wrapStream_def cc_Close_def qc_Close_def onStreamClose_def Let_def)


section \<open>The open marker\<close>

fun qc_reads :: "(nat \<times> nat) list \<Rightarrow> quic_conn \<Rightarrow> q_result list \<times> quic_conn" where
  "qc_reads [] c = ([], c)"
| "qc_reads ((n, k) # nks) c = (let (r, c) = qc_Read n k c; (rs, c) = qc_reads nks c in (r # rs, c))"

fun q_bytes :: "q_result \<Rightarrow> bytes" where
  "q_bytes (QBytes b) = b"
| "q_bytes _ = []"

text \<open>What the application is still to see.\<close>

definition remaining :: "quic_conn \<Rightarrow> bytes" where
  "remaining c = (if qc_stripMarker c then tl (qs_rx c) else qs_rx c)"

definition marker_there :: "quic_conn \<Rightarrow> bool" where
  "marker_there c \<longleftrightarrow> (qc_stripMarker c \<longrightarrow> qs_rx c \<noteq> [])"

lemma qs_Read_step:
  assumes "qs_Read n k c = (r, c')" and "\<not> qc_stripMarker c"
  shows "remaining c = q_bytes r @ remaining c' \<and> marker_there c' \<and> qs_end c' = qs_end c
     \<and> (n > 0 \<longrightarrow> q_bytes r \<noteq> [] \<or> remaining c' = []) \<and> (qs_end c = RxEOF \<longrightarrow> r \<noteq> QErr \<and> r \<noteq> QBlocked)
     \<and> (r = QEOF \<longrightarrow> remaining c' = [])"
  using assms by (auto simp: qs_Read_def remaining_def marker_there_def Let_def split: if_splits rx_end.splits)

lemma qc_Read_step:
  assumes "qc_Read n k c = (r, c')" and "marker_there c"
  shows "remaining c = q_bytes r @ remaining c' \<and> marker_there c' \<and> qs_end c' = qs_end c
     \<and> (n > 0 \<longrightarrow> q_bytes r \<noteq> [] \<or> remaining c' = []) \<and> (qs_end c = RxEOF \<longrightarrow> r \<noteq> QErr \<and> r \<noteq> QBlocked)
     \<and> (r = QEOF \<longrightarrow> remaining c' = [])"
proof (cases "qc_stripMarker c")
  case False
  then show ?thesis using qs_Read_step [of n k c r c'] assms(1) by (simp add: qc_Read_def)
next
  case True
  then obtain m rx where "qs_rx c = m # rx" using assms(2) by (cases "qs_rx c") (auto simp: marker_there_def)
  then show ?thesis using qs_Read_step [of n k "c\<lparr>qs_rx := rx, qc_stripMarker := False\<rparr>" r c'] assms(1) True
    by (simp add: qc_Read_def remaining_def)
qed

lemma qc_reads_steps:
  assumes "qc_reads nks c = (rs, c')" and "marker_there c" and "list_all (\<lambda>(n, k). n > 0) nks"
  shows "remaining c = concat (map q_bytes rs) @ remaining c' \<and> (length nks \<le> length (concat (map q_bytes rs)) \<or> remaining c' = [])
     \<and> (qs_end c = RxEOF \<longrightarrow> QErr \<notin> set rs \<and> QBlocked \<notin> set rs)"
  using assms
proof (induction nks arbitrary: c rs)
  case (Cons nk nks)
  obtain n k where nk: "nk = (n, k)" by (cases nk)
  obtain r c1 where r: "qc_Read n k c = (r, c1)" by (cases "qc_Read n k c")
  obtain rs1 c2 where q: "qc_reads nks c1 = (rs1, c2)" by (cases "qc_reads nks c1")
  have eq: "rs = r # rs1" "c' = c2" using Cons.prems(1) by (simp_all add: nk r q)
  note v = qc_Read_step [OF r Cons.prems(2)]
  have ih: "remaining c1 = concat (map q_bytes rs1) @ remaining c2 \<and> (length nks \<le> length (concat (map q_bytes rs1)) \<or> remaining c2 = [])
     \<and> (qs_end c1 = RxEOF \<longrightarrow> QErr \<notin> set rs1 \<and> QBlocked \<notin> set rs1)"
    using Cons.IH [of c1 rs1] q v Cons.prems(3) eq by (simp add: nk)
  moreover have "q_bytes r \<noteq> [] \<or> remaining c1 = []" using v Cons.prems(3) by (simp add: nk)
  ultimately have "Suc (length nks) \<le> length (concat (map q_bytes rs)) \<or> remaining c2 = []"
    by (cases "q_bytes r") (auto simp: eq)
  with ih show ?case using v by (auto simp: eq)
qed simp



end
