(* ===== verification/H3_Connect.thy ===== *)
theory H3_Connect
  imports Inbound H3_Session Mux_Config
begin

text \<open>
  Connection setup of h3mux, \<^verbatim>\<open>v4/mux/h3mux/connect.go\<close> and \<^verbatim>\<open>wiretrace.go\<close>: dialing, the server-side handshake, the
  listener that owns its UDP socket and tracks the connections it accepted, and the accepted session before its
  handshake (\<^verbatim>\<open>h3InboundSession\<close>).  What quic-go and the network return are arguments.
\<close>

section \<open>Wire metrics\<close>

datatype wire_event = PacketSent nat | PacketReceived nat | OtherQlog

definition RecordEvent :: "wire_event \<Rightarrow> session_metrics \<Rightarrow> session_metrics" where
  "RecordEvent ev m =
     (case ev of
        PacketSent n \<Rightarrow> m\<lparr>WireLengthSent := WireLengthSent m + of_nat n\<rparr>
      | PacketReceived n \<Rightarrow> m\<lparr>WireLengthReceived := WireLengthReceived m + of_nat n\<rparr>
      | OtherQlog \<Rightarrow> m)"

text \<open>The metrics of a connection before its session exists count packets only.\<close>

definition wire_metrics :: "wire_event list \<Rightarrow> session_metrics" where
  "wire_metrics evs = fold RecordEvent evs zero_metrics"

lemma fold_RecordEvent: "NumStreams (fold RecordEvent evs m) = NumStreams m"
  by (induction evs arbitrary: m) (auto simp: RecordEvent_def split: wire_event.split)

lemma wire_metrics_streams: "NumStreams (q_metrics (newH3Session r (Some (wire_metrics evs)))) = 0"
  by (simp add: newH3Session_def wire_metrics_def fold_RecordEvent) (simp add: zero_metrics_def)

section \<open>Handshakes\<close>

datatype h3_conn_error = H3ErrDial | H3ErrControl | H3ErrHandshake h3_hs_error

record h3_res =
  hc_connOpen :: bool
  hc_deadline :: bool             \<comment> \<open>a deadline is set on the control stream\<close>

text \<open>\<open>dl\<close>: the context has a deadline; \<open>ctrl\<close>: the control stream can be opened or accepted.\<close>

definition clientHandshake ::
  "json_codec \<Rightarrow> bool \<Rightarrow> bool \<Rightarrow> bool \<times> bool \<Rightarrow> bytes \<Rightarrow> h3_config \<Rightarrow> session_metrics \<Rightarrow> (h3_conn_error + string \<times> h3_sess) \<times> h3_res" where
  "clientHandshake j dl ctrl ok input cfg m =
     (if \<not> ctrl then (Inl H3ErrControl, \<lparr>hc_connOpen = False, hc_deadline = False\<rparr>)
      else case fst (h3_doClientHandshake j ok input (h3_LocalID cfg) (h3_RejectInbound cfg)) of
             Inl e \<Rightarrow> (Inl (H3ErrHandshake e), \<lparr>hc_connOpen = False, hc_deadline = dl\<rparr>)
           | Inr (peerID, rejects) \<Rightarrow> (Inr (peerID, newH3Session rejects (Some m)), \<lparr>hc_connOpen = True, hc_deadline = False\<rparr>))"

text \<open>The metrics come from the context of a connection accepted by \<^verbatim>\<open>ListenMux\<close>, and are missing otherwise.\<close>

definition serverHandshake ::
  "json_codec \<Rightarrow> bool \<Rightarrow> bool \<Rightarrow> bool \<times> bool \<Rightarrow> bytes \<Rightarrow> h3_config \<Rightarrow> session_metrics option \<Rightarrow> (h3_conn_error + string \<times> h3_sess) \<times> h3_res" where
  "serverHandshake j dl ctrl ok input cfg m =
     (if \<not> ctrl then (Inl H3ErrControl, \<lparr>hc_connOpen = False, hc_deadline = False\<rparr>)
      else case fst (h3_doServerHandshake j ok input (h3_LocalID cfg) (h3_RejectInbound cfg)) of
             Inl e \<Rightarrow> (Inl (H3ErrHandshake e), \<lparr>hc_connOpen = False, hc_deadline = dl\<rparr>)
           | Inr (peerID, rejects) \<Rightarrow> (Inr (peerID, newH3Session rejects m), \<lparr>hc_connOpen = True, hc_deadline = False\<rparr>))"

definition h3_Dial ::
  "json_codec \<Rightarrow> bool \<Rightarrow> bool \<Rightarrow> bool \<Rightarrow> bool \<times> bool \<Rightarrow> bytes \<Rightarrow> wire_event list \<Rightarrow> h3_config \<Rightarrow> (h3_conn_error + string \<times> h3_sess) \<times> h3_res" where
  "h3_Dial j dial_ok dl ctrl ok input evs cfg =
     (if \<not> dial_ok then (Inl H3ErrDial, \<lparr>hc_connOpen = False, hc_deadline = False\<rparr>)
      else clientHandshake j dl ctrl ok input cfg (wire_metrics evs))"

text \<open>Setting up a connection on either side leaves none open behind an error, and no handshake deadline on a session.\<close>

lemma h3_setup_clean:
  "case h3_Dial j dial_ok dl ctrl ok input evs cfg of
     (Inl _, r) \<Rightarrow> \<not> hc_connOpen r | (Inr (_, s), r) \<Rightarrow> hc_connOpen r \<and> \<not> hc_deadline r \<and> NumStreams (q_metrics s) = 0"
  "case serverHandshake j dl ctrl ok input cfg m of
     (Inl _, r) \<Rightarrow> \<not> hc_connOpen r | (Inr (_, s), r) \<Rightarrow> hc_connOpen r \<and> \<not> hc_deadline r"
  by (simp_all add: h3_Dial_def clientHandshake_def serverHandshake_def wire_metrics_streams split: sum.split prod.split)

section \<open>The listener\<close>

record listen_res =
  lr_udp :: bool
  lr_transport :: bool
  lr_listener :: bool

datatype listen_outcome = ListenOk | ListenError | ListenPanic

text \<open>\<^verbatim>\<open>ListenMux\<close>: building the TLS config panics when there is none.\<close>

definition ListenMux :: "bool \<Rightarrow> bool \<Rightarrow> tlsc option \<Rightarrow> bool \<Rightarrow> h3_config \<Rightarrow> listen_outcome \<times> listen_res" where
  "ListenMux resolve_ok udp_ok cur listen_ok cfg =
     (let none = \<lparr>lr_udp = False, lr_transport = False, lr_listener = False\<rparr>
      in if \<not> resolve_ok then (ListenError, none)
         else if \<not> udp_ok then (ListenError, none)
         else
           let r = none\<lparr>lr_udp := True, lr_transport := True\<rparr>
           in case tlsServerConfig cur cfg of
                None \<Rightarrow> (ListenPanic, r)
              | Some _ \<Rightarrow>
                  if \<not> listen_ok then (ListenError, r\<lparr>lr_transport := False, lr_udp := False\<rparr>)
                  else (ListenOk, r\<lparr>lr_listener := True\<rparr>))"

text \<open>The connections of a listener: accepted ones by number; \<open>hl_entering\<close> are between \<^verbatim>\<open>l.Accept\<close> and \<^verbatim>\<open>trackConn\<close>.\<close>

record h3_listener =
  hl_owned :: bool                \<comment> \<open>made by ListenMux\<close>
  hl_open :: bool
  hl_res :: listen_res
  hl_next :: nat
  hl_entering :: "nat list"
  hl_conns :: "nat list"
  hl_alive :: "nat list"          \<comment> \<open>accepted connections whose context is not done\<close>
  hl_notified :: "nat list"       \<comment> \<open>closed with a CONNECTION_CLOSE frame\<close>

definition new_h3_listener :: h3_listener where
  "new_h3_listener = \<lparr>hl_owned = True, hl_open = True, hl_res = \<lparr>lr_udp = True, lr_transport = True, lr_listener = True\<rparr>,
     hl_next = 0, hl_entering = [], hl_conns = [], hl_alive = [], hl_notified = []\<rparr>"

definition NewListener :: h3_listener where
  "NewListener = new_h3_listener\<lparr>hl_owned := False, hl_res := \<lparr>lr_udp = False, lr_transport = False, lr_listener = True\<rparr>\<rparr>"

definition h3_Accept_conn :: "h3_listener \<Rightarrow> h3_listener option" where
  "h3_Accept_conn l =
     (if hl_open l
      then Some (l\<lparr>hl_next := Suc (hl_next l), hl_alive := hl_alive l @ [hl_next l],
                   hl_entering := (if hl_owned l then hl_entering l @ [hl_next l] else hl_entering l)\<rparr>)
      else None)"

definition trackConn :: "nat \<Rightarrow> h3_listener \<Rightarrow> h3_listener option" where
  "trackConn c l =
     (if c \<in> set (hl_entering l)
      then Some (l\<lparr>hl_entering := remove1 c (hl_entering l), hl_conns := hl_conns l @ [c]\<rparr>) else None)"

definition untrack :: "nat \<Rightarrow> h3_listener \<Rightarrow> h3_listener option" where
  "untrack c l =
     (if c \<in> set (hl_conns l) \<and> c \<notin> set (hl_alive l)
      then Some (l\<lparr>hl_conns := removeAll c (hl_conns l)\<rparr>) else None)"

text \<open>\<^verbatim>\<open>Close\<close>: the QUIC listener first, then every tracked connection, then the transport and the socket, which end
  the remaining connections without a frame.\<close>

definition h3_listener_Close :: "h3_listener \<Rightarrow> h3_listener" where
  "h3_listener_Close l =
     (let l = l\<lparr>hl_open := False, hl_res := (hl_res l)\<lparr>lr_listener := False\<rparr>\<rparr>;
          l = (if hl_owned l
               then l\<lparr>hl_notified := hl_notified l @ filter (\<lambda>c. c \<in> set (hl_conns l)) (hl_alive l), hl_alive := [],
                      hl_res := (hl_res l)\<lparr>lr_transport := False\<rparr>\<rparr>
               else l)
      in if hl_owned l then l\<lparr>hl_res := (hl_res l)\<lparr>lr_udp := False\<rparr>\<rparr> else l)"

datatype listener_event = LAccept | LTrack nat | LEnd nat | LUntrack nat | LClose

fun listener_step :: "listener_event \<Rightarrow> h3_listener \<Rightarrow> h3_listener option" where
  "listener_step LAccept l = h3_Accept_conn l"
| "listener_step (LTrack c) l = trackConn c l"
| "listener_step (LEnd c) l = Some (l\<lparr>hl_alive := removeAll c (hl_alive l)\<rparr>)"
| "listener_step (LUntrack c) l = untrack c l"
| "listener_step LClose l = Some (h3_listener_Close l)"

definition listener_inv :: "h3_listener \<Rightarrow> bool" where
  "listener_inv l \<longleftrightarrow> hl_owned l \<and> set (hl_alive l) \<subseteq> set (hl_entering l) \<union> set (hl_conns l)
     \<and> (\<not> hl_open l \<longrightarrow> hl_alive l = [] \<and> hl_res l = \<lparr>lr_udp = False, lr_transport = False, lr_listener = False\<rparr>)"

interpretation listener_machine: invariant_machine listener_step listener_inv
proof
  fix l e l'
  assume "listener_inv l" and "listener_step e l = Some l'"
  then show "listener_inv l'"
    by (cases e) (auto simp: listener_inv_def h3_Accept_conn_def trackConn_def untrack_def h3_listener_Close_def Let_def in_set_remove1
        split: if_splits)
qed

text \<open>Closing an h3mux listener, after any history of accepted and ended connections: no connection stays alive and socket,
  transport and listener are released; every tracked live connection is told with a CONNECTION_CLOSE frame, and that is every
  live connection unless an \<^verbatim>\<open>Accept\<close> is just between receiving a connection and tracking it.\<close>

theorem listener_close_notifies:
  assumes "exec listener_step es new_h3_listener = Some l"
  shows "hl_alive (h3_listener_Close l) = []
     \<and> hl_res (h3_listener_Close l) = \<lparr>lr_udp = False, lr_transport = False, lr_listener = False\<rparr>
     \<and> listener_step LAccept (h3_listener_Close l) = None
     \<and> (\<forall>c \<in> set (hl_alive l) - set (hl_entering l). c \<in> set (hl_notified (h3_listener_Close l)))"
proof -
  have "listener_inv new_h3_listener" by (simp add: listener_inv_def new_h3_listener_def)
  then have "listener_inv l" by (rule listener_machine.exec_inv [OF _ assms])
  then show ?thesis by (auto simp: listener_inv_def h3_listener_Close_def h3_Accept_conn_def Let_def)
qed

theorem listener_close_notifies_witness:
  "\<exists>l. exec listener_step [LAccept, LTrack 0, LAccept, LTrack 1, LEnd 0, LAccept] new_h3_listener = Some l
     \<and> hl_alive l = [1, 2] \<and> hl_alive (h3_listener_Close l) = [] \<and> 1 \<in> set (hl_notified (h3_listener_Close l))"
proof -
  obtain l where l: "exec listener_step [LAccept, LTrack 0, LAccept, LTrack 1, LEnd 0, LAccept] new_h3_listener = Some l"
    "hl_alive l = [1, 2]" "hl_entering l = [2]"
    by (simp add: new_h3_listener_def h3_Accept_conn_def trackConn_def)
  from listener_close_notifies [OF l(1)] l show ?thesis by auto
qed

section \<open>Accepted sessions\<close>

text \<open>On failure the connection was closed by \<^verbatim>\<open>serverHandshake\<close>.\<close>

definition h3_store :: "h3_conn_error + string \<times> bool \<Rightarrow> (string \<times> bool, h3_conn_error) inbound \<Rightarrow> (string \<times> bool, h3_conn_error) inbound" where
  "h3_store r s =
     (case r of
        Inl e \<Rightarrow> s\<lparr>i_handshakeErr := Some e, i_handshakeDone := True, i_connClosed := True\<rparr>
      | Inr p \<Rightarrow> s\<lparr>i_ss := Some p, i_handshakeDone := True\<rparr>)"

definition h3_inb_Close :: "(string \<times> bool, h3_conn_error) inbound \<Rightarrow> (string \<times> bool, h3_conn_error) inbound" where
  "h3_inb_Close s =
     (if i_handshakeDone s then (if i_ss s \<noteq> None then s\<lparr>i_ssClosed := True\<rparr> else s) else s\<lparr>i_connClosed := True\<rparr>)"

definition h3_doHandshake ::
  "(string \<times> bool, h3_conn_error) inbound_event \<Rightarrow> (string \<times> bool, h3_conn_error) inbound \<Rightarrow> (string \<times> bool, h3_conn_error) inbound option" where
  "h3_doHandshake = inbound_step h3_store h3_inb_Close"

definition h3_inb_IsClosed :: "(string \<times> bool, h3_conn_error) inbound \<Rightarrow> bool" where
  "h3_inb_IsClosed s \<longleftrightarrow> i_handshakeDone s \<and> i_ss s \<noteq> None \<and> i_ssClosed s"

definition h3_inb_PeerIdentity :: "(string \<times> bool, h3_conn_error) inbound \<Rightarrow> string" where
  "h3_inb_PeerIdentity s = (if i_handshakeDone s then case i_ss s of Some p \<Rightarrow> fst p | None \<Rightarrow> '''' else '''')"

text \<open>\<^verbatim>\<open>Open\<close>, \<^verbatim>\<open>Accept\<close> and the accessors, given those of the inner session; a nil channel is \<^const>\<open>None\<close>.\<close>

definition h3_inb_Open :: "(string \<times> bool \<Rightarrow> h3_conn_error + 'c) \<Rightarrow> (string \<times> bool, h3_conn_error) inbound \<Rightarrow> (h3_conn_error + 'c) option" where
  "h3_inb_Open open_op s = inb_call open_op s"

definition h3_inb_Accept :: "(string \<times> bool \<Rightarrow> h3_conn_error + 'c) \<Rightarrow> (string \<times> bool, h3_conn_error) inbound \<Rightarrow> (h3_conn_error + 'c) option" where
  "h3_inb_Accept accept_op s = inb_call accept_op s"

definition h3_inb_CloseChan :: "(string \<times> bool \<Rightarrow> 'a option) \<Rightarrow> (string \<times> bool, h3_conn_error) inbound \<Rightarrow> 'a option" where
  "h3_inb_CloseChan close_chan s = inb_get close_chan None s"

definition h3_inb_IdleChan :: "(string \<times> bool \<Rightarrow> 'a option) \<Rightarrow> (string \<times> bool, h3_conn_error) inbound \<Rightarrow> 'a option" where
  "h3_inb_IdleChan idle_chan s = inb_get idle_chan None s"

definition h3_inb_Stats :: "(string \<times> bool \<Rightarrow> 'a option) \<Rightarrow> (string \<times> bool, h3_conn_error) inbound \<Rightarrow> 'a option" where
  "h3_inb_Stats stats_op s = inb_get stats_op None s"

definition h3_inb_LocalAddr :: "(string \<times> bool \<Rightarrow> 'a) \<Rightarrow> 'a \<Rightarrow> (string \<times> bool, h3_conn_error) inbound \<Rightarrow> 'a" where
  "h3_inb_LocalAddr addr conn_addr s = inb_get addr conn_addr s"

definition h3_inb_RemoteAddr :: "(string \<times> bool \<Rightarrow> 'a) \<Rightarrow> 'a \<Rightarrow> (string \<times> bool, h3_conn_error) inbound \<Rightarrow> 'a" where
  "h3_inb_RemoteAddr addr conn_addr s = inb_get addr conn_addr s"

interpretation h3_inbound: inbound_ops h3_store h3_inb_Close
  by unfold_locales (auto simp: h3_store_def h3_inb_Close_def outcome_def split: sum.splits)

end
