(* ===== verification/Log_Bridge.thy ===== *)
theory Log_Bridge
  imports Prelude
begin

text \<open>
  The adapters that forward the log lines of gRPC and quic-go, \<^verbatim>\<open>mux/h2mux/grpclog.go\<close> and \<^verbatim>\<open>mux/h3mux/quiclog.go\<close>.  The logger itself
  is not under \<^verbatim>\<open>src\<close>: \<open>check\<close> is its \<^verbatim>\<open>CheckLevel\<close>, and what it is given is a list of lines.
\<close>

section \<open>Lines\<close>

datatype log_level = LevelFatal | LevelError | LevelWarning | LevelInfo | LevelDebug

record log_line =
  ll_depth :: int
  ll_level :: log_level
  ll_format :: "string option"      \<comment> \<open>of \<^verbatim>\<open>Printf\<close>; \<^const>\<open>None\<close> is \<^verbatim>\<open>Println\<close>\<close>
  ll_args :: "string list"

section \<open>gRPC\<close>

definition grpcLogDepth :: int where "grpcLogDepth = 2"

text \<open>The methods of the logger: \<^verbatim>\<open>Info\<close> and \<^verbatim>\<open>Infoln\<close>, \<^verbatim>\<open>Infof\<close>, \<^verbatim>\<open>InfoDepth\<close>, and so for the other severities.\<close>

datatype grpc_severity = GInfo | GWarning | GError | GFatal
datatype grpc_method = GPrint "string list" | GPrintln "string list" | GPrintf string "string list" | GDepth int "string list"

fun grpc_level :: "grpc_severity \<Rightarrow> log_level" where
  "grpc_level GInfo = LevelInfo"
| "grpc_level GWarning = LevelWarning"
| "grpc_level GError = LevelError"
| "grpc_level GFatal = LevelFatal"

fun grpc_line :: "log_level \<Rightarrow> grpc_method \<Rightarrow> log_line" where
  "grpc_line l (GPrint args) = \<lparr>ll_depth = grpcLogDepth, ll_level = l, ll_format = None, ll_args = args\<rparr>"
| "grpc_line l (GPrintln args) = \<lparr>ll_depth = grpcLogDepth, ll_level = l, ll_format = None, ll_args = args\<rparr>"
| "grpc_line l (GPrintf fmt args) = \<lparr>ll_depth = grpcLogDepth, ll_level = l, ll_format = Some fmt, ll_args = args\<rparr>"
| "grpc_line l (GDepth depth args) = \<lparr>ll_depth = wrap64 (depth + grpcLogDepth), ll_level = l, ll_format = None, ll_args = args\<rparr>"

text \<open>Only fatal lines are printed without asking for the level.\<close>

definition grpc_log :: "(log_level \<Rightarrow> bool) \<Rightarrow> grpc_severity \<Rightarrow> grpc_method \<Rightarrow> log_line list" where
  "grpc_log check sev meth =
     (if sev \<noteq> GFatal \<and> \<not> check (grpc_level sev) then [] else [grpc_line (grpc_level sev) meth])"

definition grpc_V :: "(log_level \<Rightarrow> bool) \<Rightarrow> int \<Rightarrow> bool" where
  "grpc_V check l = (if l \<le> 0 then check LevelWarning else if l \<le> 2 then check LevelInfo else check LevelDebug)"

section \<open>quic-go\<close>

text \<open>\<^verbatim>\<open>strings.TrimRight\<close> with a cutset of one character.\<close>

definition TrimRight :: "string \<Rightarrow> char \<Rightarrow> string" where
  "TrimRight s c = rev (dropWhile (\<lambda>x. x = c) (rev s))"

definition newline :: char where "newline = CHR 0x0A"

definition quic_Write :: "(log_level \<Rightarrow> bool) \<Rightarrow> string \<Rightarrow> log_line list \<times> nat" where
  "quic_Write check p =
     (if \<not> check LevelWarning then ([], length p)
      else
        let msg = TrimRight p newline
        in if msg = [] then ([], length p)
           else ([\<lparr>ll_depth = 0, ll_level = LevelWarning, ll_format = None, ll_args = [msg]\<rparr>], length p))"

section \<open>What the adapters guarantee\<close>

text \<open>A logger that prints a level prints every more severe one.\<close>

fun severity :: "log_level \<Rightarrow> nat" where
  "severity LevelFatal = 0"
| "severity LevelError = 1"
| "severity LevelWarning = 2"
| "severity LevelInfo = 3"
| "severity LevelDebug = 4"

definition check_mono :: "(log_level \<Rightarrow> bool) \<Rightarrow> bool" where
  "check_mono check \<longleftrightarrow> (\<forall>a b. severity a \<le> severity b \<longrightarrow> check b \<longrightarrow> check a)"

text \<open>The verbosity that gRPC asks for never promises more than is printed: a level that is enabled enables all lower ones, and when level
  0 is enabled all warnings and errors are printed, when level 2 is, all lines are.\<close>

lemma grpc_V_sound:
  assumes "check_mono check" and "grpc_V check l"
  shows "(l' \<le> l \<longrightarrow> grpc_V check l') \<and> grpc_log check GWarning meth \<noteq> [] \<and> grpc_log check GError meth \<noteq> []
     \<and> (0 < l \<longrightarrow> grpc_log check sev meth \<noteq> [])"
proof -
  have m: "check b \<Longrightarrow> severity a \<le> severity b \<Longrightarrow> check a" for a b using assms(1) by (auto simp: check_mono_def)
  have w: "check LevelWarning" using assms(2) m [of LevelInfo LevelWarning] m [of LevelDebug LevelWarning]
    by (auto simp: grpc_V_def split: if_splits)
  have e: "check LevelError" using m [OF w] by simp
  have i: "check LevelInfo" if "0 < l" using assms(2) that m [of LevelDebug LevelInfo] by (auto simp: grpc_V_def split: if_splits)
  show ?thesis using assms(2) w e i by (cases sev) (auto simp: grpc_V_def grpc_log_def split: if_splits)
qed

text \<open>A write is always accepted whole; the line it prints is the text without its trailing newlines, and is never empty.\<close>

lemma quic_Write_exact:
  "snd (quic_Write check p) = length p
   \<and> (\<forall>x \<in> set (fst (quic_Write check p)). \<exists>msg n. ll_args x = [msg] \<and> p = msg @ replicate n newline \<and> msg \<noteq> [] \<and> last msg \<noteq> newline)
   \<and> (fst (quic_Write check p) = [] \<longleftrightarrow> \<not> check LevelWarning \<or> (\<forall>c \<in> set p. c = newline))"
proof -
  define a where "a = takeWhile (\<lambda>x. x = newline) (rev p)"
  have split: "p = TrimRight p newline @ rev a" unfolding a_def TrimRight_def by (metis rev_append rev_rev_ident takeWhile_dropWhile_id)
  have a: "rev a = replicate (length a) newline" unfolding a_def
    by (metis (full_types) length_rev replicate_eqI set_rev set_takeWhileD)
  have nonl: "last (TrimRight p newline) \<noteq> newline" if "TrimRight p newline \<noteq> []"
    using that hd_dropWhile [of "\<lambda>x. x = newline" "rev p"] by (auto simp: TrimRight_def last_rev)
  have nil: "TrimRight p newline = [] \<longleftrightarrow> (\<forall>c \<in> set p. c = newline)" by (simp add: TrimRight_def dropWhile_eq_Nil_conv)
  have "\<exists>n. p = TrimRight p newline @ replicate n newline" using split a by metis
  then show ?thesis using nonl nil by (auto simp: quic_Write_def Let_def)
qed

end
