(* ===== verification/Api.thy ===== *)
theory Api
  imports Server_Serve Server_Reload "HOL-Library.Char_ord" "HOL-Library.List_Lexorder"
begin

text \<open>
  The HTTP interface, \<^verbatim>\<open>v4/api.go\<close>: the config, statistics, metrics, garbage collection and stack
  endpoints and the dispatch between them.  A request carries what net/http hands to the handler; a
  response is its status code and the values that are printed, since the number formats are those of an
  external package.  The memory statistics and the stack dump of the Go runtime are arguments.
\<close>

section \<open>Requests and responses\<close>

datatype http_method = GET | POST | OtherMethod string

text \<open>The path is the one the multiplexer of net/http has cleaned; the query is \<^verbatim>\<open>query.Get\<close>, none when the request URI
  or its query cannot be parsed.  The body is what the connection delivers; \<open>req_bodyFails\<close> means a read error follows it
  instead of the end.\<close>

record request =
  req_Method :: http_method
  req_Path :: string
  req_Query :: "(string \<Rightarrow> string) option"
  req_ContentLength :: int
  req_Body :: string
  req_bodyFails :: bool

definition StatusOK :: nat where "StatusOK = 200"
definition StatusBadRequest :: nat where "StatusBadRequest = 400"
definition StatusNotFound :: nat where "StatusNotFound = 404"
definition StatusMethodNotAllowed :: nat where "StatusMethodNotAllowed = 405"
definition StatusRequestEntityTooLarge :: nat where "StatusRequestEntityTooLarge = 413"
definition StatusInternalServerError :: nat where "StatusInternalServerError = 500"

lemmas status_defs = StatusOK_def StatusBadRequest_def StatusNotFound_def StatusMethodNotAllowed_def
  StatusRequestEntityTooLarge_def StatusInternalServerError_def

definition maxContentLength :: nat where
  "maxContentLength = 4194304"

section \<open>The config endpoint\<close>

text \<open>\<^verbatim>\<open>io.ReadAll(io.LimitReader(body, n))\<close>: none for a read error, which is only seen before the limit.\<close>

definition read_limited :: "nat \<Rightarrow> request \<Rightarrow> string option" where
  "read_limited n r =
     (if length (req_Body r) \<ge> n then Some (take n (req_Body r))
      else if req_bodyFails r then None else Some (req_Body r))"

text \<open>What the handler uses of the packages around it: \<^verbatim>\<open>config.Load\<close> on the body and \<^verbatim>\<open>json.Marshal\<close> of the config.\<close>

record api_env =
  a_load :: "string \<Rightarrow> cfg_error + config_file \<times> log_output \<times> int"
  a_json :: "config_file \<Rightarrow> string option"
  a_env :: env

text \<open>The settings of the logger of the process, which loading a config sets.\<close>

type_synonym logger = "log_output \<times> int"

text \<open>The status code, or none when \<^verbatim>\<open>ReloadConfig\<close> panics.\<close>

definition apiConfigHandler :: "api_env \<Rightarrow> request \<Rightarrow> logger \<Rightarrow> server \<Rightarrow> nat option \<times> logger \<times> server" where
  "apiConfigHandler a r lg s =
     (if req_Method r \<noteq> POST then (Some StatusMethodNotAllowed, lg, s)
      else if req_ContentLength r > int maxContentLength then (Some StatusRequestEntityTooLarge, lg, s)
      else case read_limited (maxContentLength + 1) r of
             None \<Rightarrow> (Some StatusBadRequest, lg, s)
           | Some b \<Rightarrow>
               if length b > maxContentLength then (Some StatusRequestEntityTooLarge, lg, s)
               else (case a_load a b of
                       Inl _ \<Rightarrow> (Some StatusBadRequest, lg, s)
                     | Inr (cfg, lg) \<Rightarrow>
                         (case ReloadConfig (a_env a) (a_json a cfg) cfg s of
                            (Panicked, s) \<Rightarrow> (None, lg, s)
                          | (Returned errs, s) \<Rightarrow> (Some (if errs = [] then StatusOK else StatusInternalServerError), lg, s))))"

lemma read_limited_full: "length (req_Body r) \<le> n \<Longrightarrow> \<not> req_bodyFails r \<Longrightarrow> read_limited (n + 1) r = Some (req_Body r)"
  by (simp add: read_limited_def)

lemma read_limited_bound: "read_limited n r = Some b \<Longrightarrow> length b \<le> n"
  by (auto simp: read_limited_def split: if_splits)

text \<open>A reload reported as successful has swapped the config in, and left everything alone when it was the config
  applied last.\<close>

lemma reload_returns:
  assumes "ReloadConfig e json cfg s = (Returned [], s')" and "json \<noteq> None"
  shows "lastConfigJSON s' = json \<and> (s' = s \<or> w_cfg s' = cfg)"
proof (cases "lastConfigJSON s = json")
  case True
  then show ?thesis using assms by (auto simp: ReloadConfig_def)
next
  case False
  then show ?thesis using reload_front(1,2) [OF assms(1)] by simp
qed

text \<open>The answers given before anything is applied.\<close>

definition refusals :: "nat option set" where
  "refusals = {Some StatusMethodNotAllowed, Some StatusRequestEntityTooLarge, Some StatusBadRequest}"


definition post_example :: request where
  "post_example = \<lparr>req_Method = POST, req_Path = ''/config'', req_Query = None, req_ContentLength = -1, req_Body = ''A'', req_bodyFails = False\<rparr>"

definition api_example :: api_env where
  "api_example = \<lparr>a_load = (\<lambda>b. if b = ''A'' then Inr (Default, (OutputDiscard, 0)) else Inl UnmarshalError), a_json = (\<lambda>_. Some ''A''), a_env = ok_env\<rparr>"


section \<open>Garbage collection pauses\<close>

text \<open>The circular buffers of \<^verbatim>\<open>runtime.MemStats\<close>, of 256 entries each.\<close>

record mem_stats =
  HeapInuse :: u64
  HeapSys :: u64
  HeapReleased :: u64
  HeapObjects :: u64
  StackInuse :: u64
  StackSys :: u64
  MSpanSys :: u64
  MCacheSys :: u64
  BuckHashSys :: u64
  GCSys :: u64
  OtherSys :: u64
  Sys :: u64
  HeapAlloc :: u64
  NextGC :: u64
  NumGC :: u32
  PauseNs :: "u64 list"
  PauseEnd :: "u64 list"
  PauseTotalNs :: u64

datatype gc_report =
    GcNever
  | GcPauses "(int \<times> int) list" int int int int   \<comment> \<open>recent ones as (age, pause); P50, P90, MAX, TOTAL\<close>

text \<open>What \<^verbatim>\<open>printMemStats\<close> prints, before formatting.\<close>

record mem_report =
  r_heap :: "u64 \<times> u64 \<times> u64"
  r_stack :: "u64 \<times> u64"
  r_runtimeSys :: u64
  r_total :: "u64 \<times> u64"
  r_nextGC :: "u64 \<times> u64"
  r_gc :: gc_report

definition at_index :: "'a list \<Rightarrow> nat \<Rightarrow> 'a option" where
  "at_index xs i = (if i < length xs then Some (xs ! i) else None)"

definition to_i64 :: "u64 \<Rightarrow> int" where
  "to_i64 x = wrap64 (uint x)"

definition gc_index :: "u32 \<Rightarrow> u32 \<Rightarrow> u32 \<Rightarrow> nat" where
  "gc_index numGC numStats i = unat ((numGC + (numStats - 1) - i) mod numStats)"

text \<open>The loop over the latest three; an index out of range panics, which is \<open>None\<close>.\<close>

fun gc_recent :: "mem_stats \<Rightarrow> u32 \<Rightarrow> u32 list \<Rightarrow> int \<Rightarrow> (int \<times> int) list option" where
  "gc_recent m numStats [] t = Some []"
| "gc_recent m numStats (i # is) t =
     (let idx = gc_index (NumGC m) numStats i
      in case (at_index (PauseEnd m) idx, at_index (PauseNs m) idx) of
           (Some e, Some p) \<Rightarrow>
             map_option (\<lambda>rest. (wrap64 (t - to_i64 e), to_i64 p) # rest) (gc_recent m numStats is (to_i64 e))
         | _ \<Rightarrow> None)"

fun gc_pauses :: "mem_stats \<Rightarrow> u32 \<Rightarrow> u32 list \<Rightarrow> int list option" where
  "gc_pauses m numStats [] = Some []"
| "gc_pauses m numStats (i # is) =
     (case at_index (PauseNs m) (gc_index (NumGC m) numStats i) of
        None \<Rightarrow> None
      | Some p \<Rightarrow> map_option (Cons (to_i64 p)) (gc_pauses m numStats is))"

definition printGCStats :: "int \<Rightarrow> mem_stats \<Rightarrow> gc_report option" where
  "printGCStats now m =
     (if NumGC m > 0
      then
        let numStats = of_nat (length (PauseNs m));
            numGC = (if NumGC m > numStats then numStats else NumGC m);
            n = unat numGC
        in case (gc_recent m numStats (map of_nat [0..<min 3 n]) now, gc_pauses m numStats (map of_nat [0..<n])) of
             (Some late, Some pause) \<Rightarrow>
               let pause = sort pause
               in (case (at_index pause (f64_mul_floor n pct50), at_index pause (f64_mul_floor n pct90), at_index pause (n - 1)) of
                     (Some a, Some b, Some c) \<Rightarrow> Some (GcPauses late a b c (to_i64 (PauseTotalNs m)))
                   | _ \<Rightarrow> None)
           | _ \<Rightarrow> None
      else Some GcNever)"

text \<open>The CPU fraction, a floating-point number of the runtime that is only scaled, is not part of the report.\<close>

definition printMemStats :: "int \<Rightarrow> mem_stats \<Rightarrow> mem_report option" where
  "printMemStats now m =
     map_option (\<lambda>gc.
       \<lparr>r_heap = (HeapInuse m, HeapSys m - HeapReleased m, HeapObjects m),
        r_stack = (StackInuse m, StackSys m),
        r_runtimeSys = MSpanSys m + MCacheSys m + BuckHashSys m + GCSys m + OtherSys m,
        r_total = (Sys m - HeapReleased m, HeapReleased m),
        r_nextGC = (HeapAlloc m, NextGC m),
        r_gc = gc\<rparr>) (printGCStats now m)"

lemma f64_below:
  assumes "0 < n" and "m * (2 ^ 53 + 1) < 2 ^ 106"
  shows "f64_mul_floor n m < n"
proof -
  have "2 ^ 53 * round53 (n * m) \<le> n * (m * (2 ^ 53 + 1))" using round53_bounds [of "n * m"] by (simp add: algebra_simps)
  also have "\<dots> < n * 2 ^ 106" using assms by simp
  finally have "round53 (n * m) < n * 2 ^ 53" by simp
  then show ?thesis by (simp add: f64_mul_floor_def less_mult_imp_div_less)
qed

lemma pct_below: "0 < n \<Longrightarrow> f64_mul_floor n pct50 < n" "0 < n \<Longrightarrow> f64_mul_floor n pct90 < n"
  by (rule f64_below; simp add: pct50_def pct90_def)+

text \<open>The subtraction may wrap at \<open>2 ^ 32\<close>; 256 divides it, so the slot is still the one before.\<close>

lemma gc_index_exact:
  assumes "i < min (unat g) 256"
  shows "gc_index g 256 (of_nat i) = (unat g - 1 - i) mod 256"
proof -
  have g: "unat (g - 1) = unat g - 1" using assms by (intro unat_minus_one) auto
  moreover have u: "unat (of_nat i :: u32) = i" using assms by (simp add: unat_of_nat)
  ultimately have "of_nat i \<le> g - 1" using assms by (auto simp: word_le_nat_alt)
  then have d: "unat (g - 1 - of_nat i) = unat g - 1 - i" by (simp only: unat_sub g u)
  have e: "g + (256 - 1) - of_nat i = (g - 1 - of_nat i) + 256" by (simp add: algebra_simps)
  have "unat (g + (256 - 1) - of_nat i) = ((unat g - 1 - i) + 256) mod 2 ^ 32"
    unfolding e unat_word_ariths d by simp
  moreover have "x mod 2 ^ 32 mod 256 = x mod 256" for x :: nat
    by (rule mod_mod_cancel) simp
  ultimately show ?thesis by (simp add: gc_index_def unat_mod)
qed

lemma gc_pauses_Some:
  assumes "\<forall>i \<in> set is. gc_index (NumGC m) k i < length (PauseNs m)"
  shows "gc_pauses m k is = Some (map (\<lambda>i. to_i64 (PauseNs m ! gc_index (NumGC m) k i)) is)"
  using assms by (induction "is") (auto simp: at_index_def)

lemma gc_recent_Some:
  assumes "\<forall>i \<in> set is. gc_index (NumGC m) k i < length (PauseNs m)" and "length (PauseEnd m) = length (PauseNs m)"
  shows "\<exists>rs. gc_recent m k is t = Some rs \<and> map snd rs = map (\<lambda>i. to_i64 (PauseNs m ! gc_index (NumGC m) k i)) is"
  using assms
proof (induction "is" arbitrary: t)
  case (Cons i "is")
  let ?e = "to_i64 (PauseEnd m ! gc_index (NumGC m) k i)"
  obtain rs where "gc_recent m k is ?e = Some rs" "map snd rs = map (\<lambda>i. to_i64 (PauseNs m ! gc_index (NumGC m) k i)) is"
    using Cons.IH [of ?e] Cons.prems by auto
  then show ?case using Cons.prems by (simp add: at_index_def Let_def)
qed simp


text \<open>The last \<open>n\<close> pauses, the latest first.\<close>

definition last_pauses :: "mem_stats \<Rightarrow> nat \<Rightarrow> int list" where
  "last_pauses m n = map (\<lambda>i. to_i64 (PauseNs m ! ((unat (NumGC m) - 1 - i) mod 256))) [0..<n]"

lemma sort_last_Max:
  fixes xs :: "int list"
  assumes "xs \<noteq> []"
  shows "sort xs ! (length xs - 1) = Lattices_Big.Max (set xs)"
proof (rule Max_eqI [symmetric])
  show "y \<le> sort xs ! (length xs - 1)" if "y \<in> set xs" for y
  proof -
    have "y \<in> set (sort xs)" using that by simp
    then obtain i where "i < length xs" "y = sort xs ! i" unfolding in_set_conv_nth by auto
    then show ?thesis by (auto intro!: sorted_nth_mono)
  qed
  have "length xs - 1 < length (sort xs)" using assms by simp
  then show "sort xs ! (length xs - 1) \<in> set xs" by (metis nth_mem set_sort)
qed simp



definition mem_example :: mem_stats where
  "mem_example =
     \<lparr>HeapInuse = 3, HeapSys = 4, HeapReleased = 1, HeapObjects = 1, StackInuse = 1, StackSys = 1, MSpanSys = 0, MCacheSys = 0,
      BuckHashSys = 0, GCSys = 0, OtherSys = 0, Sys = 8, HeapAlloc = 3, NextGC = 9, NumGC = 2,
      PauseNs = [5, 3] @ replicate 254 0, PauseEnd = [40, 70] @ replicate 254 0, PauseTotalNs = 8\<rparr>"


section \<open>The statistics endpoint\<close>

text \<open>\<^verbatim>\<open>strconv.ParseBool\<close>.\<close>

definition ParseBool :: "string \<Rightarrow> bool option" where
  "ParseBool s =
     (if s \<in> set [''1'', ''t'', ''T'', ''true'', ''TRUE'', ''True''] then Some True
      else if s \<in> set [''0'', ''f'', ''F'', ''false'', ''FALSE'', ''False''] then Some False
      else None)"

definition query_bool :: "(string \<Rightarrow> string) \<Rightarrow> string \<Rightarrow> bool" where
  "query_bool q key = (if q key \<noteq> '''' then case ParseBool (q key) of Some b \<Rightarrow> b | None \<Rightarrow> False else False)"

definition query_events :: "(string \<Rightarrow> string) \<Rightarrow> int" where
  "query_events q = (if q ''eventlog'' \<noteq> '''' then case atoi (q ''eventlog'') of Some i \<Rightarrow> i | None \<Rightarrow> 10 else 10)"

record api_stats =
  l_Accepted :: u64
  l_Served :: u64
  l_ReqTotal :: u64
  l_ReqSuccess :: u64
  l_WireLengthReceived :: u64
  l_WireLengthSent :: u64
  l_BytesReceived :: u64
  l_BytesSent :: u64
  l_Timestamp :: go_time

text \<open>The differences that are divided by \<open>d_time\<close> and printed.\<close>

record rates =
  d_time :: go_duration
  d_served :: u64
  d_rejected :: u64
  d_success :: u64
  d_failed :: u64
  d_wireReceived :: u64
  d_wireSent :: u64
  d_received :: u64
  d_sent :: u64

datatype session_line = NeverSeen string | Offline string go_time | Online string go_time u32

fun line_identity :: "session_line \<Rightarrow> string" where
  "line_identity (NeverSeen i) = i"
| "line_identity (Offline i t) = i"
| "line_identity (Online i t n) = i"

definition session_line_of :: "session_stats \<Rightarrow> session_line" where
  "session_line_of v =
     (if s_LastChanged v \<noteq> 0
      then if Active v then Online (s_PeerIdentity v) (s_LastChanged v) (s_NumStreams v) else Offline (s_PeerIdentity v) (s_LastChanged v)
      else NeverSeen (s_PeerIdentity v))"

text \<open>\<open>pg_stats\<close> holds the counters printed as they are; \<open>pg_runtime\<close> is none when the runtime section is not asked for.\<close>

record stats_page =
  pg_nocache :: bool
  pg_banner :: bool
  pg_runtime :: "mem_report option option"
  pg_uptime :: go_duration
  pg_stats :: server_stats
  pg_numStreams :: u32
  pg_sessionsDiff :: int
  pg_rejected :: u64
  pg_unauthorized :: u64
  pg_failed :: u64
  pg_rates :: "rates option"
  pg_sessions :: "session_line list"
  pg_events :: "int option"

definition rates_of :: "go_time \<Rightarrow> server_stats \<Rightarrow> api_stats \<Rightarrow> rates" where
  "rates_of now st l =
     \<lparr>d_time = time_sub now (l_Timestamp l),
      d_served = st_Served st - l_Served l,
      d_rejected = (st_Accepted st - l_Accepted l) - (st_Served st - l_Served l),
      d_success = st_ReqSuccess st - l_ReqSuccess l,
      d_failed = (st_ReqTotal st - l_ReqTotal l) - (st_ReqSuccess st - l_ReqSuccess l),
      d_wireReceived = st_WireLengthReceived st - l_WireLengthReceived l, d_wireSent = st_WireLengthSent st - l_WireLengthSent l,
      d_received = st_BytesReceived st - l_BytesReceived l, d_sent = st_BytesSent st - l_BytesSent l\<rparr>"

definition remember :: "go_time \<Rightarrow> server_stats \<Rightarrow> api_stats" where
  "remember now st =
     \<lparr>l_Accepted = st_Accepted st, l_Served = st_Served st, l_ReqTotal = st_ReqTotal st, l_ReqSuccess = st_ReqSuccess st,
      l_WireLengthReceived = st_WireLengthReceived st, l_WireLengthSent = st_WireLengthSent st,
      l_BytesReceived = st_BytesReceived st, l_BytesSent = st_BytesSent st, l_Timestamp = now\<rparr>"

text \<open>\<open>q\<close> is \<^verbatim>\<open>query.Get\<close>, none when the request URI or its query cannot be parsed; \<open>st\<close> is the result of \<^verbatim>\<open>Stats\<close>.\<close>

definition apiStatsHandler ::
  "http_method \<Rightarrow> (string \<Rightarrow> string) option \<Rightarrow> mem_stats \<Rightarrow> go_time \<Rightarrow> go_time \<Rightarrow> server_stats \<Rightarrow> api_stats
    \<Rightarrow> (nat \<times> stats_page option) \<times> api_stats" where
  "apiStatsHandler meth query m started now st l =
     (if meth \<noteq> GET \<and> meth \<noteq> POST then ((StatusMethodNotAllowed, None), l)
      else case query of
             None \<Rightarrow> ((StatusBadRequest, None), l)
           | Some q \<Rightarrow>
               let stateless = (meth = GET); evlog = query_events q;
                   vs = sort_key s_PeerIdentity (map snd (st_sessions st))
               in ((StatusOK, Some
                      \<lparr>pg_nocache = stateless, pg_banner = (\<not> query_bool q ''nobanner''),
                       pg_runtime = (if query_bool q ''runtime'' then Some (printMemStats now m) else None),
                       pg_uptime = time_sub now started, pg_stats = st,
                       pg_numStreams = sum_list (map (\<lambda>v. s_NumStreams (snd v)) (st_sessions st)),
                       pg_sessionsDiff = wrap64 (to_i64 (st_NumSessionsCreated st) - to_i64 (st_NumSessionsFinalized st)),
                       pg_rejected = st_Accepted st - st_Served st, pg_unauthorized = st_Served st - st_Authorized st,
                       pg_failed = st_ReqTotal st - st_ReqSuccess st,
                       pg_rates = (if stateless then None else Some (rates_of now st l)),
                       pg_sessions = map session_line_of vs,
                       pg_events = (if evlog > 0 then Some evlog else None)\<rparr>),
                   if stateless then l else remember now st))"

text \<open>A sequence of requests to the same handler.\<close>

type_synonym stats_request = "http_method \<times> (string \<Rightarrow> string) option \<times> mem_stats \<times> go_time \<times> go_time \<times> server_stats"

definition rates_in :: "nat \<times> stats_page option \<Rightarrow> rates list" where
  "rates_in r = (case snd r of None \<Rightarrow> [] | Some p \<Rightarrow> (case pg_rates p of None \<Rightarrow> [] | Some d \<Rightarrow> [d]))"

fun stats_requests :: "stats_request list \<Rightarrow> api_stats \<Rightarrow> rates list \<times> api_stats" where
  "stats_requests [] l = ([], l)"
| "stats_requests ((meth, q, m, started, now, st) # rs) l =
     (let (r, l) = apiStatsHandler meth q m started now st l; (ds, l) = stats_requests rs l
      in (rates_in r @ ds, l))"

lemma stats_step:
  "(rates_in (fst (apiStatsHandler meth q m started now st l)), snd (apiStatsHandler meth q m started now st l))
     = (if meth = POST \<and> q \<noteq> None then ([rates_of now st l], remember now st) else ([], l))"
  by (simp add: apiStatsHandler_def rates_in_def Let_def split: option.splits)

lemma stats_requests_Cons [simp]:
  "stats_requests ((meth, q, m, started, now, st) # rs) l =
     (if meth = POST \<and> q \<noteq> None
      then case stats_requests rs (remember now st) of (ds, l') \<Rightarrow> (rates_of now st l # ds, l')
      else stats_requests rs l)"
proof -
  obtain r l1 where h: "apiStatsHandler meth q m started now st l = (r, l1)" by fastforce
  then show ?thesis using stats_step [of meth q m started now st l] by (auto simp: Let_def split: prod.split if_splits)
qed

declare stats_requests.simps(2) [simp del]

text \<open>The rates of the statistics page miss nothing and count nothing twice.  Over any sequence of requests with any methods the
  differences behind the printed rates add up to exactly the change of the remembered counters, also when a counter wraps at
  \<open>2 ^ 64\<close>; accepted connections are split without remainder into served and rejected ones.  Requests other than POST
  change nothing.\<close>

theorem rates_telescope:
  "case stats_requests rs l of (ds, l') \<Rightarrow>
     sum_list (map d_served ds) = l_Served l' - l_Served l
   \<and> sum_list (map d_served ds) + sum_list (map d_rejected ds) = l_Accepted l' - l_Accepted l
   \<and> sum_list (map d_success ds) + sum_list (map d_failed ds) = l_ReqTotal l' - l_ReqTotal l
   \<and> sum_list (map d_wireReceived ds) = l_WireLengthReceived l' - l_WireLengthReceived l
   \<and> sum_list (map d_wireSent ds) = l_WireLengthSent l' - l_WireLengthSent l
   \<and> sum_list (map d_received ds) = l_BytesReceived l' - l_BytesReceived l
   \<and> sum_list (map d_sent ds) = l_BytesSent l' - l_BytesSent l
   \<and> length ds = length (filter (\<lambda>(meth, q, _). meth = POST \<and> q \<noteq> None) rs)"
proof (induction rs arbitrary: l)
  case (Cons r rs)
  obtain meth q m started now st where r: "r = (meth, q, m, started, now, st)" by (cases r)
  show ?case
  proof (cases "meth = POST \<and> q \<noteq> None")
    case True
    then show ?thesis using Cons.IH [of "remember now st"]
      by (auto simp: r rates_of_def remember_def algebra_simps split: prod.splits)
  next
    case False
    then show ?thesis using Cons.IH [of l] by (auto simp: r)
  qed
qed simp

section \<open>The sessions listed\<close>

text \<open>What the map from identities to sessions is after the tunnels \<open>vs\<close>: one entry per identity, the most recently changed.\<close>

definition latest_sessions :: "session_stats list \<Rightarrow> (string \<times> session_stats) list \<Rightarrow> bool" where
  "latest_sessions vs m \<longleftrightarrow>
     distinct (map fst m) \<and> fst ` set m = s_PeerIdentity ` set vs - {''''}
   \<and> (\<forall>(p, v) \<in> set m. v \<in> set vs \<and> s_PeerIdentity v = p
        \<and> (\<forall>u \<in> set vs. s_PeerIdentity u = p \<longrightarrow> s_LastChanged u \<le> s_LastChanged v))"

lemma latest_sessions_entry:
  assumes "latest_sessions vs m" and "(p, v) \<in> set m"
  shows "v \<in> set vs" "s_PeerIdentity v = p" "p \<noteq> ''''"
    "u \<in> set vs \<Longrightarrow> s_PeerIdentity u = p \<Longrightarrow> s_LastChanged u \<le> s_LastChanged v"
proof -
  show "v \<in> set vs" "s_PeerIdentity v = p" "u \<in> set vs \<Longrightarrow> s_PeerIdentity u = p \<Longrightarrow> s_LastChanged u \<le> s_LastChanged v"
    using assms unfolding latest_sessions_def by blast+
  have "p \<in> fst ` set m" using assms(2) by (rule image_eqI [rotated]) simp
  then show "p \<noteq> ''''" using assms(1) unfolding latest_sessions_def by blast
qed

lemma put_session_keys: "fst ` set (put_session v m) = insert (s_PeerIdentity v) (fst ` set m)"
  by (induction v m rule: put_session.induct) auto

lemma put_session_distinct: "distinct (map fst m) \<Longrightarrow> distinct (map fst (put_session v m))"
proof (induction v m rule: put_session.induct)
  case (2 v p prev m)
  then show ?case using put_session_keys [of v m] by auto
qed simp

text \<open>Every entry is the old one, or the new session under its identity, which no session of that identity beats.\<close>

lemma put_session_entry:
  assumes "(p, u) \<in> set (put_session v m)" and "distinct (map fst m)"
  shows "if p = s_PeerIdentity v
     then (u = v \<or> (p, u) \<in> set m) \<and> s_LastChanged v \<le> s_LastChanged u \<and> (\<forall>w. (p, w) \<in> set m \<longrightarrow> s_LastChanged w \<le> s_LastChanged u)
     else (p, u) \<in> set m"
  using assms
proof (induction v m rule: put_session.induct)
  case (2 v q prev m)
  then show ?case by (auto simp: image_iff split: if_splits)
qed auto

lemma latest_sessions_put:
  assumes "latest_sessions vs m" and "s_PeerIdentity v \<noteq> ''''"
  shows "latest_sessions (vs @ [v]) (put_session v m)"
proof -
  have d: "distinct (map fst m)" and k: "fst ` set m = s_PeerIdentity ` set vs - {''''}"
    and e: "\<And>p v. (p, v) \<in> set m \<Longrightarrow> v \<in> set vs \<and> s_PeerIdentity v = p
        \<and> (\<forall>u \<in> set vs. s_PeerIdentity u = p \<longrightarrow> s_LastChanged u \<le> s_LastChanged v)"
    using assms(1) by (auto simp: latest_sessions_def)
  have "u \<in> set (vs @ [v]) \<and> s_PeerIdentity u = p
      \<and> (\<forall>w \<in> set (vs @ [v]). s_PeerIdentity w = p \<longrightarrow> s_LastChanged w \<le> s_LastChanged u)"
    if "(p, u) \<in> set (put_session v m)" for p u
  proof (cases "p = s_PeerIdentity v")
    case True
    have E: "u = v \<or> (p, u) \<in> set m" "s_LastChanged v \<le> s_LastChanged u"
      "\<And>w. (p, w) \<in> set m \<Longrightarrow> s_LastChanged w \<le> s_LastChanged u"
      using put_session_entry [OF that d] True by auto
    have "s_LastChanged w \<le> s_LastChanged u" if w: "w \<in> set vs" "s_PeerIdentity w = p" for w
    proof -
      have "p \<in> fst ` set m" using k w True assms(2) by (metis Diff_iff image_eqI singletonD)
      then obtain x where "(p, x) \<in> set m" by auto
      then show ?thesis using e [of p x] E(3) [of x] w by fastforce
    qed
    then show ?thesis using E True e [of p u] by auto
  next
    case False
    then have "(p, u) \<in> set m" using put_session_entry [OF that d] by simp
    then show ?thesis using e [of p u] False by auto
  qed
  then show ?thesis using put_session_distinct [OF d, of v] k assms(2) put_session_keys [of v m]
    by (auto simp: latest_sessions_def)
qed

lemma latest_sessions_fold: "latest_sessions vs (fold add_session vs [])"
proof (induction vs rule: rev_induct)
  case (snoc v vs)
  show ?case
  proof (cases "s_PeerIdentity v = ''''")
    case True
    have "latest_sessions (vs @ [v]) m" if m: "latest_sessions vs m" for m
      unfolding latest_sessions_def
    proof (intro conjI ballI, goal_cases)
      case 3
      then show ?case using latest_sessions_entry [OF m] True by (fastforce split: prod.splits)
    qed (use m True in \<open>auto simp: latest_sessions_def\<close>)
    then show ?thesis using snoc True by (simp add: add_session_def)
  next
    case False
    then show ?thesis using latest_sessions_put [OF snoc False] by (simp add: add_session_def)
  qed
qed (simp add: latest_sessions_def)

lemma active_of_identity: "s_PeerIdentity (tunnel_Stats w t) \<noteq> '''' \<Longrightarrow> Active (tunnel_Stats w t)"
  by (auto simp: tunnel_Stats_def Let_def split: option.splits)

lemma stats_sessions:
  "latest_sessions (map (tunnel_Stats s) (getAllTunnels s)) (st_sessions (server_Stats l h s))"
  "\<forall>(p, v) \<in> set (st_sessions (server_Stats l h s)). s_PeerIdentity v = p \<and> p \<noteq> '''' \<and> Active v"
proof -
  show 1: "latest_sessions (map (tunnel_Stats s) (getAllTunnels s)) (st_sessions (server_Stats l h s))"
    by (simp add: server_Stats_def Let_def latest_sessions_fold split: prod.split)
  show "\<forall>(p, v) \<in> set (st_sessions (server_Stats l h s)). s_PeerIdentity v = p \<and> p \<noteq> '''' \<and> Active v"
  proof (intro ballI, clarify)
    fix p v
    assume pv: "(p, v) \<in> set (st_sessions (server_Stats l h s))"
    obtain t where "v = tunnel_Stats s t" using latest_sessions_entry(1) [OF 1 pv] by auto
    then show "s_PeerIdentity v = p \<and> p \<noteq> '''' \<and> Active v"
      using latest_sessions_entry(2,3) [OF 1 pv] active_of_identity [of s t] by simp
  qed
qed

text \<open>The lines of the page in terms of the listed sessions.\<close>

lemma page_lines:
  assumes "apiStatsHandler meth q m started now st l = ((c, Some pg), l')"
  shows "pg_sessions pg = map session_line_of (sort_key s_PeerIdentity (map snd (st_sessions st)))" "pg_stats pg = st"
  using assms by (auto simp: apiStatsHandler_def Let_def split: if_splits option.splits)

lemma line_identity_of: "line_identity (session_line_of v) = s_PeerIdentity v"
  by (simp add: session_line_of_def)

text \<open>The statistics page lists every peer that has an active session with a known identity exactly once, in
  strictly increasing order of identities, with the most recently changed session of that peer; a listed session is never
  shown as offline.\<close>

theorem stats_page_sessions:
  assumes "apiStatsHandler meth q m started now (server_Stats lst hoc s) l = ((c, Some pg), l')"
  shows "sorted_wrt (<) (map line_identity (pg_sessions pg))
     \<and> set (map line_identity (pg_sessions pg)) = {s_PeerIdentity (tunnel_Stats s t) |t. t \<in> set (getAllTunnels s)} - {''''}
     \<and> (\<forall>ln \<in> set (pg_sessions pg). \<exists>t \<in> set (getAllTunnels s). ln = session_line_of (tunnel_Stats s t) \<and> (\<forall>i u. ln \<noteq> Offline i u)
          \<and> (\<forall>t' \<in> set (getAllTunnels s). s_PeerIdentity (tunnel_Stats s t') = line_identity ln \<longrightarrow>
               s_LastChanged (tunnel_Stats s t') \<le> s_LastChanged (tunnel_Stats s t)))"
proof -
  let ?m = "st_sessions (server_Stats lst hoc s)" and ?vs = "map (tunnel_Stats s) (getAllTunnels s)"
  note lines = page_lines(1) [OF assms] and L = stats_sessions [where s = s and l = lst and h = hoc]
  have ids: "map s_PeerIdentity (map snd ?m) = map fst ?m" using L(2) by (auto simp: split_beta)
  have d: "distinct (map fst ?m)" and k: "fst ` set ?m = s_PeerIdentity ` set ?vs - {''''}"
    using L(1) by (auto simp: latest_sessions_def)
  have lid: "map line_identity (pg_sessions pg) = map s_PeerIdentity (sort_key s_PeerIdentity (map snd ?m))"
    by (simp add: lines line_identity_of comp_def)
  have "distinct (map s_PeerIdentity (sort_key s_PeerIdentity (map snd ?m)))"
    using d unfolding ids [symmetric] by (auto simp: distinct_map intro: inj_on_imageI inj_on_imageI2)
  then have "sorted_wrt (<) (map line_identity (pg_sessions pg))" unfolding lid by (simp add: strict_sorted_iff)
  moreover have "set (map line_identity (pg_sessions pg)) = fst ` set ?m"
    unfolding lid using ids by (metis list.set_map set_sort)
  moreover have "\<exists>t \<in> set (getAllTunnels s). ln = session_line_of (tunnel_Stats s t) \<and> (\<forall>i u. ln \<noteq> Offline i u)
          \<and> (\<forall>t' \<in> set (getAllTunnels s). s_PeerIdentity (tunnel_Stats s t') = line_identity ln \<longrightarrow>
               s_LastChanged (tunnel_Stats s t') \<le> s_LastChanged (tunnel_Stats s t))" if ln: "ln \<in> set (pg_sessions pg)" for ln
  proof -
    obtain p v where v: "(p, v) \<in> set ?m" "ln = session_line_of v" using ln by (force simp: lines)
    then have "v \<in> set ?vs" "s_PeerIdentity v = p" "Active v" "\<forall>u \<in> set ?vs. s_PeerIdentity u = p \<longrightarrow> s_LastChanged u \<le> s_LastChanged v"
      using L by (auto simp: latest_sessions_def)
    then show ?thesis using v(2) by (auto simp: line_identity_of) (auto simp: session_line_of_def)
  qed
  ultimately show ?thesis using k by auto
qed

theorem stats_page_sessions_witness:
  "case NewServer ok_env Default of Inl _ \<Rightarrow> False | Inr s0 \<Rightarrow>
     let s = s0\<lparr>mainTunnel := Some 0, tunnels := (\<lambda>_. (newTunnel Default ''a'')\<lparr>ss := Some 0\<rparr>),
                sessions := (\<lambda>_. zero_session\<lparr>PeerIdentity := ''peer''\<rparr>)\<rparr>
     in case apiStatsHandler GET (Some (\<lambda>_. '''')) mem_example 0 9 (server_Stats (0, 0) 0 s) (remember 0 (server_Stats (0, 0) 0 s)) of
          ((c, Some pg), _) \<Rightarrow> set (map line_identity (pg_sessions pg)) = {''peer''}
        | _ \<Rightarrow> False"
proof -
  obtain s0 where s0: "NewServer ok_env Default = Inr s0" "identityTunnels s0 = []" "acceptedTunnels s0 = Map.empty" "next_sid s0 = 0"
    by (simp add: NewServer_def NewTLSConfig_def Default_def server.defs world.defs init_world_def)
  let ?s = "s0\<lparr>mainTunnel := Some 0, tunnels := (\<lambda>_. (newTunnel Default ''a'')\<lparr>ss := Some 0\<rparr>),
                sessions := (\<lambda>_. zero_session\<lparr>PeerIdentity := ''peer''\<rparr>)\<rparr>"
  let ?st = "server_Stats (0, 0) 0 ?s"
  have g: "getSession ?s 0 = Some 0" by (simp add: getSession_def IsClosed_def zero_session_def)
  have a: "getAllTunnels ?s = [0]" by (simp add: getAllTunnels_def accepted_list_def s0 List.map_filter_def)
  obtain c pg l where h: "apiStatsHandler GET (Some (\<lambda>_. '''')) mem_example 0 9 ?st (remember 0 ?st) = ((c, Some pg), l)"
    by (simp add: apiStatsHandler_def Let_def)
  have "s_PeerIdentity (tunnel_Stats ?s 0) = ''peer''" using g by (simp add: tunnel_Stats_def Let_def)
  then show ?thesis using stats_page_sessions [OF h] by (simp add: s0(1) Let_def h a)
qed

section \<open>The metrics endpoint\<close>

record metric_desc =
  desc_name :: string
  desc_labels :: "string list"

definition uptimeDesc :: metric_desc where "uptimeDesc = \<lparr>desc_name = ''tlswrapper_uptime_seconds'', desc_labels = []\<rparr>"
definition sessionsDesc :: metric_desc where "sessionsDesc = \<lparr>desc_name = ''tlswrapper_sessions'', desc_labels = []\<rparr>"
definition streamsDesc :: metric_desc where "streamsDesc = \<lparr>desc_name = ''tlswrapper_streams'', desc_labels = []\<rparr>"
definition acceptedDesc :: metric_desc where "acceptedDesc = \<lparr>desc_name = ''tlswrapper_accepted_total'', desc_labels = []\<rparr>"
definition servedDesc :: metric_desc where "servedDesc = \<lparr>desc_name = ''tlswrapper_served_total'', desc_labels = []\<rparr>"
definition authorizedDesc :: metric_desc where "authorizedDesc = \<lparr>desc_name = ''tlswrapper_authorized_total'', desc_labels = []\<rparr>"
definition requestsDesc :: metric_desc where "requestsDesc = \<lparr>desc_name = ''tlswrapper_requests_total'', desc_labels = []\<rparr>"
definition requestsSuccessDesc :: metric_desc where
  "requestsSuccessDesc = \<lparr>desc_name = ''tlswrapper_requests_success_total'', desc_labels = []\<rparr>"
definition sessionUpDesc :: metric_desc where "sessionUpDesc = \<lparr>desc_name = ''tlswrapper_session_up'', desc_labels = [''identity'']\<rparr>"
definition sessionStreamsDesc :: metric_desc where
  "sessionStreamsDesc = \<lparr>desc_name = ''tlswrapper_session_streams'', desc_labels = [''identity'']\<rparr>"
definition sessionStreamsOpenedDesc :: metric_desc where
  "sessionStreamsOpenedDesc = \<lparr>desc_name = ''tlswrapper_session_streams_opened_total'', desc_labels = [''identity'']\<rparr>"
definition sessionStreamsAcceptedDesc :: metric_desc where
  "sessionStreamsAcceptedDesc = \<lparr>desc_name = ''tlswrapper_session_streams_accepted_total'', desc_labels = [''identity'']\<rparr>"
definition sessionStreamsSucceededDesc :: metric_desc where
  "sessionStreamsSucceededDesc = \<lparr>desc_name = ''tlswrapper_session_streams_succeeded_total'', desc_labels = [''identity'']\<rparr>"
definition sessionStreamsFailedDesc :: metric_desc where
  "sessionStreamsFailedDesc = \<lparr>desc_name = ''tlswrapper_session_streams_failed_total'', desc_labels = [''identity'']\<rparr>"
definition sessionWireBytesDesc :: metric_desc where
  "sessionWireBytesDesc = \<lparr>desc_name = ''tlswrapper_session_bytes_total'', desc_labels = [''identity'', ''direction'']\<rparr>"
definition sessionPayloadBytesDesc :: metric_desc where
  "sessionPayloadBytesDesc = \<lparr>desc_name = ''tlswrapper_session_payload_bytes_total'', desc_labels = [''identity'', ''direction'']\<rparr>"

lemmas server_desc_defs = uptimeDesc_def sessionsDesc_def streamsDesc_def acceptedDesc_def servedDesc_def authorizedDesc_def
  requestsDesc_def requestsSuccessDesc_def
lemmas session_desc_defs = sessionUpDesc_def sessionStreamsDesc_def sessionStreamsOpenedDesc_def sessionStreamsAcceptedDesc_def
  sessionStreamsSucceededDesc_def sessionStreamsFailedDesc_def sessionWireBytesDesc_def sessionPayloadBytesDesc_def

definition Describe :: "metric_desc list" where
  "Describe =
     [uptimeDesc, sessionsDesc, streamsDesc, acceptedDesc, servedDesc, authorizedDesc, requestsDesc, requestsSuccessDesc,
      sessionUpDesc, sessionStreamsDesc, sessionStreamsOpenedDesc, sessionStreamsAcceptedDesc, sessionStreamsSucceededDesc,
      sessionStreamsFailedDesc, sessionWireBytesDesc, sessionPayloadBytesDesc]"

datatype value_type = GaugeValue | CounterValue

text \<open>The value is the one that is converted to a floating-point number; the uptime is in nanoseconds here.\<close>

record metric =
  m_desc :: metric_desc
  m_type :: value_type
  m_value :: int
  m_labels :: "string list"

definition const_metric :: "metric_desc \<Rightarrow> value_type \<Rightarrow> int \<Rightarrow> string list \<Rightarrow> metric" where
  "const_metric d t x ls = \<lparr>m_desc = d, m_type = t, m_value = x, m_labels = ls\<rparr>"

definition session_metrics_of :: "session_stats \<Rightarrow> metric list" where
  "session_metrics_of v =
     (let i = s_PeerIdentity v
      in [const_metric sessionUpDesc GaugeValue (if Active v then 1 else 0) [i],
          const_metric sessionStreamsDesc GaugeValue (uint (s_NumStreams v)) [i],
          const_metric sessionStreamsOpenedDesc CounterValue (uint (s_StreamsOpened v)) [i],
          const_metric sessionStreamsAcceptedDesc CounterValue (uint (s_StreamsAccepted v)) [i],
          const_metric sessionStreamsSucceededDesc CounterValue (uint (s_StreamsSucceeded v)) [i],
          const_metric sessionStreamsFailedDesc CounterValue (uint (s_StreamsFailed v)) [i],
          const_metric sessionWireBytesDesc CounterValue (uint (s_WireLengthSent v)) [i, ''tx''],
          const_metric sessionWireBytesDesc CounterValue (uint (s_WireLengthReceived v)) [i, ''rx''],
          const_metric sessionPayloadBytesDesc CounterValue (uint (s_BytesSent v)) [i, ''tx''],
          const_metric sessionPayloadBytesDesc CounterValue (uint (s_BytesReceived v)) [i, ''rx'']])"

text \<open>\<open>accepts d ls\<close> is whether \<^verbatim>\<open>MustNewConstMetric\<close>, which is not under src/, takes the label values without panicking;
  \<open>None\<close> is the panic.\<close>

definition Collect :: "(metric_desc \<Rightarrow> string list \<Rightarrow> bool) \<Rightarrow> go_time \<Rightarrow> go_time \<Rightarrow> server_stats \<Rightarrow> metric list option" where
  "Collect accepts started now st =
     (let ms =
            [const_metric uptimeDesc GaugeValue (time_sub now started) [],
             const_metric sessionsDesc GaugeValue (uint (st_NumSessions st)) [],
             const_metric acceptedDesc CounterValue (uint (st_Accepted st)) [],
             const_metric servedDesc CounterValue (uint (st_Served st)) [],
             const_metric authorizedDesc CounterValue (uint (st_Authorized st)) [],
             const_metric requestsDesc CounterValue (uint (st_ReqTotal st)) [],
             const_metric requestsSuccessDesc CounterValue (uint (st_ReqSuccess st)) []]
            @ concat (map (\<lambda>v. session_metrics_of (snd v)) (st_sessions st))
            @ [const_metric streamsDesc GaugeValue (uint (sum_list (map (\<lambda>v. s_NumStreams (snd v)) (st_sessions st)))) []]
      in if list_all (\<lambda>x. accepts (m_desc x) (m_labels x)) ms then Some ms else None)"


definition metric_key :: "metric \<Rightarrow> string \<times> string list" where
  "metric_key x = (desc_name (m_desc x), m_labels x)"

definition well_labelled :: "metric \<Rightarrow> bool" where
  "well_labelled x \<longleftrightarrow> m_desc x \<in> set Describe \<and> length (m_labels x) = length (desc_labels (m_desc x))"

lemma session_metrics_keys:
  "distinct (map metric_key (session_metrics_of v))"
  "x \<in> set (session_metrics_of v) \<Longrightarrow> well_labelled x \<and> m_labels x \<noteq> [] \<and> hd (m_labels x) = s_PeerIdentity v
     \<and> set (m_labels x) \<subseteq> {s_PeerIdentity v, ''tx'', ''rx''}"
proof -
  show "distinct (map metric_key (session_metrics_of v))"
    by (simp add: session_metrics_of_def Let_def const_metric_def metric_key_def session_desc_defs)
  have "list_all (\<lambda>x. well_labelled x \<and> m_labels x \<noteq> [] \<and> hd (m_labels x) = s_PeerIdentity v
     \<and> set (m_labels x) \<subseteq> {s_PeerIdentity v, ''tx'', ''rx''}) (session_metrics_of v)"
    by (simp add: session_metrics_of_def Let_def const_metric_def well_labelled_def Describe_def session_desc_defs)
  then show "x \<in> set (session_metrics_of v) \<Longrightarrow> well_labelled x \<and> m_labels x \<noteq> [] \<and> hd (m_labels x) = s_PeerIdentity v
     \<and> set (m_labels x) \<subseteq> {s_PeerIdentity v, ''tx'', ''rx''}"
    by (auto simp: list_all_iff)
qed

lemma distinct_map_append:
  assumes "distinct (map f xs)" and "distinct (map f ys)" and "\<And>x y. x \<in> set xs \<Longrightarrow> y \<in> set ys \<Longrightarrow> f x \<noteq> f y"
  shows "distinct (map f (xs @ ys))"
proof -
  have "f ` set xs \<inter> f ` set ys = {}" using assms(3) by blast
  then show ?thesis using assms(1,2) by simp
qed

lemma distinct_map_insert: "distinct (map f ((xs @ zs) @ ys)) \<Longrightarrow> distinct (map f (xs @ ys @ zs))"
  by auto

lemma metrics_keys_distinct:
  assumes "distinct (map fst m)" and "\<forall>(p, v) \<in> set m. s_PeerIdentity v = p"
  shows "distinct (map metric_key (concat (map (\<lambda>v. session_metrics_of (snd v)) m)))"
  using assms
proof (induction m)
  case (Cons e m)
  have "hd (m_labels x) \<noteq> hd (m_labels y)" if x: "x \<in> set (session_metrics_of (snd e))" and y: "y \<in> set (concat (map (\<lambda>v. session_metrics_of (snd v)) m))" for x y
  proof -
    obtain p v where v: "(p, v) \<in> set m" "y \<in> set (session_metrics_of v)" using y by force
    have "s_PeerIdentity (snd e) = fst e" "s_PeerIdentity v = p" "p \<noteq> fst e" using Cons.prems v(1) by (auto simp: split_beta rev_image_eqI)
    then show ?thesis using session_metrics_keys(2) [OF x] session_metrics_keys(2) [OF v(2)] by simp
  qed
  then have "metric_key x \<noteq> metric_key y" if "x \<in> set (session_metrics_of (snd e))" "y \<in> set (concat (map (\<lambda>v. session_metrics_of (snd v)) m))" for x y
    using that unfolding metric_key_def by (metis prod.inject)
  moreover have "distinct (map metric_key (concat (map (\<lambda>v. session_metrics_of (snd v)) m)))" using Cons by simp
  ultimately have "distinct (map metric_key (session_metrics_of (snd e) @ concat (map (\<lambda>v. session_metrics_of (snd v)) m)))"
    using session_metrics_keys(1) by (intro distinct_map_append)
  then show ?case by simp
qed simp

text \<open>(C38) A metrics scrape never panics and never fails: every value of the collector belongs to a described metric and carries exactly
  its labels, no two values have the same name and labels although several sessions of the same peer may be active, and
  all metrics of the server itself are present.  The client library promises to take label values of the right number that are valid text.\<close>

theorem metrics_scrape:
  fixes valid :: "string \<Rightarrow> bool"
  assumes accepts: "\<And>d ls. length ls = length (desc_labels d) \<Longrightarrow> list_all valid ls \<Longrightarrow> accepts d ls"
    and valid: "valid ''tx''" "valid ''rx''" "\<And>t. t \<in> set (getAllTunnels s) \<Longrightarrow> valid (s_PeerIdentity (tunnel_Stats s t))"
  shows "\<exists>ms. Collect accepts started now (server_Stats lst hoc s) = Some ms \<and> list_all well_labelled ms
     \<and> distinct (map metric_key ms) \<and> {d \<in> set Describe. desc_labels d = []} \<subseteq> m_desc ` set ms"
proof -
  let ?st = "server_Stats lst hoc s"
  define cs where "cs = concat (map (\<lambda>v. session_metrics_of (snd v)) (st_sessions ?st))"
  define front where "front = [const_metric uptimeDesc GaugeValue (time_sub now started) [],
             const_metric sessionsDesc GaugeValue (uint (st_NumSessions ?st)) [],
             const_metric acceptedDesc CounterValue (uint (st_Accepted ?st)) [],
             const_metric servedDesc CounterValue (uint (st_Served ?st)) [],
             const_metric authorizedDesc CounterValue (uint (st_Authorized ?st)) [],
             const_metric requestsDesc CounterValue (uint (st_ReqTotal ?st)) [],
             const_metric requestsSuccessDesc CounterValue (uint (st_ReqSuccess ?st)) []]"
  define total where "total = const_metric streamsDesc GaugeValue (uint (sum_list (map (\<lambda>v. s_NumStreams (snd v)) (st_sessions ?st)))) []"
  note L = stats_sessions [where s = s and l = lst and h = hoc]
  have sess: "well_labelled x \<and> m_labels x \<noteq> [] \<and> list_all valid (m_labels x)" if x: "x \<in> set cs" for x
  proof -
    obtain p v where v: "(p, v) \<in> set (st_sessions ?st)" "x \<in> set (session_metrics_of v)" using x by (force simp: cs_def)
    obtain t where "t \<in> set (getAllTunnels s)" "v = tunnel_Stats s t" using latest_sessions_entry(1) [OF L(1) v(1)] by auto
    then have "valid (s_PeerIdentity v)" using valid(3) by simp
    then show ?thesis using session_metrics_keys(2) [OF v(2)] valid(1,2) by (auto simp: list_all_iff)
  qed
  have fr: "list_all well_labelled (front @ [total])" "list_all (\<lambda>x. m_labels x = []) (front @ [total])"
    by (simp_all add: front_def total_def well_labelled_def const_metric_def Describe_def server_desc_defs)
  have "distinct (map metric_key (front @ [total]))"
    by (simp add: front_def total_def metric_key_def const_metric_def server_desc_defs)
  moreover have "distinct (map metric_key cs)"
    using L unfolding cs_def by (intro metrics_keys_distinct) (auto simp: latest_sessions_def)
  moreover have "metric_key x \<noteq> metric_key y" if "x \<in> set (front @ [total])" "y \<in> set cs" for x y
    using fr(2) sess [OF that(2)] that(1) unfolding metric_key_def list_all_iff by auto
  ultimately have "distinct (map metric_key (front @ cs @ [total]))" by (rule distinct_map_insert [OF distinct_map_append])
  moreover have "list_all (\<lambda>x. accepts (m_desc x) (m_labels x)) (front @ cs @ [total])"
    using fr sess by (auto simp: list_all_iff well_labelled_def intro!: accepts)
  moreover have "list_all well_labelled (front @ cs @ [total])" using fr sess by (auto simp: list_all_iff)
  moreover have "{d \<in> set Describe. desc_labels d = []} \<subseteq> m_desc ` set (front @ [total])"
    by (auto simp: front_def total_def const_metric_def Describe_def session_desc_defs)
  ultimately show ?thesis unfolding Collect_def Let_def front_def total_def cs_def by auto
qed


theorem metrics_scrape_witness:
  "case NewServer ok_env Default of Inl _ \<Rightarrow> False | Inr s \<Rightarrow>
     (\<exists>ms. Collect (\<lambda>d ls. length ls = length (desc_labels d)) 0 9 (server_Stats (0, 0) 0 s) = Some ms \<and> distinct (map metric_key ms))"
proof -
  obtain s where s: "NewServer ok_env Default = Inr s"
    by (simp add: NewServer_def NewTLSConfig_def Default_def)
  show ?thesis using metrics_scrape [of "\<lambda>_. True" "\<lambda>d ls. length ls = length (desc_labels d)" s 0 9 "(0, 0)" 0] s by auto
qed

section \<open>Dispatch\<close>

datatype http_response =
    Status nat
  | StatsPage nat "stats_page option"
  | MetricsPage "metric list option"      \<comment> \<open>what the collector of the server delivers\<close>
  | MemPage "mem_report option"
  | StackPage string
  | HandlerPanic                          \<comment> \<open>net/http recovers it and drops the connection\<close>

text \<open>What the handlers read besides the request and the server.\<close>

record http_ctx =
  x_api :: api_env
  x_mem :: mem_stats
  x_now :: go_time
  x_started :: go_time
  x_listener :: "u64 \<times> u64"
  x_halfOpen :: int
  x_accepts :: "metric_desc \<Rightarrow> string list \<Rightarrow> bool"
  x_stack :: "nat \<Rightarrow> string"

definition newAPIMetricsHandler :: "http_ctx \<Rightarrow> request \<Rightarrow> server \<Rightarrow> http_response" where
  "newAPIMetricsHandler x r s =
     (if req_Method r \<noteq> GET then Status StatusMethodNotAllowed
      else MetricsPage (Collect (x_accepts x) (x_started x) (x_now x) (server_Stats (x_listener x) (x_halfOpen x) s)))"

text \<open>\<open>runtime.Stack\<close> fills at most the buffer it is given.\<close>

type_synonym api_state = "logger \<times> server \<times> api_stats"

definition RunHTTPServer :: "http_ctx \<Rightarrow> request \<Rightarrow> api_state \<Rightarrow> http_response \<times> api_state" where
  "RunHTTPServer x r st =
     (case st of (lg, s, l) \<Rightarrow>
        if req_Path r = ''/healthy'' then (Status StatusOK, st)
        else if req_Path r = ''/config'' then
          (case apiConfigHandler (x_api x) r lg s of
             (None, lg, s) \<Rightarrow> (HandlerPanic, lg, s, l)
           | (Some code, lg, s) \<Rightarrow> (Status code, lg, s, l))
        else if req_Path r = ''/stats'' then
          (case apiStatsHandler (req_Method r) (req_Query r) (x_mem x) (x_started x) (x_now x)
                  (server_Stats (x_listener x) (x_halfOpen x) s) l of
             ((code, pg), l) \<Rightarrow> (StatsPage code pg, lg, s, l))
        else if req_Path r = ''/metrics'' then (newAPIMetricsHandler x r s, st)
        else if req_Path r = ''/gc'' then
          (if req_Method r \<noteq> POST then Status StatusMethodNotAllowed else MemPage (printMemStats (x_now x) (x_mem x)), st)
        else if req_Path r = ''/stack'' then
          (if req_Method r \<noteq> GET then Status StatusMethodNotAllowed else StackPage (take 65536 (x_stack x 65536)), st)
        else (Status StatusNotFound, st))"

fun api_run :: "(http_ctx \<times> request) list \<Rightarrow> api_state \<Rightarrow> http_response list \<times> api_state" where
  "api_run [] st = ([], st)"
| "api_run ((x, r) # rs) st = (let (p, st) = RunHTTPServer x r st; (ps, st) = api_run rs st in (p # ps, st))"

definition api_paths :: "string set" where
  "api_paths = {''/healthy'', ''/config'', ''/stats'', ''/metrics'', ''/gc'', ''/stack''}"

definition refused :: "http_response set" where
  "refused = {Status StatusNotFound, Status StatusMethodNotAllowed, StatsPage StatusMethodNotAllowed None}"

lemma dispatch_frame:
  "(case RunHTTPServer x r (lg, s, l) of (p, lg', s', l') \<Rightarrow>
     (lg' = lg \<and> s' = s \<or> req_Method r = POST \<and> req_Path r = ''/config'') \<and> (l' = l \<or> req_Method r = POST \<and> req_Path r = ''/stats''))"
  by (auto simp: RunHTTPServer_def apiConfigHandler_def apiStatsHandler_def Let_def
      split: if_splits option.splits prod.splits sum.splits outcome.splits)

text \<open>The HTTP interface is safe to poll.  Whatever sequence of requests is served, the server and the logger are changed by nothing but a POST to
  /config and the remembered counters by nothing but a POST to /stats; a path that is not registered is answered with 404 and
  a method other than GET and POST never reaches a handler that acts.\<close>

theorem api_polling_is_pure:
  assumes "api_run rs (lg, s, l) = (ps, lg', s', l')"
  shows "length ps = length rs
     \<and> (lg' = lg \<and> s' = s \<or> (\<exists>(x, r) \<in> set rs. req_Method r = POST \<and> req_Path r = ''/config''))
     \<and> (l' = l \<or> (\<exists>(x, r) \<in> set rs. req_Method r = POST \<and> req_Path r = ''/stats''))
     \<and> (\<forall>((x, r), p) \<in> set (zip rs ps).
          (req_Path r \<notin> api_paths \<longrightarrow> p = Status StatusNotFound)
        \<and> (req_Method r \<notin> {GET, POST} \<longrightarrow> p \<in> insert (Status StatusOK) refused))"
  using assms
proof (induction rs arbitrary: lg s l ps)
  case (Cons e rs)
  obtain x r where e: "e = (x, r)" by (cases e)
  obtain p lg1 s1 l1 where d: "RunHTTPServer x r (lg, s, l) = (p, lg1, s1, l1)" by (metis prod.exhaust)
  obtain qs where q: "api_run rs (lg1, s1, l1) = (qs, lg', s', l')" "ps = p # qs"
    using Cons.prems by (auto simp: e d Let_def split: prod.splits)
  have a: "(req_Path r \<notin> api_paths \<longrightarrow> p = Status StatusNotFound) \<and> (req_Method r \<notin> {GET, POST} \<longrightarrow> p \<in> insert (Status StatusOK) refused)"
    using d by (auto simp: RunHTTPServer_def apiConfigHandler_def apiStatsHandler_def newAPIMetricsHandler_def refused_def api_paths_def
        split: if_splits)
  have f: "(lg1 = lg \<and> s1 = s \<or> req_Method r = POST \<and> req_Path r = ''/config'') \<and> (l1 = l \<or> req_Method r = POST \<and> req_Path r = ''/stats'')"
    using dispatch_frame [where x = x and r = r and lg = lg and s = s and l = l] by (simp add: d)
  note ih = Cons.IH [OF q(1)]
  show ?case unfolding e q(2)
  proof (intro conjI, goal_cases)
    case 4
    then show ?case using ih a by simp
  qed (use ih f in auto)
qed simp

theorem api_polling_is_pure_witness:
  "case NewServer ok_env Default of Inl _ \<Rightarrow> False | Inr s \<Rightarrow>
     let x = \<lparr>x_api = api_example, x_mem = mem_example, x_now = 9, x_started = 0, x_listener = (0, 0), x_halfOpen = 0,
              x_accepts = (\<lambda>d ls. True), x_stack = (\<lambda>_. '''')\<rparr>;
         l = remember 0 (server_Stats (0, 0) 0 s)
     in case api_run [(x, post_example\<lparr>req_Path := ''/nowhere''\<rparr>), (x, post_example\<lparr>req_Method := GET\<rparr>)] ((OutputStdout, 4), s, l) of
          (ps, lg', s', l') \<Rightarrow> ps = [Status 404, Status 405] \<and> lg' = (OutputStdout, 4) \<and> s' = s \<and> l' = l"
proof -
  obtain s where s: "NewServer ok_env Default = Inr s" by (simp add: NewServer_def NewTLSConfig_def Default_def)
  let ?x = "\<lparr>x_api = api_example, x_mem = mem_example, x_now = 9, x_started = 0, x_listener = (0, 0), x_halfOpen = 0,
              x_accepts = (\<lambda>d ls. True), x_stack = (\<lambda>_. '''')\<rparr>"
  let ?l = "remember 0 (server_Stats (0, 0) 0 s)"
  let ?rs = "[(?x, post_example\<lparr>req_Path := ''/nowhere''\<rparr>), (?x, post_example\<lparr>req_Method := GET\<rparr>)]"
  obtain ps lg' s' l' where r: "api_run ?rs ((OutputStdout, 4), s, ?l) = (ps, lg', s', l')" by (metis prod.exhaust)
  moreover have "ps = [Status 404, Status 405]"
    using r by (auto simp: RunHTTPServer_def apiConfigHandler_def post_example_def status_defs)
  ultimately show ?thesis using api_polling_is_pure [OF r] s by (auto simp: Let_def post_example_def)
qed

end
