(* ===== verification/Cert.thy ===== *)
theory Cert
  imports Prelude
begin

text \<open>
  Key and certificate generation, \<^verbatim>\<open>v4/cert.go\<close>.  Key generation, X.509 and PEM belong to the crypto packages of Go; the
  record \<open>crypto\<close> holds what the code calls of them.  The goroutines of \<^verbatim>\<open>genCerts\<close>, one per name, are an inductive
  step relation over the file system, so that every interleaving of their writes is covered.
\<close>

section \<open>Flags\<close>

text \<open>The command line, of \<^verbatim>\<open>v4/app.go\<close>.\<close>

record app_flags =
  f_Help :: bool
  f_Color :: bool
  f_Config :: string
  f_DumpConfig :: bool
  f_ServerName :: string
  f_GenCerts :: string
  f_Sign :: string
  f_KeyType :: string
  f_KeySize :: int
  f_LogLevel :: int

section \<open>Keys and certificates\<close>

datatype cert_error =
    InvalidKeySize | InvalidKeyType | GenerateError | MarshalKeyError | SerialError | CreateError
  | ReadError string | CertNotFound string | ParseCertError | KeyNotFound string | ParseKeyError | WriteError string

datatype key_spec = RSA int | ECDSA nat | Ed25519

definition makeKeyGenerator :: "string \<Rightarrow> int \<Rightarrow> cert_error + key_spec" where
  "makeKeyGenerator keytype keysize =
     (if keytype = ''rsa'' then Inr (RSA (if keysize = 0 then 4096 else keysize))
      else if keytype = ''ecdsa'' then
        let keysize = (if keysize = 0 then 256 else keysize)
        in if keysize = 224 then Inr (ECDSA 224)
           else if keysize = 256 then Inr (ECDSA 256)
           else if keysize = 384 then Inr (ECDSA 384)
           else if keysize = 521 then Inr (ECDSA 521)
           else Inl InvalidKeySize
      else if keytype = ''ed25519'' then Inr Ed25519
      else Inl InvalidKeyType)"

datatype ext_key_usage = ServerAuth | ClientAuth

record cert_template =
  NotBefore :: go_time
  NotAfter :: go_time
  SerialNumber :: int
  CommonName :: string
  DNSNames :: "string list"
  ExtKeyUsage :: "ext_key_usage list"
  BasicConstraintsValid :: bool
  IsCA :: bool

record pem_block =
  b_Type :: string
  b_Bytes :: string

text \<open>\<open>n\<close> tells apart the draws of the random generator; \<open>c_addDays\<close> is \<^verbatim>\<open>AddDate(0, 0, d)\<close> in the local time zone.  A signer of
  \<open>None\<close> is the template itself.\<close>

record ('p, 'k, 'c) crypto =
  c_generate :: "key_spec \<Rightarrow> nat \<Rightarrow> ('p \<times> 'k) option"
  c_marshalKey :: "'k \<Rightarrow> string option"
  c_serial :: "nat \<Rightarrow> int option"
  c_now :: "nat \<Rightarrow> go_time"
  c_addDays :: "go_time \<Rightarrow> int \<Rightarrow> go_time"
  c_create :: "cert_template \<Rightarrow> 'c option \<Rightarrow> 'p \<Rightarrow> 'k \<Rightarrow> string option"
  c_parseCert :: "string \<Rightarrow> 'c option"
  c_parseKey :: "string \<Rightarrow> 'k option"
  c_encode :: "pem_block \<Rightarrow> string"
  c_decode :: "string \<Rightarrow> (pem_block \<times> string) option"

definition newCertificate ::
  "('p, 'k, 'c) crypto \<Rightarrow> nat \<Rightarrow> ('c \<times> 'k) option \<Rightarrow> string \<Rightarrow> 'p \<Rightarrow> 'k \<Rightarrow> cert_error + string \<times> string" where
  "newCertificate c n parent sni pubKey key =
     (case c_marshalKey c key of
        None \<Rightarrow> Inl MarshalKeyError
      | Some rawKey \<Rightarrow>
          let keyPEM = c_encode c \<lparr>b_Type = ''PRIVATE KEY'', b_Bytes = rawKey\<rparr>
          in case c_serial c n of
               None \<Rightarrow> Inl SerialError
             | Some serial \<Rightarrow>
                 let now = c_now c n;
                     tmpl = \<lparr>NotBefore = now, NotAfter = c_addDays c now 3652, SerialNumber = serial, CommonName = sni,
                             DNSNames = [sni], ExtKeyUsage = [ServerAuth, ClientAuth], BasicConstraintsValid = False, IsCA = False\<rparr>;
                     (tmpl, signKey) = (case parent of
                         None \<Rightarrow> (tmpl\<lparr>BasicConstraintsValid := True, IsCA := True\<rparr>, key)
                       | Some (_, sk) \<Rightarrow> (tmpl, sk))
                 in case c_create c tmpl (map_option fst parent) pubKey signKey of
                      None \<Rightarrow> Inl CreateError
                    | Some rawCert \<Rightarrow> Inr (c_encode c \<lparr>b_Type = ''CERTIFICATE'', b_Bytes = rawCert\<rparr>, keyPEM))"

section \<open>Reading and writing pairs\<close>

text \<open>The loop over the blocks of a file.  \<open>None\<close> is not returning, \<open>Some None\<close> the nil slice.\<close>

partial_function (option) parsePEM ::
  "(string \<Rightarrow> (pem_block \<times> string) option) \<Rightarrow> string \<Rightarrow> string \<Rightarrow> string option option" where
  "parsePEM decode b blockType =
     (case decode b of
        None \<Rightarrow> Some None
      | Some (p, rest) \<Rightarrow> if b_Type p = blockType then Some (Some (b_Bytes p)) else parsePEM decode rest blockType)"

declare parsePEM.simps [code]

text \<open>A file has permission bits and contents.  \<^verbatim>\<open>os.WriteFile\<close> sets the permissions only of a file it creates (before the
  umask); \<open>w\<close> is whether writing the path succeeds.\<close>

type_synonym files = "string \<rightharpoonup> nat \<times> string"

definition WriteFile :: "(string \<Rightarrow> bool) \<Rightarrow> string \<Rightarrow> string \<Rightarrow> nat \<Rightarrow> files \<Rightarrow> bool \<times> files" where
  "WriteFile w path data perm f =
     (if w path then (True, f(path \<mapsto> (case f path of None \<Rightarrow> perm | Some (m, _) \<Rightarrow> m, data))) else (False, f))"

definition certFile :: "string \<Rightarrow> string" where "certFile name = name @ ''-cert.pem''"
definition keyFile :: "string \<Rightarrow> string" where "keyFile name = name @ ''-key.pem''"

definition readKeyPair :: "('p, 'k, 'c) crypto \<Rightarrow> files \<Rightarrow> string \<Rightarrow> (cert_error + 'c \<times> 'k) option" where
  "readKeyPair c f name =
     (case f (certFile name) of
        None \<Rightarrow> Some (Inl (ReadError (certFile name)))
      | Some (_, certPEM) \<Rightarrow>
          (case parsePEM (c_decode c) certPEM ''CERTIFICATE'' of
             None \<Rightarrow> None
           | Some None \<Rightarrow> Some (Inl (CertNotFound (certFile name)))
           | Some (Some certDER) \<Rightarrow>
               (case c_parseCert c certDER of
                  None \<Rightarrow> Some (Inl ParseCertError)
                | Some cert \<Rightarrow>
                    (case f (keyFile name) of
                       None \<Rightarrow> Some (Inl (ReadError (keyFile name)))
                     | Some (_, keyPEM) \<Rightarrow>
                         (case parsePEM (c_decode c) keyPEM ''PRIVATE KEY'' of
                            None \<Rightarrow> None
                          | Some None \<Rightarrow> Some (Inl (KeyNotFound (keyFile name)))
                          | Some (Some keyDER) \<Rightarrow>
                              (case c_parseKey c keyDER of
                                 None \<Rightarrow> Some (Inl ParseKeyError)
                               | Some key \<Rightarrow> Some (Inr (cert, key))))))))"

section \<open>Generating a batch\<close>

text \<open>\<^verbatim>\<open>strings.Split\<close> for a one-character separator.\<close>

fun split_all :: "char \<Rightarrow> string \<Rightarrow> string list" where
  "split_all c [] = [[]]"
| "split_all c (x # xs) =
     (if x = c then [] # split_all c xs
      else case split_all c xs of [] \<Rightarrow> [[x]] | w # ws \<Rightarrow> (x # w) # ws)"

text \<open>One goroutine: before it runs, about to write the certificate, about to write the key, returned, panicked.\<close>

datatype gtask = TStart | TCert string string | TKey string string | TDone string string | TPanic cert_error

record ('p, 'k, 'c) batch =
  g_crypto :: "('p, 'k, 'c) crypto"
  g_keygen :: key_spec
  g_parent :: "('c \<times> 'k) option"
  g_serverName :: string
  g_names :: "string list"
  g_writable :: "string \<Rightarrow> bool"

definition make_pair :: "('p, 'k, 'c) batch \<Rightarrow> nat \<Rightarrow> gtask" where
  "make_pair g i =
     (case c_generate (g_crypto g) (g_keygen g) i of
        None \<Rightarrow> TPanic GenerateError
      | Some (pubKey, key) \<Rightarrow>
          (case newCertificate (g_crypto g) i (g_parent g) (g_serverName g) pubKey key of
             Inl e \<Rightarrow> TPanic e
           | Inr (certPEM, keyPEM) \<Rightarrow> TCert certPEM keyPEM))"

text \<open>\<^verbatim>\<open>writeKeyPair\<close> is the rules \<open>cert\<close> and \<open>key\<close>, between which other goroutines run.\<close>

inductive gen_step :: "('p, 'k, 'c) batch \<Rightarrow> files \<times> gtask list \<Rightarrow> files \<times> gtask list \<Rightarrow> bool" for g where
  make: "i < length ts \<Longrightarrow> ts ! i = TStart \<Longrightarrow> gen_step g (f, ts) (f, ts[i := make_pair g i])"
| cert: "i < length ts \<Longrightarrow> ts ! i = TCert a b \<Longrightarrow> WriteFile (g_writable g) (certFile (g_names g ! i)) a 420 f = (ok, f') \<Longrightarrow>
         gen_step g (f, ts) (f', ts[i := if ok then TKey a b else TPanic (WriteError (certFile (g_names g ! i)))])"
| key: "i < length ts \<Longrightarrow> ts ! i = TKey a b \<Longrightarrow> WriteFile (g_writable g) (keyFile (g_names g ! i)) b 384 f = (ok, f') \<Longrightarrow>
        gen_step g (f, ts) (f', ts[i := if ok then TDone a b else TPanic (WriteError (keyFile (g_names g ! i)))])"

definition ended :: "gtask \<Rightarrow> bool" where
  "ended t = (case t of TDone _ _ \<Rightarrow> True | TPanic _ \<Rightarrow> True | _ \<Rightarrow> False)"

text \<open>\<^verbatim>\<open>genCerts\<close> up to the goroutines: the exit code of an early return, or the batch to run.  The outer \<open>None\<close> is not
  returning.  At the end the exit code is that of \<^verbatim>\<open>g.Wait\<close>, whose package is not under src/.\<close>

definition genCerts :: "('p, 'k, 'c) crypto \<Rightarrow> (string \<Rightarrow> bool) \<Rightarrow> files \<Rightarrow> app_flags \<Rightarrow> (int + ('p, 'k, 'c) batch) option" where
  "genCerts c w f fl =
     (case makeKeyGenerator (f_KeyType fl) (f_KeySize fl) of
        Inl _ \<Rightarrow> Some (Inl 1)
      | Inr spec \<Rightarrow>
          (case (if f_Sign fl \<noteq> '''' then map_option (map_sum id Some) (readKeyPair c f (f_Sign fl)) else Some (Inr None)) of
             None \<Rightarrow> None
           | Some (Inl _) \<Rightarrow> Some (Inl 1)
           | Some (Inr parent) \<Rightarrow>
               Some (Inr \<lparr>g_crypto = c, g_keygen = spec, g_parent = parent, g_serverName = f_ServerName fl,
                          g_names = split_all (CHR '','') (f_GenCerts fl), g_writable = w\<rparr>)))"

definition genCerts_exit :: "(gtask list \<Rightarrow> bool) \<Rightarrow> gtask list \<Rightarrow> int" where
  "genCerts_exit wait ts = (if wait ts then 0 else 1)"

section \<open>Reading PEM files\<close>

text \<open>The blocks of a file, in order.\<close>

inductive pem_blocks :: "(string \<Rightarrow> (pem_block \<times> string) option) \<Rightarrow> string \<Rightarrow> pem_block list \<Rightarrow> bool" for decode where
  none: "decode b = None \<Longrightarrow> pem_blocks decode b []"
| more: "decode b = Some (p, rest) \<Longrightarrow> pem_blocks decode rest ps \<Longrightarrow> pem_blocks decode b (p # ps)"

lemma parsePEM_blocks:
  "pem_blocks decode b ps \<Longrightarrow> parsePEM decode b ty = Some (map_option b_Bytes (find (\<lambda>p. b_Type p = ty) ps))"
  by (induction rule: pem_blocks.induct) (simp_all add: parsePEM.simps)

lemma pem_blocks_exist:
  assumes "\<And>b p rest. decode b = Some (p, rest) \<Longrightarrow> length rest < length b"
  shows "\<exists>ps. pem_blocks decode b ps \<and> length ps \<le> length b"
proof (induction b rule: length_induct)
  case (1 b)
  show ?case
  proof (cases "decode b")
    case None
    then show ?thesis by (auto intro: pem_blocks.none)
  next
    case (Some x)
    obtain p rest where d: "decode b = Some (p, rest)" using Some by (cases x) auto
    obtain ps where "pem_blocks decode rest ps" "length ps \<le> length rest" using 1 assms [OF d] by blast
    then show ?thesis using pem_blocks.more [of decode, OF d] assms [OF d] by (intro exI [of _ "p # ps"]) auto
  qed
qed

text \<open>Looking for a block of a PEM file always ends, after at most as many rounds as the file has bytes, and returns the
  contents of the first block of the wanted type, or nothing when no block has it, provided decoding a block consumes input.\<close>

theorem parse_pem_returns:
  assumes "\<And>b p rest. decode b = Some (p, rest) \<Longrightarrow> length rest < length b"
  shows "\<exists>ps. pem_blocks decode b ps \<and> length ps \<le> length b
     \<and> parsePEM decode b ty = Some (map_option b_Bytes (find (\<lambda>p. b_Type p = ty) ps))"
  using pem_blocks_exist [of decode b] assms parsePEM_blocks by blast

text \<open>A codec for examples: the type, a colon, the length in unary, a colon and the contents.\<close>

definition toy_encode :: "pem_block \<Rightarrow> string" where
  "toy_encode p = b_Type p @ CHR '':'' # replicate (length (b_Bytes p)) (CHR ''x'') @ CHR '':'' # b_Bytes p"

definition toy_decode :: "string \<Rightarrow> (pem_block \<times> string) option" where
  "toy_decode s =
     (case dropWhile (\<lambda>x. x \<noteq> CHR '':'') s of
        [] \<Rightarrow> None
      | _ # r \<Rightarrow>
          let n = length (takeWhile (\<lambda>x. x = CHR ''x'') r); q = drop (Suc n) r
          in Some (\<lparr>b_Type = takeWhile (\<lambda>x. x \<noteq> CHR '':'') s, b_Bytes = take n q\<rparr>, drop n q))"

lemma toy_decode_progress: "toy_decode b = Some (p, rest) \<Longrightarrow> length rest < length b"
  using length_dropWhile_le [of "\<lambda>x. x \<noteq> CHR '':''" b] by (auto simp: toy_decode_def Let_def split: list.splits)

lemma cut_at: "c \<notin> set t \<Longrightarrow> takeWhile (\<lambda>x. x \<noteq> c) (t @ c # r) = t \<and> dropWhile (\<lambda>x. x \<noteq> c) (t @ c # r) = c # r"
  by (induction t) auto

lemma toy_decode_encode:
  assumes "CHR '':'' \<notin> set (b_Type p)"
  shows "toy_decode (toy_encode p @ rest) = Some (p, rest)"
proof -
  let ?t = "CHR '':'' # replicate (length (b_Bytes p)) (CHR ''x'') @ CHR '':'' # b_Bytes p @ rest"
  note cut_at [OF assms]
  moreover have "takeWhile (\<lambda>x. x = CHR ''x'') (replicate n (CHR ''x'') @ CHR '':'' # xs) = replicate n (CHR ''x'')" for n xs
    by (induction n) auto
  ultimately show ?thesis by (simp add: toy_decode_def toy_encode_def Let_def)
qed

theorem parse_pem_returns_witness:
  "\<exists>ps. pem_blocks toy_decode (toy_encode \<lparr>b_Type = ''A'', b_Bytes = ''1''\<rparr> @ toy_encode \<lparr>b_Type = ''B'', b_Bytes = ''2''\<rparr>) ps \<and> length ps \<le> 10
     \<and> parsePEM toy_decode (toy_encode \<lparr>b_Type = ''A'', b_Bytes = ''1''\<rparr> @ toy_encode \<lparr>b_Type = ''B'', b_Bytes = ''2''\<rparr>) ''B''
         = Some (map_option b_Bytes (find (\<lambda>p. b_Type p = ''B'') ps))"
proof -
  let ?s = "toy_encode \<lparr>b_Type = ''A'', b_Bytes = ''1''\<rparr> @ toy_encode \<lparr>b_Type = ''B'', b_Bytes = ''2''\<rparr>"
  have "\<exists>ps. pem_blocks toy_decode ?s ps \<and> length ps \<le> length ?s
     \<and> parsePEM toy_decode ?s ''B'' = Some (map_option b_Bytes (find (\<lambda>p. b_Type p = ''B'') ps))"
    by (rule parse_pem_returns) (rule toy_decode_progress)
  moreover have "length ?s = 10" by (simp add: toy_encode_def)
  ultimately show ?thesis by metis
qed

section \<open>A batch writes matching pairs\<close>

lemma file_names [simp]:
  "certFile a = certFile b \<longleftrightarrow> a = b" "keyFile a = keyFile b \<longleftrightarrow> a = b" "certFile a \<noteq> keyFile b" "keyFile b \<noteq> certFile a"
proof -
  show "certFile a = certFile b \<longleftrightarrow> a = b" "keyFile a = keyFile b \<longleftrightarrow> a = b" by (simp_all add: certFile_def keyFile_def)
  have "rev (certFile a) \<noteq> rev (keyFile b)" by (simp add: certFile_def keyFile_def)
  then show "certFile a \<noteq> keyFile b" "keyFile b \<noteq> certFile a" by metis+
qed

definition mode_of :: "files \<Rightarrow> string \<Rightarrow> nat \<Rightarrow> nat" where
  "mode_of f p d = (case f p of None \<Rightarrow> d | Some (m, _) \<Rightarrow> m)"

lemma WriteFile_eq: "WriteFile w p data perm f = (if w p then (True, f(p \<mapsto> (mode_of f p perm, data))) else (False, f))"
  by (simp add: WriteFile_def mode_of_def)

text \<open>What goroutine \<open>i\<close> has done to its two files when the files were \<open>f0\<close> at the start.\<close>

definition untouched :: "('p, 'k, 'c) batch \<Rightarrow> files \<Rightarrow> files \<Rightarrow> nat \<Rightarrow> bool" where
  "untouched g f0 f i \<longleftrightarrow> f (certFile (g_names g ! i)) = f0 (certFile (g_names g ! i)) \<and> f (keyFile (g_names g ! i)) = f0 (keyFile (g_names g ! i))"

definition wrote_cert :: "('p, 'k, 'c) batch \<Rightarrow> files \<Rightarrow> files \<Rightarrow> nat \<Rightarrow> string \<Rightarrow> string \<Rightarrow> bool" where
  "wrote_cert g f0 f i a b \<longleftrightarrow> make_pair g i = TCert a b
     \<and> f (certFile (g_names g ! i)) = Some (mode_of f0 (certFile (g_names g ! i)) 420, a)"

definition wrote_key :: "('p, 'k, 'c) batch \<Rightarrow> files \<Rightarrow> files \<Rightarrow> nat \<Rightarrow> string \<Rightarrow> bool" where
  "wrote_key g f0 f i b \<longleftrightarrow> f (keyFile (g_names g ! i)) = Some (mode_of f0 (keyFile (g_names g ! i)) 384, b)"

fun task_ok :: "('p, 'k, 'c) batch \<Rightarrow> files \<Rightarrow> files \<Rightarrow> nat \<Rightarrow> gtask \<Rightarrow> bool" where
  "task_ok g f0 f i TStart = untouched g f0 f i"
| "task_ok g f0 f i (TCert a b) = (make_pair g i = TCert a b \<and> untouched g f0 f i)"
| "task_ok g f0 f i (TKey a b) = (wrote_cert g f0 f i a b \<and> f (keyFile (g_names g ! i)) = f0 (keyFile (g_names g ! i)))"
| "task_ok g f0 f i (TDone a b) = (wrote_cert g f0 f i a b \<and> wrote_key g f0 f i b)"
| "task_ok g f0 f i (TPanic e) =
     (f (keyFile (g_names g ! i)) = f0 (keyFile (g_names g ! i)) \<and> (untouched g f0 f i \<or> (\<exists>a b. wrote_cert g f0 f i a b)))"

lemmas task_defs = untouched_def wrote_cert_def wrote_key_def

text \<open>The files of one goroutine are the only ones it depends on.\<close>

lemma task_ok_cong:
  assumes "f (certFile (g_names g ! i)) = f' (certFile (g_names g ! i))" and "f (keyFile (g_names g ! i)) = f' (keyFile (g_names g ! i))"
  shows "task_ok g f0 f i t \<longleftrightarrow> task_ok g f0 f' i t"
proof -
  have "wrote_cert g f0 f i = wrote_cert g f0 f' i" "untouched g f0 f i = untouched g f0 f' i" "wrote_key g f0 f i = wrote_key g f0 f' i"
    using assms by (simp_all add: fun_eq_iff task_defs)
  then show ?thesis using assms(2) by (cases t) simp_all
qed

definition batch_inv :: "('p, 'k, 'c) batch \<Rightarrow> files \<Rightarrow> files \<times> gtask list \<Rightarrow> bool" where
  "batch_inv g f0 x \<longleftrightarrow> (case x of (f, ts) \<Rightarrow>
     length ts = length (g_names g) \<and> (\<forall>i < length ts. task_ok g f0 f i (ts ! i))
   \<and> (\<forall>p. p \<notin> certFile ` set (g_names g) \<union> keyFile ` set (g_names g) \<longrightarrow> f p = f0 p))"

text \<open>A step of goroutine \<open>i\<close> that changes at most its own files keeps what holds of the others.\<close>

lemma batch_inv_update:
  assumes inv: "batch_inv g f0 (f, ts)" and "distinct (g_names g)" and i: "i < length ts"
    and frame: "\<And>p. p \<notin> {certFile (g_names g ! i), keyFile (g_names g ! i)} \<Longrightarrow> f' p = f p"
    and ok: "task_ok g f0 f' i t"
  shows "batch_inv g f0 (f', ts[i := t])"
proof -
  have len: "length ts = length (g_names g)" using inv by (simp add: batch_inv_def)
  have "task_ok g f0 f' j (ts ! j)" if j: "j < length ts" "j \<noteq> i" for j
  proof -
    have "g_names g ! j \<noteq> g_names g ! i" using assms(2) i j len by (simp add: nth_eq_iff_index_eq)
    then have "task_ok g f0 f' j (ts ! j) = task_ok g f0 f j (ts ! j)" by (intro task_ok_cong frame) auto
    then show ?thesis using inv j by (simp add: batch_inv_def)
  qed
  moreover have "f' p = f0 p" if "p \<notin> certFile ` set (g_names g) \<union> keyFile ` set (g_names g)" for p
  proof -
    have "g_names g ! i \<in> set (g_names g)" using i len by simp
    then have "f' p = f p" using that by (intro frame) auto
    then show ?thesis using inv that by (simp add: batch_inv_def)
  qed
  ultimately show ?thesis using len ok i by (auto simp: batch_inv_def nth_list_update)
qed

lemma make_pair_cases: "(\<exists>a b. make_pair g i = TCert a b) \<or> (\<exists>e. make_pair g i = TPanic e)"
  by (auto simp: make_pair_def split: option.split sum.split)

lemma gen_step_inv:
  assumes "gen_step g x y" and "batch_inv g f0 x" and "distinct (g_names g)"
  shows "batch_inv g f0 y"
  using assms(1)
proof cases
  case (make i ts f)
  have "task_ok g f0 f i TStart" using assms(2) make by (auto simp: batch_inv_def)
  then have "task_ok g f0 f i (make_pair g i)" using make_pair_cases [of g i] by (auto simp: untouched_def)
  then show ?thesis using make assms by (auto intro: batch_inv_update)
next
  case (cert i ts a b f ok f')
  have "task_ok g f0 f i (TCert a b)" using assms(2) cert by (auto simp: batch_inv_def)
  then have "task_ok g f0 f' i (if ok then TKey a b else TPanic (WriteError (certFile (g_names g ! i))))"
    using cert(5) by (auto simp: WriteFile_eq task_defs mode_of_def split: if_splits)
  moreover have "f' p = f p" if "p \<notin> {certFile (g_names g ! i), keyFile (g_names g ! i)}" for p
    using cert(5) that by (auto simp: WriteFile_eq split: if_splits)
  ultimately show ?thesis using cert assms by (auto intro!: batch_inv_update)
next
  case (key i ts a b f ok f')
  have "task_ok g f0 f i (TKey a b)" using assms(2) key by (auto simp: batch_inv_def)
  then have "task_ok g f0 f' i (if ok then TDone a b else TPanic (WriteError (keyFile (g_names g ! i))))"
    using key(5) by (auto simp: WriteFile_eq task_defs mode_of_def split: if_splits)
  moreover have "f' p = f p" if "p \<notin> {certFile (g_names g ! i), keyFile (g_names g ! i)}" for p
    using key(5) that by (auto simp: WriteFile_eq split: if_splits)
  ultimately show ?thesis using key assms by (auto intro!: batch_inv_update)
qed

lemma gen_steps_inv:
  assumes "(gen_step g)\<^sup>*\<^sup>* x y" and "batch_inv g f0 x" and "distinct (g_names g)"
  shows "batch_inv g f0 y"
  using assms by (induction rule: rtranclp_induct) (auto intro: gen_step_inv)

lemma batch_start: "batch_inv g f (f, replicate (length (g_names g)) TStart)"
  by (simp add: batch_inv_def untouched_def)



section \<open>The batch ends\<close>

fun todo :: "gtask \<Rightarrow> nat" where
  "todo TStart = 3" | "todo (TCert a b) = 2" | "todo (TKey a b) = 1" | "todo (TDone a b) = 0" | "todo (TPanic e) = 0"

lemma gen_step_todo:
  assumes "gen_step g x y"
  shows "sum_list (map todo (snd y)) < sum_list (map todo (snd x)) \<and> length (snd y) = length (snd x)"
  using assms
proof cases
  case (make i ts f)
  then show ?thesis using make_pair_cases [of g i] by (auto intro!: sum_list_update_less)
qed (auto intro!: sum_list_update_less)

lemma gen_step_enabled:
  assumes "\<not> list_all ended ts"
  shows "\<exists>y. gen_step g (f, ts) y"
proof -
  obtain i where i: "i < length ts" "\<not> ended (ts ! i)" using assms by (auto simp: list_all_length)
  show ?thesis
  proof (cases "ts ! i")
    case TStart
    then show ?thesis using i gen_step.make by blast
  next
    case (TCert a b)
    then show ?thesis using i gen_step.cert [of i ts a b g f] by (metis surj_pair)
  next
    case (TKey a b)
    then show ?thesis using i gen_step.key [of i ts a b g f] by (metis surj_pair)
  qed (use i in \<open>auto simp: ended_def\<close>)
qed

text \<open>Generating certificates ends: whatever runs, at most three steps per name are taken, and as long as a goroutine has neither
  returned nor panicked some step can be taken.\<close>

theorem gen_certs_terminates:
  assumes "(gen_step g ^^ k) (f0, replicate (length (g_names g)) TStart) (f, ts)"
  shows "k \<le> 3 * length (g_names g) \<and> (list_all ended ts \<or> (\<exists>y. gen_step g (f, ts) y))"
proof -
  have "(gen_step g ^^ k) x y \<Longrightarrow> k + sum_list (map todo (snd y)) \<le> sum_list (map todo (snd x))" for x y
  proof (induction k arbitrary: y)
    case (Suc k)
    then obtain z where "(gen_step g ^^ k) x z" "gen_step g z y" by auto
    then show ?case using Suc.IH gen_step_todo by fastforce
  qed simp
  from this [OF assms] have "k \<le> 3 * length (g_names g)" by (simp add: sum_list_replicate)
  then show ?thesis using gen_step_enabled by blast
qed


section \<open>Signing with a generated pair\<close>

lemma parsePEM_single: "decode b = Some (p, rest) \<Longrightarrow> b_Type p = ty \<Longrightarrow> parsePEM decode b ty = Some (Some (b_Bytes p))"
  by (simp add: parsePEM.simps)

text \<open>What a generated pair consists of.\<close>

lemma make_pair_TCert:
  assumes "make_pair g i = TCert a b"
  obtains pub key rawKey rawCert tmpl parent sk where
    "c_generate (g_crypto g) (g_keygen g) i = Some (pub, key)" "c_marshalKey (g_crypto g) key = Some rawKey"
    "c_create (g_crypto g) tmpl parent pub sk = Some rawCert"
    "a = c_encode (g_crypto g) \<lparr>b_Type = ''CERTIFICATE'', b_Bytes = rawCert\<rparr>"
    "b = c_encode (g_crypto g) \<lparr>b_Type = ''PRIVATE KEY'', b_Bytes = rawKey\<rparr>"
  using assms by (auto simp: make_pair_def newCertificate_def Let_def split: option.splits sum.splits prod.splits)


section \<open>Examples\<close>

definition toy_crypto :: "(nat, string, string) crypto" where
  "toy_crypto =
     \<lparr>c_generate = (\<lambda>spec n. Some (n, nat_digits n)), c_marshalKey = Some, c_serial = (\<lambda>n. Some (int n)), c_now = (\<lambda>_. 0),
      c_addDays = (\<lambda>t d. t + d * 86400 * second), c_create = (\<lambda>t p pub k. Some (CHR ''C'' # k)), c_parseCert = Some, c_parseKey = Some,
      c_encode = toy_encode, c_decode = toy_decode\<rparr>"

definition toy_batch :: "string list \<Rightarrow> (nat, string, string) batch" where
  "toy_batch names = \<lparr>g_crypto = toy_crypto, g_keygen = Ed25519, g_parent = None, g_serverName = ''example.com'', g_names = names, g_writable = (\<lambda>_. True)\<rparr>"

lemma toy_make: "make_pair (toy_batch names) i =
    TCert (toy_encode \<lparr>b_Type = ''CERTIFICATE'', b_Bytes = CHR ''C'' # nat_digits i\<rparr>) (toy_encode \<lparr>b_Type = ''PRIVATE KEY'', b_Bytes = nat_digits i\<rparr>)"
  by (simp add: make_pair_def toy_batch_def toy_crypto_def newCertificate_def Let_def)

text \<open>A schedule is given by the goroutines that move, in order.\<close>

definition task_step :: "('p, 'k, 'c) batch \<Rightarrow> nat \<Rightarrow> files \<times> gtask list \<Rightarrow> files \<times> gtask list" where
  "task_step g i x =
     (case x of (f, ts) \<Rightarrow>
        (case ts ! i of
           TStart \<Rightarrow> (f, ts[i := make_pair g i])
         | TCert a b \<Rightarrow> (case WriteFile (g_writable g) (certFile (g_names g ! i)) a 420 f of
             (ok, f') \<Rightarrow> (f', ts[i := if ok then TKey a b else TPanic (WriteError (certFile (g_names g ! i)))]))
         | TKey a b \<Rightarrow> (case WriteFile (g_writable g) (keyFile (g_names g ! i)) b 384 f of
             (ok, f') \<Rightarrow> (f', ts[i := if ok then TDone a b else TPanic (WriteError (keyFile (g_names g ! i)))]))
         | _ \<Rightarrow> (f, ts)))"

lemma task_step_runs:
  assumes "i < length (snd x)"
  shows "(gen_step g)\<^sup>*\<^sup>* x (task_step g i x) \<and> length (snd (task_step g i x)) = length (snd x)"
proof -
  obtain f ts where x: "x = (f, ts)" by (cases x)
  show ?thesis
  proof (cases "ts ! i")
    case TStart
    then show ?thesis using assms gen_step.make [of i ts g f] by (simp add: x task_step_def r_into_rtranclp)
  next
    case (TCert a b)
    obtain ok f' where "WriteFile (g_writable g) (certFile (g_names g ! i)) a 420 f = (ok, f')" by fastforce
    then show ?thesis using assms TCert gen_step.cert [of i ts a b g f ok f'] by (auto simp: x task_step_def)
  next
    case (TKey a b)
    obtain ok f' where "WriteFile (g_writable g) (keyFile (g_names g ! i)) b 384 f = (ok, f')" by fastforce
    then show ?thesis using assms TKey gen_step.key [of i ts a b g f ok f'] by (auto simp: x task_step_def)
  qed (simp_all add: x task_step_def)
qed

lemma schedule_runs: "list_all (\<lambda>i. i < length (snd x)) is \<Longrightarrow> (gen_step g)\<^sup>*\<^sup>* x (fold (task_step g) is x)"
proof (induction "is" arbitrary: x)
  case (Cons i "is")
  have t: "(gen_step g)\<^sup>*\<^sup>* x (task_step g i x)" "length (snd (task_step g i x)) = length (snd x)"
    using task_step_runs [of i x g] Cons.prems by auto
  have "(gen_step g)\<^sup>*\<^sup>* (task_step g i x) (fold (task_step g) is (task_step g i x))" using Cons t(2) by simp
  then show ?case using t(1) by simp
qed simp

text \<open>Two goroutines for the same name: the certificate of one can end up beside the key of the other.\<close>

theorem duplicate_names_mismatch:
  assumes "g_names g = [x, x]" and "g_writable g = (\<lambda>_. True)" and "make_pair g 0 = TCert a0 b0" and "make_pair g 1 = TCert a1 b1"
  shows "\<exists>f. (gen_step g)\<^sup>*\<^sup>* (Map.empty, [TStart, TStart]) (f, [TDone a0 b0, TDone a1 b1])
     \<and> f (certFile x) = Some (420, a0) \<and> f (keyFile x) = Some (384, b1)"
proof -
  let ?f = "Map.empty(certFile x \<mapsto> (420, a1), certFile x \<mapsto> (420, a0), keyFile x \<mapsto> (384, b0), keyFile x \<mapsto> (384, b1))"
  have "fold (task_step g) [0, 1, 1, 0, 0, 1] (Map.empty, [TStart, TStart]) = (?f, [TDone a0 b0, TDone a1 b1])"
    using assms by (simp add: task_step_def WriteFile_def)
  with schedule_runs [of "(Map.empty, [TStart, TStart])" "[0, 1, 1, 0, 0, 1]" g]
  show ?thesis by (intro exI [of _ ?f]) simp
qed

lemma toy_run:
  defines "c0 \<equiv> toy_encode \<lparr>b_Type = ''CERTIFICATE'', b_Bytes = CHR ''C'' # nat_digits 0\<rparr>"
    and "k0 \<equiv> toy_encode \<lparr>b_Type = ''PRIVATE KEY'', b_Bytes = nat_digits 0\<rparr>"
  shows "(gen_step (toy_batch [''a'']))\<^sup>*\<^sup>* (Map.empty, replicate (length (g_names (toy_batch [''a'']))) TStart)
      ([certFile ''a'' \<mapsto> (420, c0), keyFile ''a'' \<mapsto> (384, k0)], [TDone c0 k0])"
proof -
  have n: "g_names (toy_batch [''a'']) = [''a'']" "g_writable (toy_batch [''a'']) = (\<lambda>_. True)" by (simp_all add: toy_batch_def)
  have m: "make_pair (toy_batch [''a'']) 0 = TCert c0 k0" unfolding c0_def k0_def by (rule toy_make)
  have "fold (task_step (toy_batch [''a''])) [0, 0, 0] (Map.empty, [TStart]) = ([certFile ''a'' \<mapsto> (420, c0), keyFile ''a'' \<mapsto> (384, k0)], [TDone c0 k0])"
    using m by (simp add: task_step_def WriteFile_def n)
  with schedule_runs [of "(Map.empty, [TStart])" "[0, 0, 0]" "toy_batch [''a'']"] show ?thesis by (simp add: n)
qed


theorem gen_certs_terminates_witness:
  "\<exists>k f ts. (gen_step (toy_batch [''a'']) ^^ k) (Map.empty, [TStart]) (f, ts) \<and> list_all ended ts \<and> k \<le> 3"
proof -
  have n: "g_names (toy_batch [''a'']) = [''a'']" by (simp add: toy_batch_def)
  obtain f c k j where "(gen_step (toy_batch [''a'']) ^^ j) (Map.empty, replicate (length (g_names (toy_batch [''a'']))) TStart) (f, [TDone c k])"
    using toy_run rtranclp_imp_relpowp by metis
  then show ?thesis using gen_certs_terminates [of j "toy_batch [''a'']" Map.empty f "[TDone c k]"] by (intro exI [of _ j] exI [of _ f] exI [of _ "[TDone c k]"]) (auto simp: n ended_def)
qed


section \<open>The list of names\<close>

text \<open>A list of names without commas is split back into these names; what is split has no comma left.\<close>

fun join :: "char \<Rightarrow> string list \<Rightarrow> string" where
  "join c [] = []"
| "join c [w] = w"
| "join c (w # v # ws) = w @ c # join c (v # ws)"

lemma split_all_append: "c \<notin> set w \<Longrightarrow> split_all c (w @ c # s) = w # split_all c s"
  by (induction w) auto

lemma split_all_single: "c \<notin> set w \<Longrightarrow> split_all c w = [w]"
  by (induction w) auto

lemma split_all_join: "ws \<noteq> [] \<Longrightarrow> list_all (\<lambda>w. c \<notin> set w) ws \<Longrightarrow> split_all c (join c ws) = ws"
  by (induction c ws rule: join.induct) (auto simp: split_all_append split_all_single)

lemma genCerts_names:
  assumes "genCerts c w f fl = Some (Inr g)" and "f_GenCerts fl = join (CHR '','') ws" and "ws \<noteq> []" and "list_all (\<lambda>w. CHR '','' \<notin> set w) ws"
  shows "g_names g = ws"
  using assms split_all_join [of ws "CHR '',''"]
  by (auto simp: genCerts_def split: sum.splits option.splits if_splits)

end
