(* ===== verification/App.thy ===== *)
theory App
  imports Api Cert
begin

text \<open>
  The process, \<^verbatim>\<open>v4/app.go\<close> and \<^verbatim>\<open>v4/cmd/tlswrapper/main.go\<close>: the checks of the command line, dumping the config, start-up, and
  the loop that reacts to signals.  The running process is a step relation whose events are the signals that arrive and the
  requests of the HTTP interface, so that reloads from both sides interleave; \<^verbatim>\<open>ReloadConfig\<close> holds a lock, which makes each of
  them one step.
\<close>

section \<open>Start-up\<close>

definition flags_Validate :: "app_flags \<Rightarrow> bool" where
  "flags_Validate f =
     (if f_Help f then True
      else if f_GenCerts f \<noteq> '''' then True
      else if f_DumpConfig f then True
      else f_Config f \<noteq> '''')"

text \<open>What loading a config reads: the JSON and MIME packages, the file system and the standard input.\<close>

record load_env =
  ld_unmarshal :: "string \<Rightarrow> config_file \<Rightarrow> config_file option"
  ld_marshal :: "config_file \<Rightarrow> string option"
  ld_marshalIndent :: "config_file \<Rightarrow> string option"
  ld_parseMedia :: "string \<Rightarrow> (string \<times> (string \<rightharpoonup> string)) option"
  ld_readFile :: "string \<Rightarrow> string option"
  ld_stdin :: "string option"

definition load_file :: "load_env \<Rightarrow> string \<Rightarrow> (config_file \<times> logger) option" where
  "load_file ld path = (case LoadFile (ld_unmarshal ld) (ld_readFile ld) (ld_parseMedia ld) path of Inl _ \<Rightarrow> None | Inr x \<Rightarrow> Some x)"

definition load_stdin :: "load_env \<Rightarrow> (config_file \<times> logger) option" where
  "load_stdin ld = (case LoadReader (ld_unmarshal ld) (ld_readFile ld) (ld_parseMedia ld) (ld_stdin ld) of Some (Inr x) \<Rightarrow> Some x | _ \<Rightarrow> None)"

text \<open>The exit code and what is printed, on the standard error.\<close>

definition dumpConfig :: "load_env \<Rightarrow> app_flags \<Rightarrow> int \<times> string option" where
  "dumpConfig ld f =
     (case (if f_Config f = '''' then Some Default
            else if f_Config f = ''-'' then map_option fst (load_stdin ld)
            else map_option fst (load_file ld (f_Config f))) of
        None \<Rightarrow> (1, None)
      | Some cfg \<Rightarrow>
          (case Dump (ld_marshal ld) (ld_marshalIndent ld) (ld_unmarshal ld) cfg of
             None \<Rightarrow> (1, None)
           | Some b \<Rightarrow> (0, Some b)))"

text \<open>The logger before a config is loaded.\<close>

definition apply_level :: "app_flags \<Rightarrow> logger \<Rightarrow> logger" where
  "apply_level f lg = (if f_LogLevel f \<ge> 0 then (fst lg, f_LogLevel f) else lg)"

definition early_logger :: "app_flags \<Rightarrow> logger \<Rightarrow> logger" where
  "early_logger f lg = (let lg = apply_level f lg in if f_Color f then (OutputTerminal, snd lg) else lg)"

datatype sd_state = SdReady | SdReloading | SdStopping

record app =
  app_logger :: logger
  app_server :: server
  app_last :: api_stats
  app_notified :: "sd_state list"
  app_exit :: "int option"     \<comment> \<open>none while running\<close>
  app_panicked :: bool         \<comment> \<open>a reload has panicked\<close>

datatype ('p, 'k, 'c) app_start =
    AppExit int
  | AppHang                     \<comment> \<open>reading a PEM file does not return\<close>
  | AppCerts "('p, 'k, 'c) batch"
  | AppPanic
  | AppRun app

definition zero_stats :: api_stats where
  "zero_stats = \<lparr>l_Accepted = 0, l_Served = 0, l_ReqTotal = 0, l_ReqSuccess = 0, l_WireLengthReceived = 0, l_WireLengthSent = 0,
     l_BytesReceived = 0, l_BytesSent = 0, l_Timestamp = 0\<rparr>"

text \<open>\<^verbatim>\<open>AppMain\<close> up to the notification that the service is ready.\<close>

definition AppMain_start ::
  "('p, 'k, 'c) crypto \<Rightarrow> (string \<Rightarrow> bool) \<Rightarrow> files \<Rightarrow> load_env \<Rightarrow> env \<Rightarrow> logger \<Rightarrow> app_flags \<Rightarrow> ('p, 'k, 'c) app_start" where
  "AppMain_start c w fs ld e lg0 f =
     (let lg = early_logger f lg0
      in if \<not> flags_Validate f then AppExit 1
         else if f_Help f then AppExit 1
         else if f_GenCerts f \<noteq> '''' then
           (case genCerts c w fs f of None \<Rightarrow> AppHang | Some (Inl code) \<Rightarrow> AppExit code | Some (Inr g) \<Rightarrow> AppCerts g)
         else if f_DumpConfig f then AppExit (fst (dumpConfig ld f))
         else case (if f_Config f = ''-'' then load_stdin ld else load_file ld (f_Config f)) of
                None \<Rightarrow> AppExit 1
              | Some (cfg, lg) \<Rightarrow>
                  let lg = apply_level f lg
                  in case NewServer e cfg of
                       Inl _ \<Rightarrow> AppExit 1
                     | Inr s \<Rightarrow>
                         (case server_Start e s of
                            (Panicked, _) \<Rightarrow> AppPanic
                          | (Returned errs, s) \<Rightarrow>
                              if errs \<noteq> [] then AppExit 1
                              else AppRun \<lparr>app_logger = lg, app_server = s, app_last = zero_stats, app_notified = [SdReady],
                                           app_exit = None, app_panicked = False\<rparr>))"

section \<open>The running process\<close>

datatype signal = SIGINT | SIGTERM | SIGHUP

definition notify :: "sd_state \<Rightarrow> app \<Rightarrow> app" where
  "notify n a = a\<lparr>app_notified := app_notified a @ [n]\<rparr>"

text \<open>One round of the loop over signals, and for a signal that ends it what follows the loop.\<close>

definition handle_signal :: "app_flags \<Rightarrow> load_env \<Rightarrow> env \<Rightarrow> signal \<Rightarrow> app \<Rightarrow> app" where
  "handle_signal f ld e sg a =
     (if sg \<noteq> SIGHUP then (notify SdStopping a)\<lparr>app_server := Shutdown (app_server a), app_exit := Some 0\<rparr>
      else if f_Config f = ''-'' then a
      else
        let a = notify SdReloading a
        in case load_file ld (f_Config f) of
             None \<Rightarrow> a
           | Some (cfg, lg) \<Rightarrow>
               let a = a\<lparr>app_logger := apply_level f lg\<rparr>
               in case ReloadConfig e (ld_marshal ld cfg) cfg (app_server a) of
                    (Panicked, s) \<Rightarrow> a\<lparr>app_server := s, app_panicked := True, app_exit := Some 2\<rparr>
                  | (Returned errs, s) \<Rightarrow>
                      let a = a\<lparr>app_server := s\<rparr> in if errs \<noteq> [] then a else notify SdReady a)"

datatype app_event = Signal signal load_env env | Request http_ctx request

definition handle_request :: "http_ctx \<Rightarrow> request \<Rightarrow> app \<Rightarrow> app" where
  "handle_request x r a =
     (case RunHTTPServer x r (app_logger a, app_server a, app_last a) of
        (p, lg, s, l) \<Rightarrow>
          a\<lparr>app_logger := lg, app_server := s, app_last := l, app_panicked := (app_panicked a \<or> p = HandlerPanic)\<rparr>)"

inductive app_step :: "app_flags \<Rightarrow> app_event \<Rightarrow> app \<Rightarrow> app \<Rightarrow> bool" for f where
  signal: "app_exit a = None \<Longrightarrow> app_step f (Signal sg ld e) a (handle_signal f ld e sg a)"
| request: "app_exit a = None \<Longrightarrow> apiListener (app_server a) \<noteq> None \<Longrightarrow> app_step f (Request x r) a (handle_request x r a)"

inductive app_run :: "app_flags \<Rightarrow> app_event list \<Rightarrow> app \<Rightarrow> app \<Rightarrow> bool" for f where
  stop: "app_run f [] a a"
| step: "app_step f ev a b \<Longrightarrow> app_run f evs b c \<Longrightarrow> app_run f (ev # evs) a c"

inductive_cases app_stepE: "app_step f ev a b"
inductive_simps app_run_Nil [simp]: "app_run f [] a b"

section \<open>Exit codes\<close>

text \<open>Before the server runs every failure exits with 1; only a dumped config exits with 0, and then it was printed.\<close>

lemma app_exit_codes:
  assumes "AppMain_start c w fs ld e lg0 f = AppExit code"
  shows "code = 1 \<or> code = 0 \<and> f_DumpConfig f \<and> \<not> f_Help f \<and> f_GenCerts f = '''' \<and> (\<exists>b. dumpConfig ld f = (0, Some b))"
  using assms by (auto simp: AppMain_start_def dumpConfig_def genCerts_def Let_def
      split: if_splits option.splits sum.splits prod.splits outcome.splits)

text \<open>The coloured output asked for on the command line is replaced when the config is loaded.\<close>

lemma color_has_no_effect: "AppMain_start c w fs ld e lg0 (f\<lparr>f_Color := b\<rparr>) = AppMain_start c w fs ld e lg0 f"
proof -
  have "genCerts c w fs (f\<lparr>f_Color := b\<rparr>) = genCerts c w fs f"
    by (auto simp: genCerts_def split: sum.split option.split)
  moreover have "dumpConfig ld (f\<lparr>f_Color := b\<rparr>) = dumpConfig ld f"
    "flags_Validate (f\<lparr>f_Color := b\<rparr>) = flags_Validate f" "apply_level (f\<lparr>f_Color := b\<rparr>) = apply_level f"
    by (simp_all add: dumpConfig_def flags_Validate_def apply_level_def fun_eq_iff)
  ultimately show ?thesis by (simp add: AppMain_start_def Let_def split: option.split)
qed

section \<open>The process releases its sockets\<close>

lemma config_handler_server:
  assumes "apiConfigHandler a r lg s = (Some code, lg', s')"
  shows "s' = s \<or> (\<exists>e json cfg errs. ReloadConfig e json cfg s = (Returned errs, s'))"
  using assms by (auto simp: apiConfigHandler_def split: if_splits option.splits sum.splits prod.splits outcome.splits)

lemma request_inv:
  assumes "lst_inv (app_server a)" and "\<not> app_panicked (handle_request x r a)"
  shows "lst_inv (app_server (handle_request x r a))"
proof -
  obtain p lg s l where R: "RunHTTPServer x r (app_logger a, app_server a, app_last a) = (p, lg, s, l)" by (metis prod.exhaust)
  then have "p \<noteq> HandlerPanic" using assms(2) by (auto simp: handle_request_def)
  then have "s = app_server a \<or> (\<exists>e json cfg errs. ReloadConfig e json cfg (app_server a) = (Returned errs, s))"
    using R config_handler_server [of "x_api x" r "app_logger a" "app_server a"]
    by (auto simp: RunHTTPServer_def split: if_splits prod.splits option.splits)
  then have "lst_inv s" using assms(1) reload_inv by blast
  then show ?thesis by (simp add: handle_request_def R)
qed

definition app_inv :: "app \<Rightarrow> bool" where
  "app_inv a \<longleftrightarrow> app_panicked a
     \<or> (case app_exit a of None \<Rightarrow> lst_inv (app_server a) | Some code \<Rightarrow> code = 0 \<and> listening (app_server a) = Map.empty)"

lemma signal_inv:
  assumes "app_inv a" and "app_exit a = None"
  shows "app_inv (handle_signal f ld e sg a)"
proof (cases "app_panicked a")
  case True
  then show ?thesis by (auto simp: app_inv_def handle_signal_def notify_def Let_def split: option.split prod.split outcome.split)
next
  case False
  then have i: "lst_inv (app_server a)" using assms by (simp add: app_inv_def)
  show ?thesis
  proof (cases "sg = SIGHUP")
    case False
    then show ?thesis using shutdown_closes_all [OF i] by (simp add: app_inv_def handle_signal_def notify_def)
  next
    case True
    then show ?thesis using i assms(2) reload_inv [OF i]
      by (auto simp: app_inv_def handle_signal_def notify_def Let_def split: option.split prod.split outcome.split)
  qed
qed

lemma step_inv: "app_step f ev a b \<Longrightarrow> app_inv a \<Longrightarrow> app_inv b"
proof (erule app_stepE)
  fix x r
  assume "app_inv a" "app_exit a = None" "b = handle_request x r a"
  moreover have "app_exit (handle_request x r a) = app_exit a" "app_panicked a \<Longrightarrow> app_panicked (handle_request x r a)"
    by (simp_all add: handle_request_def split: prod.split)
  ultimately show "app_inv b" using request_inv [of a x r] by (auto simp: app_inv_def)
qed (simp add: signal_inv)

lemma run_inv: "app_run f evs a b \<Longrightarrow> app_inv a \<Longrightarrow> app_inv b"
  by (induction rule: app_run.induct) (auto dest: step_inv)

lemma start_app_inv:
  assumes "AppMain_start c w fs ld e lg0 f = AppRun a"
  shows "app_inv a \<and> app_exit a = None \<and> \<not> app_panicked a \<and> app_notified a = [SdReady]"
proof -
  obtain cfg s where "NewServer e cfg = Inr s" "server_Start e s = (Returned [], app_server a)"
      "app_exit a = None" "\<not> app_panicked a" "app_notified a = [SdReady]"
    using assms by (auto simp: AppMain_start_def Let_def split: if_splits option.splits sum.splits prod.splits outcome.splits)
  moreover from this have "lst_inv (app_server a)" using NewServer_inv start_inv by blast
  ultimately show ?thesis by (simp add: app_inv_def)
qed


section \<open>Notifications to the service manager\<close>

datatype sd_status = SdStarting | SdRunning | SdReload | SdStopped

text \<open>What the notifications mean to systemd: which may follow which, and the state of the service it shows.\<close>

fun sd_step :: "sd_state \<Rightarrow> sd_status \<Rightarrow> sd_status option" where
  "sd_step SdReady SdStarting = Some SdRunning"
| "sd_step SdReady SdReload = Some SdRunning"
| "sd_step SdReloading SdRunning = Some SdReload"
| "sd_step SdReloading SdReload = Some SdReload"
| "sd_step SdStopping SdRunning = Some SdStopped"
| "sd_step SdStopping SdReload = Some SdStopped"
| "sd_step _ _ = None"

definition sd_status_of :: "app \<Rightarrow> sd_status option" where
  "sd_status_of a = exec sd_step (app_notified a) SdStarting"

definition reload_works :: "app_flags \<Rightarrow> load_env \<Rightarrow> env \<Rightarrow> app \<Rightarrow> bool" where
  "reload_works f ld e a \<longleftrightarrow>
     (case load_file ld (f_Config f) of
        None \<Rightarrow> False
      | Some (cfg, _) \<Rightarrow> fst (ReloadConfig e (ld_marshal ld cfg) cfg (app_server a)) = Returned [])"

definition sd_inv :: "app \<Rightarrow> bool" where
  "sd_inv a \<longleftrightarrow> (if app_exit a = None then sd_status_of a \<in> {Some SdRunning, Some SdReload}
                  else app_panicked a \<or> sd_status_of a = Some SdStopped)"

lemma notify_status: "sd_status_of (notify n a) = (case sd_status_of a of None \<Rightarrow> None | Some st \<Rightarrow> sd_step n st)"
  by (simp add: sd_status_of_def notify_def exec_append split: option.split)

lemma status_cong: "app_notified a = app_notified b \<Longrightarrow> sd_status_of a = sd_status_of b"
  by (simp add: sd_status_of_def)

lemma hup_status:
  assumes "sd_status_of a \<in> {Some SdRunning, Some SdReload}" and "f_Config f \<noteq> ''-''"
  shows "sd_status_of (handle_signal f ld e SIGHUP a) = Some (if reload_works f ld e a then SdRunning else SdReload)"
proof -
  have r: "sd_status_of (notify SdReloading a) = Some SdReload" using assms(1) by (auto simp: notify_status)
  have s: "app_server (notify n a) = app_server a" for n by (simp add: notify_def)
  have u: "sd_status_of (x\<lparr>app_logger := lg, app_server := s, app_panicked := p, app_exit := c\<rparr>) = sd_status_of x"
    "sd_status_of (x\<lparr>app_logger := lg, app_server := s\<rparr>) = sd_status_of x" for x lg s p c
    by (rule status_cong; simp)+
  show ?thesis
    using assms(2) r by (auto simp: handle_signal_def reload_works_def Let_def s u notify_status split: option.split prod.split outcome.split)
qed

lemma sd_step_inv:
  assumes "app_step f ev a b" and "sd_inv a"
  shows "sd_inv b"
  using assms(1)
proof cases
  case (signal sg ld e)
  then have st: "sd_status_of a \<in> {Some SdRunning, Some SdReload}" using assms(2) by (simp add: sd_inv_def)
  show ?thesis
  proof (cases "sg = SIGHUP")
    case False
    have "sd_status_of ((notify SdStopping a)\<lparr>app_server := s, app_exit := c\<rparr>) = Some SdStopped" for s c
    proof -
      have "sd_status_of ((notify SdStopping a)\<lparr>app_server := s, app_exit := c\<rparr>) = sd_status_of (notify SdStopping a)" by (rule status_cong) simp
      then show ?thesis using st by (auto simp: notify_status)
    qed
    then show ?thesis using signal False by (simp add: sd_inv_def handle_signal_def)
  next
    case True
    have "app_exit b = None \<or> app_panicked b"
      using signal True by (auto simp: handle_signal_def notify_def Let_def split: option.split prod.split outcome.split)
    moreover have "sd_status_of b \<in> {Some SdRunning, Some SdReload}"
    proof (cases "f_Config f = ''-''")
      case True
      then show ?thesis using signal \<open>sg = SIGHUP\<close> st by (simp add: handle_signal_def)
    next
      case False
      then show ?thesis using hup_status [OF st False, of ld e] signal True by simp
    qed
    ultimately show ?thesis by (auto simp: sd_inv_def)
  qed
next
  case (request x r)
  then show ?thesis using assms(2) by (simp add: sd_inv_def sd_status_of_def handle_request_def split: prod.split)
qed


section \<open>The logging level\<close>

text \<open>The level given on the command line survives start-up and every reload by SIGHUP.\<close>

definition posts_config :: "app_event \<Rightarrow> bool" where
  "posts_config ev = (case ev of Request _ r \<Rightarrow> req_Method r = POST \<and> req_Path r = ''/config'' | Signal _ _ _ \<Rightarrow> False)"

lemma level_step:
  assumes "app_step f ev a b" and "0 \<le> f_LogLevel f" and "\<not> posts_config ev" and "snd (app_logger a) = f_LogLevel f"
  shows "snd (app_logger b) = f_LogLevel f"
  using assms(1)
proof cases
  case (signal sg ld e)
  then show ?thesis using assms(2,4)
    by (auto simp: handle_signal_def notify_def apply_level_def Let_def split: option.split prod.split outcome.split)
next
  case (request x r)
  have "app_logger (handle_request x r a) = app_logger a"
    using assms(3) request dispatch_frame [where x = x and r = r and lg = "app_logger a" and s = "app_server a" and l = "app_last a"]
    by (auto simp: handle_request_def posts_config_def split: prod.splits)
  then show ?thesis using request assms(4) by simp
qed

text \<open>A logging level given on the command line takes precedence over that of the config: it is in effect after the start, after
  every reload by signal, successful or not, and until a config is posted to the HTTP interface.  A config that is posted and
  loads sets its own level whatever the command line says.\<close>

theorem loglevel_flag:
  assumes "AppMain_start c w fs ld e lg0 f = AppRun a0" and "0 \<le> f_LogLevel f" and "app_run f evs a0 a"
  shows "(list_all (\<lambda>ev. \<not> posts_config ev) evs \<longrightarrow> snd (app_logger a) = f_LogLevel f)
     \<and> (\<forall>x r cfg lg. req_Method r = POST \<and> req_Path r = ''/config'' \<and> \<not> req_bodyFails r \<and> length (req_Body r) \<le> maxContentLength
          \<and> req_ContentLength r \<le> int maxContentLength \<and> a_load (x_api x) (req_Body r) = Inr (cfg, lg) \<longrightarrow>
            app_logger (handle_request x r a) = lg)"
proof (intro conjI allI impI)
  have s: "snd (app_logger a0) = f_LogLevel f"
    using assms(1,2) by (auto simp: AppMain_start_def apply_level_def Let_def split: if_splits option.splits sum.splits prod.splits outcome.splits)
  assume "list_all (\<lambda>ev. \<not> posts_config ev) evs"
  with assms(3) s show "snd (app_logger a) = f_LogLevel f"
    by (induction rule: app_run.induct) (auto dest: level_step [OF _ assms(2)])
next
  fix x :: http_ctx and r :: request and cfg lg
  assume r: "req_Method r = POST \<and> req_Path r = ''/config'' \<and> \<not> req_bodyFails r \<and> length (req_Body r) \<le> maxContentLength
          \<and> req_ContentLength r \<le> int maxContentLength \<and> a_load (x_api x) (req_Body r) = Inr (cfg, lg)"
  then have "read_limited (maxContentLength + 1) r = Some (req_Body r)" by (intro read_limited_full) auto
  then show "app_logger (handle_request x r a) = lg" using r
    by (auto simp: handle_request_def RunHTTPServer_def apiConfigHandler_def split: prod.split outcome.split)
qed


section \<open>Examples\<close>

text \<open>A config file that holds the default config under the name \<open>c\<close>, and the process started with it.\<close>

definition demo_load :: load_env where
  "demo_load = \<lparr>ld_unmarshal = (\<lambda>b c. if b = ''D'' then Some c else None), ld_marshal = (\<lambda>_. Some ''D''), ld_marshalIndent = (\<lambda>_. Some ''D''),
     ld_parseMedia = (\<lambda>_. Some (mimeType, [''version'' \<mapsto> mimeVersion])), ld_readFile = (\<lambda>p. if p = ''c'' then Some ''D'' else None), ld_stdin = None\<rparr>"

definition demo_flags :: app_flags where
  "demo_flags = \<lparr>f_Help = False, f_Color = False, f_Config = ''c'', f_DumpConfig = False, f_ServerName = ''example.com'', f_GenCerts = '''',
     f_Sign = '''', f_KeyType = ''rsa'', f_KeySize = 0, f_LogLevel = 6\<rparr>"

definition demo_start :: "(nat, string, string) app_start" where
  "demo_start = AppMain_start toy_crypto (\<lambda>_. True) Map.empty demo_load ok_env (OutputStdout, 4) demo_flags"

definition demo_check :: "(app \<Rightarrow> bool) \<Rightarrow> bool" where
  "demo_check P = (case demo_start of AppRun a \<Rightarrow> P a | _ \<Rightarrow> False)"

lemma demo_runs: "demo_check (\<lambda>a. app_exit a = None \<and> snd (app_logger a) = 6)"
  unfolding demo_check_def demo_start_def by code_simp

lemma demo_AppRun: obtains a where "AppMain_start toy_crypto (\<lambda>_. True) Map.empty demo_load ok_env (OutputStdout, 4) demo_flags = AppRun a" "app_exit a = None"
  using demo_runs by (auto simp: demo_check_def demo_start_def split: app_start.splits)

text \<open>A SIGHUP while the file cannot be read, then a SIGTERM.\<close>

definition demo_events :: "app_event list" where
  "demo_events = [Signal SIGHUP (demo_load\<lparr>ld_readFile := \<lambda>_. None\<rparr>) ok_env, Signal SIGTERM demo_load ok_env]"

lemma demo_hup:
  "handle_signal demo_flags (demo_load\<lparr>ld_readFile := \<lambda>_. None\<rparr>) ok_env SIGHUP a = notify SdReloading a"
  by (simp add: handle_signal_def demo_flags_def load_file_def LoadFile_def demo_load_def)

lemma demo_run:
  assumes "app_exit a = None"
  shows "app_run demo_flags demo_events a ((notify SdStopping (notify SdReloading a))\<lparr>app_server := Shutdown (app_server a), app_exit := Some 0\<rparr>)"
proof -
  have 1: "app_step demo_flags (Signal SIGHUP (demo_load\<lparr>ld_readFile := \<lambda>_. None\<rparr>) ok_env) a (notify SdReloading a)"
    using app_step.signal [OF assms, of demo_flags SIGHUP "demo_load\<lparr>ld_readFile := \<lambda>_. None\<rparr>" ok_env] by (simp add: demo_hup)
  have "app_exit (notify SdReloading a) = None" "app_server (notify SdReloading a) = app_server a" using assms by (simp_all add: notify_def)
  then have 2: "app_step demo_flags (Signal SIGTERM demo_load ok_env) (notify SdReloading a)
      ((notify SdStopping (notify SdReloading a))\<lparr>app_server := Shutdown (app_server a), app_exit := Some 0\<rparr>)"
    using app_step.signal [of "notify SdReloading a" demo_flags SIGTERM demo_load ok_env] by (simp add: handle_signal_def)
  show ?thesis unfolding demo_events_def by (intro app_run.step [OF 1] app_run.step [OF 2] app_run.stop)
qed



theorem loglevel_flag_witness:
  "\<exists>a0 a. AppMain_start toy_crypto (\<lambda>_. True) Map.empty demo_load ok_env (OutputStdout, 4) demo_flags = AppRun a0
     \<and> app_run demo_flags demo_events a0 a \<and> snd (app_logger a) = 6"
proof -
  obtain a0 where a0: "AppMain_start toy_crypto (\<lambda>_. True) Map.empty demo_load ok_env (OutputStdout, 4) demo_flags = AppRun a0" "app_exit a0 = None"
    by (rule demo_AppRun)
  have "list_all (\<lambda>ev. \<not> posts_config ev) demo_events" "0 \<le> f_LogLevel demo_flags" "f_LogLevel demo_flags = 6"
    by (simp_all add: demo_events_def posts_config_def demo_flags_def)
  then show ?thesis using loglevel_flag [OF a0(1) _ demo_run [OF a0(2)]] a0(1) demo_run [OF a0(2)] by metis
qed

end
