(* ===== verification/Session_Count.thy ===== *)
theory Session_Count
  imports Prelude
begin

text \<open>
  A 32-bit counter that is kept in step with the sizes of several session maps, as versions 2 and 3 do.  The locale states what
  an update of one map promises; its lemmas follow the counter through updates, through steps that leave the maps alone and may
  add maps, and through a map that is emptied without counting.
\<close>

lemma sum_fun_upd_less:
  fixes f :: "nat \<Rightarrow> nat"
  assumes "t < n"
  shows "(\<Sum>i < n. (f(t := v)) i) + f t = (\<Sum>i < n. f i) + v"
  using assms by (simp add: sum.remove [of "{..<n}" t])

locale counted_sessions =
  fixes nxt :: "'s \<Rightarrow> nat"
    and maps :: "'s \<Rightarrow> nat \<Rightarrow> 'm list"
    and num :: "'s \<Rightarrow> u32"
    and store :: "nat \<Rightarrow> 'm list \<Rightarrow> 's \<Rightarrow> 's"
  assumes store_nxt: "nxt (store t m s) = nxt s"
    and store_maps: "maps (store t m s) = (maps s)(t := m)"
    and store_num: "num (store t m s) = num s + to_u32 (int (length m) - int (length (maps s t)))"
begin

definition registered :: "'s \<Rightarrow> nat" where
  "registered s = (\<Sum>t < nxt s. length (maps s t))"

text \<open>The counter and the maps agree up to \<open>lost\<close>.\<close>

definition counts :: "nat \<Rightarrow> 's \<Rightarrow> bool" where
  "counts lost s \<longleftrightarrow> num s = of_nat (registered s + lost)"

text \<open>Nothing happens to the sessions; maps may be added.\<close>

definition frame :: "'s \<Rightarrow> 's \<Rightarrow> bool" where
  "frame s s' \<longleftrightarrow> nxt s \<le> nxt s' \<and> num s' = num s \<and> (\<forall>t < nxt s'. maps s' t = (if t < nxt s then maps s t else []))"

lemma frame_refl [intro]: "frame s s"
  by (simp add: frame_def)

lemma frame_trans: "frame s u \<Longrightarrow> frame u s' \<Longrightarrow> frame s s'"
  unfolding frame_def by (metis order_less_le_trans order_trans)

lemma frame_same: "nxt s' = nxt s \<Longrightarrow> num s' = num s \<Longrightarrow> (\<And>t. maps s' t = maps s t) \<Longrightarrow> frame s s'"
  by (simp add: frame_def)

lemma frame_counts:
  assumes "frame s s'" and "counts k s"
  shows "counts k s'"
proof -
  let ?f = "\<lambda>t. length (maps s' t)"
  have f: "nxt s \<le> nxt s'" "\<And>t. t < nxt s' \<Longrightarrow> ?f t = (if t < nxt s then length (maps s t) else 0)"
    using assms(1) by (auto simp: frame_def)
  have "sum ?f {..<nxt s'} = sum ?f {..<nxt s}"
    by (rule sum.mono_neutral_right) (use f in auto)
  also have "\<dots> = registered s" unfolding registered_def by (rule sum.cong) (use f in auto)
  finally show ?thesis using assms by (simp add: counts_def registered_def frame_def)
qed

lemma registered_replace:
  assumes "t < nxt s" and "nxt s' = nxt s" and "maps s' = (maps s)(t := m)"
  shows "registered s' + length (maps s t) = registered s + length m"
proof -
  have "registered s' = (\<Sum>i < nxt s. ((\<lambda>i. length (maps s i))(t := length m)) i)"
    by (simp add: registered_def assms(2,3) fun_upd_def if_distrib cong: if_cong)
  then show ?thesis using sum_fun_upd_less [OF assms(1), of "\<lambda>i. length (maps s i)"] by (simp add: registered_def)
qed

lemma counts_store:
  assumes "counts lost s" and "t < nxt s"
  shows "counts lost (store t m s)"
proof -
  have "(of_nat (registered (store t m s)) :: u32) + of_nat (length (maps s t)) = of_nat (registered s) + of_nat (length m)"
    using arg_cong [OF registered_replace [OF assms(2) store_nxt store_maps, of m], of "of_nat :: nat \<Rightarrow> u32"] by simp
  then have "(of_nat (registered (store t m s)) :: u32) = of_nat (registered s) + of_nat (length m) - of_nat (length (maps s t))"
    by (simp only: eq_diff_eq)
  then show ?thesis using assms(1) by (simp add: counts_def store_num to_u32_def)
qed

lemma counts_empty:
  assumes "counts k s" and "t < nxt s" and "nxt s' = nxt s" and "maps s' = (maps s)(t := [])" and "num s' = num s"
  shows "counts (k + length (maps s t)) s'"
proof -
  have "registered s' + (k + length (maps s t)) = registered s + k" using registered_replace [OF assms(2-4)] by simp
  then show ?thesis using assms(1,5) by (simp only: counts_def)
qed

end

end
