(* ===== verification/V3_Config.thy ===== *)
theory V3_Config
  imports Config
begin

text \<open>
  The configuration of version 3, \<^verbatim>\<open>v3/config/*.go\<close>: data, loading, validation and derived settings.  The maps of the default
  config are shared by every config that is loaded, since the struct is copied but not the maps; they are part of the state
  here.  A JSON document is a patch: its scalar fields replace those of the struct it is decoded into, and its entries are
  added to the maps that are there; its keys are distinct.
\<close>

section \<open>Data\<close>

record v3_tunnel_cfg =
  vt_Disabled :: bool
  vt_MuxDial :: string
  vt_Listen :: string
  vt_Service :: string

type_synonym 'v dict = "(string \<times> 'v) list"   \<comment> \<open>a map, with distinct keys; the order is that of an iteration\<close>

record v3_scalars =
  vf_Type :: string
  vf_PeerName :: string
  vf_MuxListen :: string
  vf_HTTPListen :: string
  vf_Certificates :: "(string \<times> string) list"
  vf_AuthorizedCerts :: "string list"
  vf_NoDelay :: bool
  vf_StartupLimitStart :: int
  vf_StartupLimitRate :: int
  vf_StartupLimitFull :: int
  vf_MaxConn :: int
  vf_MaxSessions :: int
  vf_NoRedial :: bool
  vf_KeepAlive :: int
  vf_ServerKeepAlive :: int
  vf_AcceptBacklog :: int
  vf_StreamWindow :: u32
  vf_ConnectTimeout :: int
  vf_StreamOpenTimeout :: int
  vf_StreamCloseTimeout :: int
  vf_WriteTimeout :: int
  vf_Log :: string
  vf_LogLevel :: int

record v3_maps =
  vm_Services :: "string dict"
  vm_Peers :: "v3_tunnel_cfg dict"

type_synonym v3_file = "v3_scalars \<times> v3_maps"

definition v3_mimeType :: string where "v3_mimeType = ''application/x-tlswrapper-config''"
definition v3_mimeVersion :: string where "v3_mimeVersion = ''3''"

definition v3_Default :: v3_scalars where
  "v3_Default =
     \<lparr>vf_Type = ''application/x-tlswrapper-config; version=3'', vf_PeerName = '''', vf_MuxListen = '''', vf_HTTPListen = '''',
      vf_Certificates = [], vf_AuthorizedCerts = [], vf_NoDelay = True, vf_StartupLimitStart = 10, vf_StartupLimitRate = 30,
      vf_StartupLimitFull = 60, vf_MaxConn = 16384, vf_MaxSessions = 128, vf_NoRedial = False, vf_KeepAlive = 25, vf_ServerKeepAlive = 300,
      vf_AcceptBacklog = 256, vf_StreamWindow = 256 * 1024, vf_ConnectTimeout = 15, vf_StreamOpenTimeout = 30, vf_StreamCloseTimeout = 120,
      vf_WriteTimeout = 15, vf_Log = ''stdout'', vf_LogLevel = 4\<rparr>"

definition v3_empty_maps :: v3_maps where
  "v3_empty_maps = \<lparr>vm_Services = [], vm_Peers = []\<rparr>"

datatype v3_cfg_error =
    V3ReadFile string | V3Unmarshal | V3BadType string | V3BadVersion string | V3Range string | V3Log string | V3Cert nat | V3AuthCert nat

section \<open>Decoding\<close>

fun dict_put :: "string \<Rightarrow> 'v \<Rightarrow> 'v dict \<Rightarrow> 'v dict" where
  "dict_put k v [] = [(k, v)]"
| "dict_put k v ((j, u) # m) = (if j = k then (k, v) # m else (j, u) # dict_put k v m)"

definition dict_merge :: "'v dict \<Rightarrow> 'v dict \<Rightarrow> 'v dict" where
  "dict_merge entries m = fold (\<lambda>(k, v). dict_put k v) entries m"

text \<open>A document: what it does to the scalar fields, and its two objects: \<^const>\<open>None\<close> is a JSON null, no entries also a
  missing key.  The flag says that some value has the wrong type, which \<^verbatim>\<open>json.Unmarshal\<close> reports after it decoded the rest.\<close>

record v3_doc =
  doc_scalars :: "v3_scalars \<Rightarrow> v3_scalars"
  doc_services :: "string dict option"
  doc_peers :: "v3_tunnel_cfg dict option"
  doc_mistyped :: bool

text \<open>Entries are added to the map that is there; null replaces the map of this config by nil and leaves the shared one.\<close>

definition v3_config_map :: "'v dict option \<Rightarrow> 'v dict \<Rightarrow> 'v dict" where
  "v3_config_map f m = (case f of None \<Rightarrow> [] | Some es \<Rightarrow> dict_merge es m)"

definition v3_shared_map :: "'v dict option \<Rightarrow> 'v dict \<Rightarrow> 'v dict" where
  "v3_shared_map f m = (case f of None \<Rightarrow> m | Some es \<Rightarrow> dict_merge es m)"

definition v3_unmarshal :: "v3_doc \<Rightarrow> v3_file \<Rightarrow> v3_file \<times> v3_maps" where
  "v3_unmarshal d c =
     ((doc_scalars d (fst c),
       \<lparr>vm_Services = v3_config_map (doc_services d) (vm_Services (snd c)), vm_Peers = v3_config_map (doc_peers d) (vm_Peers (snd c))\<rparr>),
      \<lparr>vm_Services = v3_shared_map (doc_services d) (vm_Services (snd c)), vm_Peers = v3_shared_map (doc_peers d) (vm_Peers (snd c))\<rparr>)"

section \<open>loader.go\<close>

definition v3_loadPEM :: "(string \<Rightarrow> string option) \<Rightarrow> string \<Rightarrow> v3_cfg_error + string" where
  "v3_loadPEM read_file s =
     (case s of
        CHR ''@'' # fileName \<Rightarrow> (case read_file fileName of None \<Rightarrow> Inl (V3ReadFile fileName) | Some b \<Rightarrow> Inr b)
      | _ \<Rightarrow> Inr s)"

definition v3_KeyPair_Load :: "(string \<Rightarrow> string option) \<Rightarrow> string \<times> string \<Rightarrow> v3_cfg_error + string \<times> string" where
  "v3_KeyPair_Load read_file p =
     (case v3_loadPEM read_file (fst p) of
        Inl e \<Rightarrow> Inl e
      | Inr certPEM \<Rightarrow> (case v3_loadPEM read_file (snd p) of Inl e \<Rightarrow> Inl e | Inr keyPEM \<Rightarrow> Inr (certPEM, keyPEM)))"

fun v3_all :: "('a \<Rightarrow> 'e + 'b) \<Rightarrow> 'a list \<Rightarrow> 'e + 'b list" where
  "v3_all f [] = Inr []"
| "v3_all f (x # xs) = (case f x of Inl e \<Rightarrow> Inl e | Inr y \<Rightarrow> (case v3_all f xs of Inl e \<Rightarrow> Inl e | Inr ys \<Rightarrow> Inr (y # ys)))"

definition v3_load :: "(string \<Rightarrow> string option) \<Rightarrow> v3_scalars \<Rightarrow> v3_cfg_error + v3_scalars" where
  "v3_load read_file c =
     (case v3_all (v3_KeyPair_Load read_file) (vf_Certificates c) of
        Inl e \<Rightarrow> Inl e
      | Inr certs \<Rightarrow>
          (case v3_all (v3_loadPEM read_file) (vf_AuthorizedCerts c) of
             Inl e \<Rightarrow> Inl e
           | Inr auth \<Rightarrow> Inr (c\<lparr>vf_Certificates := certs, vf_AuthorizedCerts := auth\<rparr>)))"

definition v3_rangeCheckInt :: "string \<Rightarrow> int \<Rightarrow> int \<Rightarrow> int \<Rightarrow> v3_cfg_error option" where
  "v3_rangeCheckInt key value lo hi = (if lo \<le> value \<and> value \<le> hi then None else Some (V3Range key))"

definition v3_checkType :: "(string \<Rightarrow> (string \<times> (string \<rightharpoonup> string)) option) \<Rightarrow> string \<Rightarrow> v3_cfg_error option" where
  "v3_checkType parse_media s =
     (case parse_media s of
        None \<Rightarrow> Some (V3BadType s)
      | Some (mediatype, params) \<Rightarrow>
          if mediatype \<noteq> v3_mimeType then Some (V3BadType s)
          else (case params ''version'' of
                  None \<Rightarrow> Some (V3BadType s)
                | Some version \<Rightarrow> if version \<noteq> v3_mimeVersion then Some (V3BadVersion version) else None))"

fun first_error :: "'e option list \<Rightarrow> 'e option" where
  "first_error [] = None"
| "first_error (Some e # es) = Some e"
| "first_error (None # es) = first_error es"

definition v3_Validate :: "(string \<Rightarrow> (string \<times> (string \<rightharpoonup> string)) option) \<Rightarrow> v3_scalars \<Rightarrow> v3_cfg_error option" where
  "v3_Validate parse_media c =
     first_error
       [v3_checkType parse_media (vf_Type c),
        v3_rangeCheckInt ''keepalive'' (vf_KeepAlive c) 0 86400,
        v3_rangeCheckInt ''serverkeepalive'' (vf_ServerKeepAlive c) 0 86400,
        v3_rangeCheckInt ''startuplimitstart'' (vf_StartupLimitStart c) 1 max_int64,
        v3_rangeCheckInt ''startuplimitrate'' (vf_StartupLimitRate c) 0 100,
        v3_rangeCheckInt ''startuplimitfull'' (vf_StartupLimitFull c) 1 max_int64,
        v3_rangeCheckInt ''maxconn'' (vf_MaxConn c) 1 max_int64,
        v3_rangeCheckInt ''maxsessions'' (vf_MaxSessions c) 1 max_int64]"

definition v3_SetLogger :: "v3_scalars \<Rightarrow> v3_cfg_error + log_output \<times> int" where
  "v3_SetLogger c =
     (if vf_Log c = ''discard'' then Inr (OutputDiscard, vf_LogLevel c)
      else if vf_Log c = ''stdout'' then Inr (OutputStdout, vf_LogLevel c)
      else if vf_Log c = ''stderr'' then Inr (OutputStderr, vf_LogLevel c)
      else if vf_Log c = ''syslog'' then Inr (OutputSyslog, vf_LogLevel c)
      else Inl (V3Log (vf_Log c)))"

text \<open>\<open>m\<close> are the maps of the global \<^verbatim>\<open>Default\<close>; the second result is what they are afterwards.\<close>

definition v3_Load ::
  "(string \<Rightarrow> v3_doc option) \<Rightarrow> (string \<Rightarrow> string option) \<Rightarrow> (string \<Rightarrow> (string \<times> (string \<rightharpoonup> string)) option) \<Rightarrow> string \<Rightarrow> v3_maps
    \<Rightarrow> (v3_cfg_error + v3_file \<times> log_output \<times> int) \<times> v3_maps" where
  "v3_Load json read_file parse_media b m =
     (case json b of
        None \<Rightarrow> (Inl V3Unmarshal, m)
      | Some d \<Rightarrow>
          let ((c, mc), m) = v3_unmarshal d (v3_Default, m)
          in (if doc_mistyped d then Inl V3Unmarshal
              else case v3_load read_file c of
                Inl e \<Rightarrow> Inl e
              | Inr c \<Rightarrow>
                  (case v3_Validate parse_media c of
                     Some e \<Rightarrow> Inl e
                   | None \<Rightarrow> (case v3_SetLogger c of Inl e \<Rightarrow> Inl e | Inr lg \<Rightarrow> Inr ((c, mc), lg))), m))"

definition v3_LoadFile ::
  "(string \<Rightarrow> v3_doc option) \<Rightarrow> (string \<Rightarrow> string option) \<Rightarrow> (string \<Rightarrow> (string \<times> (string \<rightharpoonup> string)) option) \<Rightarrow> string \<Rightarrow> v3_maps
    \<Rightarrow> (v3_cfg_error + v3_file \<times> log_output \<times> int) \<times> v3_maps" where
  "v3_LoadFile json read_file parse_media path m =
     (case read_file path of None \<Rightarrow> (Inl (V3ReadFile path), m) | Some b \<Rightarrow> v3_Load json read_file parse_media b m)"

section \<open>utils.go\<close>

definition v3_GetTunnel :: "v3_file \<Rightarrow> string \<Rightarrow> v3_tunnel_cfg option" where
  "v3_GetTunnel c peerName = map_of (vm_Peers (snd c)) peerName"

definition v3_Timeout :: "v3_file \<Rightarrow> go_duration" where
  "v3_Timeout c = seconds (vf_ConnectTimeout (fst c))"

fun v3_key_pairs :: "(string \<Rightarrow> string \<Rightarrow> 'k option) \<Rightarrow> nat \<Rightarrow> (string \<times> string) list \<Rightarrow> v3_cfg_error + 'k list" where
  "v3_key_pairs key_pair i [] = Inr []"
| "v3_key_pairs key_pair i ((c, k) # ps) =
     (case key_pair c k of
        None \<Rightarrow> Inl (V3Cert i)
      | Some x \<Rightarrow> (case v3_key_pairs key_pair (Suc i) ps of Inl e \<Rightarrow> Inl e | Inr xs \<Rightarrow> Inr (x # xs)))"

fun v3_NewX509CertPool :: "(string \<Rightarrow> 'c list) \<Rightarrow> nat \<Rightarrow> string list \<Rightarrow> v3_cfg_error + 'c list" where
  "v3_NewX509CertPool pem_certs i [] = Inr []"
| "v3_NewX509CertPool pem_certs i (c # cs) =
     (if pem_certs c = [] then Inl (V3AuthCert i)
      else case v3_NewX509CertPool pem_certs (Suc i) cs of Inl e \<Rightarrow> Inl e | Inr pool \<Rightarrow> Inr (pem_certs c @ pool))"

definition v3_NewTLSConfig ::
  "(string \<Rightarrow> string \<Rightarrow> 'k option) \<Rightarrow> (string \<Rightarrow> 'c list) \<Rightarrow> string \<Rightarrow> v3_scalars \<Rightarrow> v3_cfg_error + ('k, 'c) tls_config" where
  "v3_NewTLSConfig key_pair pem_certs sni c =
     (case v3_key_pairs key_pair 0 (vf_Certificates c) of
        Inl e \<Rightarrow> Inl e
      | Inr certs \<Rightarrow>
          (case v3_NewX509CertPool pem_certs 0 (vf_AuthorizedCerts c) of
             Inl e \<Rightarrow> Inl e
           | Inr certPool \<Rightarrow>
               Inr \<lparr>Certificates = certs, ClientAuth = RequireAndVerifyClientCert, ClientCAs = certPool, RootCAs = certPool,
                    MinVersion = VersionTLS13, cfg_ServerName = sni, NextProtos = []\<rparr>))"

record yamux_config =
  ym_AcceptBacklog :: int
  ym_EnableKeepAlive :: bool
  ym_KeepAliveInterval :: go_duration
  ym_ConnectionWriteTimeout :: go_duration
  ym_MaxStreamWindowSize :: u32
  ym_StreamOpenTimeout :: go_duration
  ym_StreamCloseTimeout :: go_duration

definition v3_NewMuxConfig :: "v3_scalars \<Rightarrow> bool \<Rightarrow> yamux_config" where
  "v3_NewMuxConfig c isDialed =
     (let keepAlive = (if isDialed then vf_KeepAlive c else vf_ServerKeepAlive c);
          interval = seconds keepAlive;
          enable = (interval \<ge> second)
      in \<lparr>ym_AcceptBacklog = vf_AcceptBacklog c, ym_EnableKeepAlive = enable,
          ym_KeepAliveInterval = (if enable then interval else 15 * second),
          ym_ConnectionWriteTimeout = seconds (vf_WriteTimeout c), ym_MaxStreamWindowSize = vf_StreamWindow c,
          ym_StreamOpenTimeout = seconds (vf_StreamOpenTimeout c), ym_StreamCloseTimeout = seconds (vf_StreamCloseTimeout c)\<rparr>)"

section \<open>Entries are never removed\<close>

lemma dict_put_keys: "fst ` set (dict_put k v m) = insert k (fst ` set m)"
  by (induction k v m rule: dict_put.induct) auto

lemma dict_put_distinct: "distinct (map fst m) \<Longrightarrow> distinct (map fst (dict_put k v m))"
proof (induction k v m rule: dict_put.induct)
  case (2 k v j u m)
  then show ?case using dict_put_keys [of k v m] by auto
qed simp

lemma dict_put_lookup: "map_of (dict_put k v m) = (map_of m)(k \<mapsto> v)"
  by (induction k v m rule: dict_put.induct) (auto simp: fun_eq_iff)

lemma dict_merge_keys: "fst ` set (dict_merge es m) = fst ` set es \<union> fst ` set m"
proof (induction es arbitrary: m)
  case (Cons e es)
  obtain k v where e: "e = (k, v)" by (cases e)
  show ?case using Cons.IH [of "dict_put k v m"] dict_put_keys [of k v m] by (simp add: dict_merge_def e)
qed (simp add: dict_merge_def)

lemma dict_merge_distinct: "distinct (map fst m) \<Longrightarrow> distinct (map fst (dict_merge es m))"
  by (induction es arbitrary: m) (auto simp: dict_merge_def dict_put_distinct split: prod.split)

text \<open>The contract of validation: what is in range afterwards, and what is not checked.\<close>

lemma first_error_None: "first_error es = None \<longleftrightarrow> list_all (\<lambda>e. e = None) es"
  by (induction es rule: first_error.induct) auto

lemma rangeCheck_None: "v3_rangeCheckInt key v lo hi = None \<longleftrightarrow> lo \<le> v \<and> v \<le> hi"
  by (simp add: v3_rangeCheckInt_def)

lemma v3_Validate_iff:
  "v3_Validate parse c = None \<longleftrightarrow> v3_checkType parse (vf_Type c) = None
     \<and> 0 \<le> vf_KeepAlive c \<and> vf_KeepAlive c \<le> 86400 \<and> 0 \<le> vf_ServerKeepAlive c \<and> vf_ServerKeepAlive c \<le> 86400
     \<and> 1 \<le> vf_StartupLimitStart c \<and> vf_StartupLimitStart c \<le> max_int64 \<and> 0 \<le> vf_StartupLimitRate c \<and> vf_StartupLimitRate c \<le> 100
     \<and> 1 \<le> vf_StartupLimitFull c \<and> vf_StartupLimitFull c \<le> max_int64 \<and> 1 \<le> vf_MaxConn c \<and> vf_MaxConn c \<le> max_int64
     \<and> 1 \<le> vf_MaxSessions c \<and> vf_MaxSessions c \<le> max_int64"
  by (simp add: v3_Validate_def first_error_None rangeCheck_None)

text \<open>For a validated config the keep-alive interval of yamux is positive and exactly the configured one; 0 disables it.\<close>

lemma v3_keepalive_exact:
  assumes "v3_Validate parse c = None"
  shows "0 < ym_KeepAliveInterval (v3_NewMuxConfig c d)
     \<and> (let k = if d then vf_KeepAlive c else vf_ServerKeepAlive c
        in ym_EnableKeepAlive (v3_NewMuxConfig c d) = (k \<noteq> 0) \<and> (k \<noteq> 0 \<longrightarrow> ym_KeepAliveInterval (v3_NewMuxConfig c d) = k * second))"
proof -
  have "seconds k = k * second" if "0 \<le> k" "k \<le> 86400" for k
    using that by (simp add: seconds_def second_def wrap64_id in_int64_def min_int64_def max_int64_def)
  then show ?thesis using assms by (auto simp: v3_Validate_iff v3_NewMuxConfig_def Let_def second_def)
qed

text \<open>Loading several documents one after the other.\<close>

fun v3_loads ::
  "(string \<Rightarrow> v3_doc option) \<Rightarrow> (string \<Rightarrow> string option) \<Rightarrow> (string \<Rightarrow> (string \<times> (string \<rightharpoonup> string)) option) \<Rightarrow> string list \<Rightarrow> v3_maps
    \<Rightarrow> (v3_cfg_error + v3_file \<times> log_output \<times> int) list \<times> v3_maps" where
  "v3_loads json rf pm [] m = ([], m)"
| "v3_loads json rf pm (b # bs) m =
     (let (r, m) = v3_Load json rf pm b m; (rs, m) = v3_loads json rf pm bs m in (r # rs, m))"

definition peers_of :: "v3_maps \<Rightarrow> string set" where "peers_of m = fst ` set (vm_Peers m)"
definition services_of :: "v3_maps \<Rightarrow> string set" where "services_of m = fst ` set (vm_Services m)"

text \<open>The names a document adds to one of the maps.\<close>

definition added :: "(v3_doc \<Rightarrow> 'v dict option) \<Rightarrow> v3_doc option \<Rightarrow> string set" where
  "added field od = (case od of None \<Rightarrow> {} | Some d \<Rightarrow> (case field d of None \<Rightarrow> {} | Some es \<Rightarrow> fst ` set es))"

definition nulls :: "(v3_doc \<Rightarrow> 'v dict option) \<Rightarrow> v3_doc option \<Rightarrow> bool" where
  "nulls field od = (case od of None \<Rightarrow> False | Some d \<Rightarrow> field d = None)"

lemma v3_shared_map_keys: "fst ` set (v3_shared_map f m) = (case f of None \<Rightarrow> {} | Some es \<Rightarrow> fst ` set es) \<union> fst ` set m"
  by (cases f) (simp_all add: v3_shared_map_def dict_merge_keys)

lemma v3_Load_maps:
  assumes "v3_Load json rf pm b m = (r, m')"
  shows "peers_of m' = added doc_peers (json b) \<union> peers_of m" and "services_of m' = added doc_services (json b) \<union> services_of m"
    and "r = Inr ((c, mc), lg) \<Longrightarrow> peers_of mc = (if nulls doc_peers (json b) then {} else peers_of m')"
    and "r = Inr ((c, mc), lg) \<Longrightarrow> services_of mc = (if nulls doc_services (json b) then {} else services_of m')"
proof -
  have m: "m' = (case json b of None \<Rightarrow> m | Some d \<Rightarrow> snd (v3_unmarshal d (v3_Default, m)))"
    using assms by (auto simp: v3_Load_def split: option.splits prod.splits)
  show "peers_of m' = added doc_peers (json b) \<union> peers_of m" "services_of m' = added doc_services (json b) \<union> services_of m"
    unfolding m peers_of_def services_of_def v3_unmarshal_def added_def by (cases "json b"; simp add: v3_shared_map_keys split: option.split)+
  have "\<exists>d. json b = Some d \<and> mc = snd (fst (v3_unmarshal d (v3_Default, m)))" if "r = Inr ((c, mc), lg)"
    using assms that by (auto simp: v3_Load_def split: option.splits sum.splits prod.splits if_splits)
  then show "peers_of mc = (if nulls doc_peers (json b) then {} else peers_of m')"
      "services_of mc = (if nulls doc_services (json b) then {} else services_of m')" if "r = Inr ((c, mc), lg)"
    using that unfolding m
    by (auto simp: peers_of_def services_of_def v3_unmarshal_def nulls_def v3_config_map_def v3_shared_map_def split: option.splits)
qed

text \<open>In version 3 a reload never forgets a peer or a service.  Whatever documents are loaded one after the other, a config that
  loads has every peer of all documents decoded before it, also of those that were then rejected, because all of them are
  decoded into the maps of the default config, which the copies of its struct share.  The only exception is an explicit null,
  which leaves the config without any peer.  The same holds for services.\<close>

theorem v3_reload_keeps_entries:
  assumes "v3_loads json rf pm bs m = (rs, m')" and "i < length rs" and "rs ! i = Inr ((c, mc), lg)"
  shows "peers_of mc = (if nulls doc_peers (json (bs ! i)) then {} else peers_of m \<union> (\<Union>j \<le> i. added doc_peers (json (bs ! j))))
     \<and> services_of mc = (if nulls doc_services (json (bs ! i)) then {} else services_of m \<union> (\<Union>j \<le> i. added doc_services (json (bs ! j))))"
  using assms
proof (induction bs arbitrary: m rs i)
  case (Cons b bs)
  obtain r m1 where l: "v3_Load json rf pm b m = (r, m1)" by fastforce
  obtain rs1 where rs: "v3_loads json rf pm bs m1 = (rs1, m')" "rs = r # rs1" using Cons.prems(1) l by (auto simp: Let_def split: prod.splits)
  show ?case
  proof (cases i)
    case 0
    then have "r = Inr ((c, mc), lg)" using Cons.prems(3) rs(2) by simp
    then show ?thesis using v3_Load_maps [OF l] 0 by auto
  next
    case (Suc k)
    have S: "(\<Union>j \<le> Suc k. F j) = F 0 \<union> (\<Union>j \<le> k. F (Suc j))" for F :: "nat \<Rightarrow> string set"
      by (simp add: atMost_Suc_eq_insert_0 image_image)
    show ?thesis using Cons.IH [OF rs(1), of k] Cons.prems(2,3) rs(2) v3_Load_maps(1,2) [OF l] unfolding Suc S by auto
  qed
qed simp

text \<open>A peer removed from the file: the second document has no peers, the config that is loaded still has the first one's.\<close>

definition v3_demo_json :: "string \<Rightarrow> v3_doc option" where
  "v3_demo_json b =
     (if b = ''old'' then Some \<lparr>doc_scalars = id, doc_services = Some [], doc_peers = Some [(''p'', \<lparr>vt_Disabled = False, vt_MuxDial = ''h:1'', vt_Listen = '''', vt_Service = ''''\<rparr>)], doc_mistyped = False\<rparr>
      else if b = ''new'' then Some \<lparr>doc_scalars = id, doc_services = Some [], doc_peers = Some [], doc_mistyped = False\<rparr> else None)"

theorem v3_reload_keeps_entries_witness:
  "case v3_loads v3_demo_json (\<lambda>_. None) (\<lambda>_. Some (v3_mimeType, [''version'' \<mapsto> v3_mimeVersion])) [''old'', ''new''] v3_empty_maps of
     (rs, _) \<Rightarrow> (case rs ! 1 of Inl _ \<Rightarrow> False | Inr ((c, mc), _) \<Rightarrow> ''p'' \<in> peers_of mc)"
proof -
  let ?r = "v3_loads v3_demo_json (\<lambda>_. None) (\<lambda>_. Some (v3_mimeType, [''version'' \<mapsto> v3_mimeVersion])) [''old'', ''new''] v3_empty_maps"
  have "case ?r of (rs, _) \<Rightarrow> length rs = 2 \<and> (case rs ! 1 of Inl _ \<Rightarrow> False | Inr _ \<Rightarrow> True)"
    by code_simp
  then obtain rs m' c mc lg where r: "?r = (rs, m')" "1 < length rs" "rs ! 1 = Inr ((c, mc), lg)"
    by (auto split: prod.splits sum.splits)
  have "peers_of mc = peers_of v3_empty_maps \<union> (\<Union>j \<le> 1. added doc_peers (v3_demo_json ([''old'', ''new''] ! j)))"
    using v3_reload_keeps_entries [OF r] by (simp add: v3_demo_json_def nulls_def)
  then have "''p'' \<in> peers_of mc" by (auto simp: v3_demo_json_def added_def intro!: bexI [of _ 0])
  then show ?thesis unfolding r(1) using r(3) by simp
qed

end
