(* ===== verification/V3_Proto.thy ===== *)
theory V3_Proto
  imports V3_Config H3_Handshake
begin

text \<open>
  The hello messages of version 3, \<^verbatim>\<open>v3/proto/proto.go\<close>, and their use by the dialing side (\<^verbatim>\<open>muxDial\<close> of \<^verbatim>\<open>v3/tunnel.go\<close>) and the
  accepting side (\<^verbatim>\<open>TLSHandler.Serve\<close> of \<^verbatim>\<open>v3/handler.go\<close>).  JSON and MIME parsing are parameters.
\<close>

section \<open>Messages\<close>

definition MsgClientHello :: int where "MsgClientHello = 0"
definition MsgServerHello :: int where "MsgServerHello = 1"

record v3_message =
  pm_Type :: string
  pm_Msg :: int
  pm_PeerName :: string
  pm_Service :: string

definition v3_proto_mimeType :: string where "v3_proto_mimeType = ''application/x-tlswrapper-proto''"
definition v3_proto_mimeVersion :: string where "v3_proto_mimeVersion = ''3''"
definition v3_proto_Type :: string where "v3_proto_Type = ''application/x-tlswrapper-proto; version=3''"

datatype v3_proto_error =
    V3Marshal | V3UnmarshalMsg | ErrMsgTooLong | V3WriteErr | V3ReadHeader | V3ReadBody | V3MediaType
  | ErrUnsupportedProtocol | ErrIncompatiableVersion | V3InvalidMessage

record v3_codec =
  vc_Marshal :: "v3_message \<Rightarrow> bytes option"
  vc_Unmarshal :: "bytes \<Rightarrow> v3_message option"
  vc_parseMedia :: "string \<Rightarrow> (string \<times> (string \<rightharpoonup> string)) option"

definition PutUint16 :: "16 word \<Rightarrow> bytes" where
  "PutUint16 v = [ucast (drop_bit 8 v), ucast v]"

definition Uint16 :: "bytes \<Rightarrow> 16 word" where
  "Uint16 b = ucast (b ! 1) OR push_bit 8 (ucast (b ! 0))"

text \<open>\<open>ok\<close> is whether the write succeeds; the second result is what was written.\<close>

definition v3_sendmsg :: "v3_codec \<Rightarrow> bool \<Rightarrow> v3_message \<Rightarrow> v3_proto_error option \<times> bytes" where
  "v3_sendmsg j ok msg =
     (case vc_Marshal j msg of
        None \<Rightarrow> (Some V3Marshal, [])
      | Some b \<Rightarrow>
          if length b > 65535 then (Some ErrMsgTooLong, [])
          else if \<not> ok then (Some V3WriteErr, [])
          else (None, PutUint16 (of_nat (length b)) @ b))"

text \<open>The result, the bytes not consumed, and the size of the buffer that was allocated.\<close>

definition v3_recvmsg :: "v3_codec \<Rightarrow> bytes \<Rightarrow> (v3_proto_error + v3_message) \<times> bytes \<times> nat" where
  "v3_recvmsg j r =
     (case ReadFull 2 r of
        None \<Rightarrow> (Inl V3ReadHeader, [], 0)
      | Some (hdr, r) \<Rightarrow>
          let n = unat (Uint16 hdr)
          in (case ReadFull n r of
                None \<Rightarrow> (Inl V3ReadBody, [], n)
              | Some (b, r) \<Rightarrow>
                  (case vc_Unmarshal j b of None \<Rightarrow> (Inl V3UnmarshalMsg, r, n) | Some msg \<Rightarrow> (Inr msg, r, n))))"

definition v3_proto_checkType :: "v3_codec \<Rightarrow> string \<Rightarrow> v3_proto_error option" where
  "v3_proto_checkType j s =
     (case vc_parseMedia j s of
        None \<Rightarrow> Some V3MediaType
      | Some (mediatype, params) \<Rightarrow>
          if mediatype \<noteq> v3_proto_mimeType then Some ErrUnsupportedProtocol
          else (case params ''version'' of
                  None \<Rightarrow> Some ErrUnsupportedProtocol
                | Some version \<Rightarrow> if version \<noteq> v3_proto_mimeVersion then Some ErrIncompatiableVersion else None))"

definition v3_Read :: "v3_codec \<Rightarrow> bytes \<Rightarrow> (v3_proto_error + v3_message) \<times> bytes" where
  "v3_Read j r =
     (case v3_recvmsg j r of
        (Inl e, r, _) \<Rightarrow> (Inl e, r)
      | (Inr req, r, _) \<Rightarrow> (case v3_proto_checkType j (pm_Type req) of Some e \<Rightarrow> (Inl e, r) | None \<Rightarrow> (Inr req, r)))"

definition v3_Write :: "v3_codec \<Rightarrow> bool \<Rightarrow> v3_message \<Rightarrow> v3_proto_error option \<times> bytes" where
  "v3_Write j ok rsp = v3_sendmsg j ok rsp"

text \<open>\<open>input\<close> is what the peer sends in reply.\<close>

definition v3_Roundtrip :: "v3_codec \<Rightarrow> bool \<Rightarrow> bytes \<Rightarrow> v3_message \<Rightarrow> (v3_proto_error + v3_message) \<times> bytes" where
  "v3_Roundtrip j ok input req =
     (case v3_sendmsg j ok req of
        (Some e, out) \<Rightarrow> (Inl e, out)
      | (None, out) \<Rightarrow>
          (case v3_recvmsg j input of
             (Inl e, _) \<Rightarrow> (Inl e, out)
           | (Inr rsp, _) \<Rightarrow> (case v3_proto_checkType j (pm_Type rsp) of Some e \<Rightarrow> (Inl e, out) | None \<Rightarrow> (Inr rsp, out))))"

section \<open>The two sides of a hello\<close>

text \<open>The request of \<^verbatim>\<open>muxDial\<close>, and what it does with the reply.\<close>

definition v3_client_req :: "v3_scalars \<Rightarrow> v3_tunnel_cfg \<Rightarrow> v3_message" where
  "v3_client_req cfg tuncfg =
     \<lparr>pm_Type = v3_proto_Type, pm_Msg = MsgClientHello, pm_PeerName = vf_PeerName cfg, pm_Service = vt_Service tuncfg\<rparr>"

text \<open>\<^verbatim>\<open>TLSHandler.Serve\<close> up to the start of the session: the request it accepted and the reply it sent, or the error.\<close>

definition v3_server_rsp :: "v3_file \<Rightarrow> v3_message \<Rightarrow> v3_message" where
  "v3_server_rsp cfg req =
     \<lparr>pm_Type = v3_proto_Type, pm_Msg = MsgServerHello, pm_PeerName = vf_PeerName (fst cfg),
      pm_Service = (case map_of (vm_Peers (snd cfg)) (pm_PeerName req) of Some c \<Rightarrow> vt_Service c | None \<Rightarrow> '''')\<rparr>"

definition v3_server_hello :: "v3_codec \<Rightarrow> bool \<Rightarrow> v3_file \<Rightarrow> bytes \<Rightarrow> (v3_proto_error + v3_message) \<times> bytes" where
  "v3_server_hello j ok cfg input =
     (case v3_Read j input of
        (Inl e, _) \<Rightarrow> (Inl e, [])
      | (Inr req, _) \<Rightarrow>
          if pm_Msg req \<noteq> MsgClientHello then (Inl V3InvalidMessage, [])
          else (case v3_Write j ok (v3_server_rsp cfg req) of
                  (Some e, out) \<Rightarrow> (Inl e, out)
                | (None, out) \<Rightarrow> (Inr req, out)))"

section \<open>Framing\<close>

lemma Uint16_PutUint16: "Uint16 (PutUint16 v) = v"
proof (rule bit_eqI)
  fix n assume "possible_bit TYPE(16 word) n"
  then have n: "n < 16" by simp
  have "bit (push_bit k (ucast (ucast (drop_bit k v) :: byte)) :: 16 word) n \<longleftrightarrow> k \<le> n \<and> n < k + 8 \<and> bit v n" for k
    using n by (auto simp: bit_push_bit_iff bit_unsigned_iff bit_drop_bit_eq)
  from this [of 0] this [of 8] have "bit (Uint16 (PutUint16 v)) n \<longleftrightarrow> (n < 8 \<or> 8 \<le> n \<and> n < 16) \<and> bit v n"
    by (simp add: Uint16_def PutUint16_def bit_or_iff) blast
  with n show "bit (Uint16 (PutUint16 v)) n = bit v n" by auto
qed

lemma length_PutUint16 [simp]: "length (PutUint16 v) = 2"
  by (simp add: PutUint16_def)

lemma v3_frame:
  assumes "vc_Marshal j m = Some b" and "length b \<le> 65535" and "vc_Unmarshal j b = Some m"
  shows "v3_sendmsg j True m = (None, PutUint16 (of_nat (length b)) @ b)"
    and "v3_recvmsg j (PutUint16 (of_nat (length b)) @ b @ rest) = (Inr m, rest, length b)"
proof -
  have "unat (of_nat (length b) :: 16 word) = length b" using assms(2) by (simp add: unat_of_nat)
  then show "v3_recvmsg j (PutUint16 (of_nat (length b)) @ b @ rest) = (Inr m, rest, length b)"
    using assms by (simp add: v3_recvmsg_def ReadFull_def Uint16_PutUint16 Let_def)
qed (use assms in \<open>simp add: v3_sendmsg_def\<close>)

text \<open>A hello is bounded whatever the peer sends: at most 65537 bytes are consumed and 65535 allocated.\<close>

lemma v3_recv_bounded:
  "\<exists>used. input = used @ fst (snd (v3_recvmsg j input)) \<and> length used \<le> 2 + 65535 \<and> snd (snd (v3_recvmsg j input)) \<le> 65535"
proof (cases "2 \<le> length input")
  case False
  then show ?thesis by (intro exI [of _ input]) (simp add: v3_recvmsg_def ReadFull_def)
next
  case True
  let ?n = "unat (Uint16 (take 2 input))"
  have "?n \<le> 65535" using unsigned_less [of "Uint16 (take 2 input)", where ?'a = nat] by simp
  then show ?thesis using True
    by (intro exI [of _ "take (2 + ?n) input"]) (auto simp: v3_recvmsg_def ReadFull_def Let_def not_le add.commute split: option.split)
qed

text \<open>(C18) The hello exchange of version 3: over a connection that works the accepting side learns exactly the peer name and the service
  the dialing side sends, and the dialing side learns the name of the accepting side and the service configured there for it,
  whatever follows on the connection; nothing that follows is consumed.\<close>

theorem v3_hello_exchange:
  assumes req: "req = v3_client_req ccfg tuncfg" and rsp: "rsp = v3_server_rsp scfg req"
    and "vc_Marshal j req = Some b1" and "length b1 \<le> 65535" and "vc_Unmarshal j b1 = Some req"
    and "vc_Marshal j rsp = Some b2" and "length b2 \<le> 65535" and "vc_Unmarshal j b2 = Some rsp"
    and "v3_proto_checkType j v3_proto_Type = None"
  shows "\<exists>out1 out2. v3_sendmsg j True req = (None, out1)
     \<and> v3_server_hello j True scfg (out1 @ more1) = (Inr req, out2) \<and> snd (v3_Read j (out1 @ more1)) = more1
     \<and> v3_Roundtrip j True (out2 @ more2) req = (Inr rsp, out1)
     \<and> pm_PeerName req = vf_PeerName ccfg \<and> pm_Service req = vt_Service tuncfg \<and> pm_PeerName rsp = vf_PeerName (fst scfg)
     \<and> (case map_of (vm_Peers (snd scfg)) (vf_PeerName ccfg) of None \<Rightarrow> pm_Service rsp = '''' | Some c \<Rightarrow> pm_Service rsp = vt_Service c)"
proof -
  note f1 = v3_frame [OF assms(3-5)] and f2 = v3_frame [OF assms(6-8)]
  have t: "pm_Type req = v3_proto_Type" "pm_Type rsp = v3_proto_Type" "pm_Msg req = MsgClientHello" "rsp = v3_server_rsp scfg req"
    by (simp_all add: req rsp v3_client_req_def v3_server_rsp_def)
  have rd: "v3_Read j ((PutUint16 (of_nat (length b1)) @ b1) @ more1) = (Inr req, more1)"
    using assms(9) by (simp add: v3_Read_def f1(2) t)
  have s: "v3_server_hello j True scfg ((PutUint16 (of_nat (length b1)) @ b1) @ more1) = (Inr req, PutUint16 (of_nat (length b2)) @ b2)"
    using f2(1) rd t by (simp add: v3_server_hello_def v3_Write_def)
  have c: "v3_Roundtrip j True ((PutUint16 (of_nat (length b2)) @ b2) @ more2) req = (Inr rsp, PutUint16 (of_nat (length b1)) @ b1)"
    using assms(9) t(2) by (simp add: v3_Roundtrip_def f1(1) f2(2))
  have "pm_PeerName req = vf_PeerName ccfg" "pm_Service req = vt_Service tuncfg" "pm_PeerName rsp = vf_PeerName (fst scfg)"
    "case map_of (vm_Peers (snd scfg)) (vf_PeerName ccfg) of None \<Rightarrow> pm_Service rsp = '''' | Some c \<Rightarrow> pm_Service rsp = vt_Service c"
    by (simp_all add: req rsp v3_client_req_def v3_server_rsp_def split: option.split)
  then show ?thesis using f1(1) rd s c by (intro exI conjI) auto
qed

definition v3_demo_tunnel :: v3_tunnel_cfg where
  "v3_demo_tunnel = \<lparr>vt_Disabled = False, vt_MuxDial = '''', vt_Listen = '''', vt_Service = ''web''\<rparr>"

definition v3_demo_codec :: v3_codec where
  "v3_demo_codec =
     (let req = v3_client_req (v3_Default\<lparr>vf_PeerName := ''c''\<rparr>) v3_demo_tunnel
      in \<lparr>vc_Marshal = (\<lambda>m. Some [if pm_Msg m = 0 then 0 else 1]),
          vc_Unmarshal = (\<lambda>b. Some (if b = [0] then req else v3_server_rsp (v3_Default\<lparr>vf_PeerName := ''s''\<rparr>, v3_empty_maps) req)),
          vc_parseMedia = (\<lambda>_. Some (v3_proto_mimeType, [''version'' \<mapsto> v3_proto_mimeVersion]))\<rparr>)"

theorem v3_hello_exchange_witness:
  "\<exists>out1. v3_sendmsg v3_demo_codec True (v3_client_req (v3_Default\<lparr>vf_PeerName := ''c''\<rparr>) v3_demo_tunnel) = (None, out1)
     \<and> (case v3_server_hello v3_demo_codec True (v3_Default\<lparr>vf_PeerName := ''s''\<rparr>, v3_empty_maps) out1 of
          (Inr req, out2) \<Rightarrow> pm_PeerName req = ''c'' \<and> pm_Service req = ''web'' | _ \<Rightarrow> False)"
proof -
  let ?c = "v3_Default\<lparr>vf_PeerName := ''c''\<rparr>" and ?s = "(v3_Default\<lparr>vf_PeerName := ''s''\<rparr>, v3_empty_maps)"
  let ?req = "v3_client_req ?c v3_demo_tunnel"
  let ?rsp = "v3_server_rsp ?s ?req"
  have r: "pm_Msg ?req = 0" "pm_Msg ?rsp = 1" "vf_PeerName ?c = ''c''" "vt_Service v3_demo_tunnel = ''web''"
    by (simp_all add: v3_client_req_def v3_server_rsp_def MsgClientHello_def MsgServerHello_def v3_demo_tunnel_def)
  have "\<exists>out1 out2. v3_sendmsg v3_demo_codec True ?req = (None, out1)
     \<and> v3_server_hello v3_demo_codec True ?s (out1 @ []) = (Inr ?req, out2) \<and> snd (v3_Read v3_demo_codec (out1 @ [])) = []
     \<and> v3_Roundtrip v3_demo_codec True (out2 @ []) ?req = (Inr ?rsp, out1)
     \<and> pm_PeerName ?req = vf_PeerName ?c \<and> pm_Service ?req = vt_Service v3_demo_tunnel \<and> pm_PeerName ?rsp = vf_PeerName (fst ?s)
     \<and> (case map_of (vm_Peers (snd ?s)) (vf_PeerName ?c) of None \<Rightarrow> pm_Service ?rsp = '''' | Some c \<Rightarrow> pm_Service ?rsp = vt_Service c)"
    by (rule v3_hello_exchange [where ?b1.0 = "[0]" and ?b2.0 = "[1]"])
      (simp_all add: v3_demo_codec_def Let_def r v3_proto_checkType_def)
  then show ?thesis using r(3,4) by fastforce
qed

end
