(* ===== verification/V3_Forwarder.thy ===== *)
theory V3_Forwarder
  imports Prelude
begin

text \<open>
  The forwarder of version 3, \<^verbatim>\<open>v3/forwarder/forwarder.go\<close>.  The limit is the capacity of a channel, the clean-up of a pair runs once
  for whichever of its three goroutines (the caller and two copiers) gets there first.  A pair is a record with a program counter
  for each goroutine and for the clean-up; \<open>exec\<close> of \<open>v3_fwd_step\<close> runs any interleaving.
\<close>

section \<open>State\<close>

datatype v3_fwd_error = V3ErrClosed | V3ErrConnLimit

datatype fstart = FSelect | FAdd | FGo1 | FGo2 | FFail | FRet "v3_fwd_error option"
datatype fcopy = CIdle | CCopy | CDone | CRet
datatype fonce = ONever | OClose | OUntrack | ORelease | OFinished

record v3_pair =
  fp_start :: fstart
  fp_c1 :: fcopy
  fp_c2 :: fcopy
  fp_once :: fonce
  fp_admitted :: bool      \<comment> \<open>has ever taken a slot of the counter\<close>
  fp_token :: bool         \<comment> \<open>its slot is still taken\<close>
  fp_tracked :: bool       \<comment> \<open>in the map of connections\<close>
  fp_closed :: bool

record v3_fwd =
  ff_max :: nat
  ff_counter :: nat
  ff_groupClosed :: bool
  ff_pairs :: "v3_pair list"

definition v3_New :: "nat \<Rightarrow> v3_fwd" where
  "v3_New maxConn = \<lparr>ff_max = maxConn, ff_counter = 0, ff_groupClosed = False, ff_pairs = []\<rparr>"

definition new_pair :: v3_pair where
  "new_pair = \<lparr>fp_start = FSelect, fp_c1 = CIdle, fp_c2 = CIdle, fp_once = ONever, fp_admitted = False, fp_token = False,
     fp_tracked = False, fp_closed = False\<rparr>"

section \<open>Steps\<close>

datatype select_case = SelClosed | SelSend | SelDefault

text \<open>The select of \<^verbatim>\<open>Forward\<close>: any case that is ready, the default only when none is.\<close>

definition v3_select :: "select_case \<Rightarrow> v3_fwd \<Rightarrow> v3_pair \<Rightarrow> (v3_pair \<times> nat) option" where
  "v3_select c f p =
     (case c of
        SelClosed \<Rightarrow> if ff_groupClosed f then Some (p\<lparr>fp_start := FRet (Some V3ErrClosed)\<rparr>, ff_counter f) else None
      | SelSend \<Rightarrow> if ff_counter f < ff_max f
                  then Some (p\<lparr>fp_start := FAdd, fp_admitted := True, fp_token := True\<rparr>, ff_counter f + 1) else None
      | SelDefault \<Rightarrow> if \<not> ff_groupClosed f \<and> \<not> ff_counter f < ff_max f
                     then Some (p\<lparr>fp_start := FRet (Some V3ErrConnLimit)\<rparr>, ff_counter f) else None)"

text \<open>The rest of \<^verbatim>\<open>Forward\<close>; \<open>ok\<close> is whether \<^verbatim>\<open>g.Go\<close> starts the goroutine.\<close>

definition v3_Forward :: "bool \<Rightarrow> v3_pair \<Rightarrow> v3_pair option" where
  "v3_Forward ok p =
     (case fp_start p of
        FAdd \<Rightarrow> Some (p\<lparr>fp_tracked := True, fp_start := FGo1\<rparr>)
      | FGo1 \<Rightarrow> Some (if ok then p\<lparr>fp_c1 := CCopy, fp_start := FGo2\<rparr> else p\<lparr>fp_start := FFail\<rparr>)
      | FGo2 \<Rightarrow> Some (if ok then p\<lparr>fp_c2 := CCopy, fp_start := FRet None\<rparr> else p\<lparr>fp_start := FFail\<rparr>)
      | FFail \<Rightarrow> (case fp_once p of
                    ONever \<Rightarrow> Some (p\<lparr>fp_once := OClose\<rparr>)
                  | OFinished \<Rightarrow> Some (p\<lparr>fp_start := FRet (Some V3ErrClosed)\<rparr>)
                  | _ \<Rightarrow> None)
      | _ \<Rightarrow> None)"

text \<open>A copier: the copy ends, then it calls \<^verbatim>\<open>cleanupOnce.Do\<close>, which waits for a clean-up that is running.\<close>

definition v3_copier :: "fonce \<Rightarrow> fcopy \<Rightarrow> (fonce \<times> fcopy) option" where
  "v3_copier once c =
     (case c of
        CCopy \<Rightarrow> Some (once, CDone)
      | CDone \<Rightarrow> (case once of ONever \<Rightarrow> Some (OClose, CDone) | OFinished \<Rightarrow> Some (OFinished, CRet) | _ \<Rightarrow> None)
      | _ \<Rightarrow> None)"

text \<open>The clean-up: both connections are closed, then forgotten, then the slot is given back, which blocks on an empty channel.\<close>

definition v3_cleanup :: "nat \<Rightarrow> v3_pair \<Rightarrow> (v3_pair \<times> nat) option" where
  "v3_cleanup counter p =
     (case fp_once p of
        OClose \<Rightarrow> Some (p\<lparr>fp_closed := True, fp_once := OUntrack\<rparr>, counter)
      | OUntrack \<Rightarrow> Some (p\<lparr>fp_tracked := False, fp_once := ORelease\<rparr>, counter)
      | ORelease \<Rightarrow> if counter = 0 then None else Some (p\<lparr>fp_token := False, fp_once := OFinished\<rparr>, counter - 1)
      | _ \<Rightarrow> None)"

definition v3_fwd_Close :: "v3_fwd \<Rightarrow> v3_fwd" where
  "v3_fwd_Close f = f\<lparr>ff_pairs := map (\<lambda>p. if fp_tracked p then p\<lparr>fp_closed := True\<rparr> else p) (ff_pairs f)\<rparr>"

datatype v3_fwd_event =
    VForward | VSelect nat select_case | VStart nat bool | VCopier1 nat | VCopier2 nat | VCleanup nat | VClose | VCloseGroup

definition set_pair :: "nat \<Rightarrow> v3_pair \<Rightarrow> v3_fwd \<Rightarrow> v3_fwd" where
  "set_pair i p f = f\<lparr>ff_pairs := (ff_pairs f)[i := p]\<rparr>"

fun v3_pair_step :: "v3_fwd_event \<Rightarrow> v3_fwd \<Rightarrow> v3_pair \<Rightarrow> (v3_pair \<times> nat) option" where
  "v3_pair_step (VSelect i c) f p = (if fp_start p = FSelect then v3_select c f p else None)"
| "v3_pair_step (VStart i ok) f p = map_option (\<lambda>p. (p, ff_counter f)) (v3_Forward ok p)"
| "v3_pair_step (VCopier1 i) f p = map_option (\<lambda>(once, c). (p\<lparr>fp_once := once, fp_c1 := c\<rparr>, ff_counter f)) (v3_copier (fp_once p) (fp_c1 p))"
| "v3_pair_step (VCopier2 i) f p = map_option (\<lambda>(once, c). (p\<lparr>fp_once := once, fp_c2 := c\<rparr>, ff_counter f)) (v3_copier (fp_once p) (fp_c2 p))"
| "v3_pair_step (VCleanup i) f p = v3_cleanup (ff_counter f) p"
| "v3_pair_step _ f p = None"

fun event_pair :: "v3_fwd_event \<Rightarrow> nat option" where
  "event_pair (VSelect i c) = Some i"
| "event_pair (VStart i ok) = Some i"
| "event_pair (VCopier1 i) = Some i"
| "event_pair (VCopier2 i) = Some i"
| "event_pair (VCleanup i) = Some i"
| "event_pair _ = None"

definition v3_fwd_step :: "v3_fwd_event \<Rightarrow> v3_fwd \<Rightarrow> v3_fwd option" where
  "v3_fwd_step e f =
     (case event_pair e of
        Some i \<Rightarrow>
          if i < length (ff_pairs f)
          then map_option (\<lambda>(p, n). (set_pair i p f)\<lparr>ff_counter := n\<rparr>) (v3_pair_step e f (ff_pairs f ! i)) else None
      | None \<Rightarrow>
          (case e of
             VForward \<Rightarrow> Some (f\<lparr>ff_pairs := ff_pairs f @ [new_pair]\<rparr>)
           | VClose \<Rightarrow> Some (v3_fwd_Close f)
           | _ \<Rightarrow> Some (f\<lparr>ff_groupClosed := True\<rparr>)))"

definition v3_Count :: "v3_fwd \<Rightarrow> nat" where
  "v3_Count f = ff_counter f"

section \<open>The invariant\<close>

definition idle_copiers :: "v3_pair \<Rightarrow> bool" where
  "idle_copiers p \<longleftrightarrow> fp_c1 p = CIdle \<and> fp_c2 p = CIdle"

text \<open>How far the caller and the clean-up can be apart.\<close>

fun start_ok :: "fstart \<Rightarrow> v3_pair \<Rightarrow> bool" where
  "start_ok FSelect p = (\<not> fp_admitted p)"
| "start_ok FAdd p = (fp_admitted p \<and> idle_copiers p \<and> fp_once p = ONever)"
| "start_ok FGo1 p = (fp_admitted p \<and> idle_copiers p \<and> fp_once p = ONever)"
| "start_ok FGo2 p = (fp_admitted p \<and> fp_c1 p \<noteq> CIdle \<and> fp_c2 p = CIdle)"
| "start_ok FFail p = (fp_admitted p \<and> fp_c2 p = CIdle)"
| "start_ok (FRet None) p = (fp_admitted p \<and> fp_c1 p \<noteq> CIdle \<and> fp_c2 p \<noteq> CIdle)"
| "start_ok (FRet (Some e)) p = (fp_admitted p \<longrightarrow> fp_once p = OFinished)"

definition pair_ok :: "v3_pair \<Rightarrow> bool" where
  "pair_ok p \<longleftrightarrow> start_ok (fp_start p) p
     \<and> (\<not> fp_admitted p \<longrightarrow> idle_copiers p \<and> fp_once p = ONever \<and> \<not> fp_tracked p)
     \<and> (fp_token p \<longleftrightarrow> fp_admitted p \<and> fp_once p \<noteq> OFinished)
     \<and> (fp_c1 p = CRet \<or> fp_c2 p = CRet \<longrightarrow> fp_once p = OFinished)
     \<and> (fp_once p \<in> {OUntrack, ORelease, OFinished} \<longrightarrow> fp_closed p)
     \<and> (fp_once p \<in> {ORelease, OFinished} \<longrightarrow> \<not> fp_tracked p)"

definition tokens :: "v3_pair list \<Rightarrow> nat" where
  "tokens ps = length (filter fp_token ps)"

definition v3_fwd_inv :: "v3_fwd \<Rightarrow> bool" where
  "v3_fwd_inv f \<longleftrightarrow> ff_counter f = tokens (ff_pairs f) \<and> ff_counter f \<le> ff_max f \<and> list_all pair_ok (ff_pairs f)"

lemma tokens_update:
  "i < length ps \<Longrightarrow> tokens (ps[i := p]) + of_bool (fp_token (ps ! i)) = tokens ps + of_bool (fp_token p)"
proof (induction ps arbitrary: i)
  case (Cons q ps)
  then show ?case by (cases i) (auto simp: tokens_def)
qed simp

text \<open>A step keeps the pair in order and moves the counter with its slot.\<close>

lemma select_ok:
  "v3_select c f p = Some (q, n) \<Longrightarrow> pair_ok p \<Longrightarrow> fp_start p = FSelect \<Longrightarrow>
     pair_ok q \<and> n + of_bool (fp_token p) = ff_counter f + of_bool (fp_token q) \<and> (n \<le> ff_counter f \<or> n \<le> ff_max f)"
  by (cases c) (auto simp: v3_select_def pair_ok_def idle_copiers_def split: if_splits)

lemma forward_ok:
  assumes "v3_Forward ok p = Some q" and "pair_ok p"
  shows "pair_ok q \<and> fp_token q = fp_token p"
proof (cases "fp_start p")
  case FAdd
  then have "q = p\<lparr>fp_tracked := True, fp_start := FGo1\<rparr>" using assms(1) by (simp add: v3_Forward_def)
  then show ?thesis using assms(2) FAdd by (simp add: pair_ok_def idle_copiers_def)
next
  case FGo1
  then have "q = (if ok then p\<lparr>fp_c1 := CCopy, fp_start := FGo2\<rparr> else p\<lparr>fp_start := FFail\<rparr>)" using assms(1) by (simp add: v3_Forward_def)
  then show ?thesis using assms(2) FGo1 by (simp add: pair_ok_def idle_copiers_def)
next
  case FGo2
  then have "q = (if ok then p\<lparr>fp_c2 := CCopy, fp_start := FRet None\<rparr> else p\<lparr>fp_start := FFail\<rparr>)" using assms(1) by (simp add: v3_Forward_def)
  then show ?thesis using assms(2) FGo2 by (simp add: pair_ok_def idle_copiers_def)
next
  case FFail
  then show ?thesis using assms by (cases "fp_once p") (auto simp: v3_Forward_def pair_ok_def)
qed (use assms(1) in \<open>simp_all add: v3_Forward_def\<close>)

text \<open>What a copier changes: itself, and the start of the clean-up.\<close>

lemma copier_cases:
  assumes "v3_copier once c = Some (once', c')"
  obtains (copied) "c = CCopy" "c' = CDone" "once' = once"
    | (starts) "c = CDone" "c' = CDone" "once = ONever" "once' = OClose"
    | (returns) "c = CDone" "c' = CRet" "once = OFinished" "once' = OFinished"
  using assms by (auto simp: v3_copier_def split: fcopy.splits fonce.splits)


lemma copier_ok:
  assumes "pair_ok p" and "v3_copier (fp_once p) (fp_c1 p) = Some (once', c')"
  shows "pair_ok (p\<lparr>fp_once := once', fp_c1 := c'\<rparr>)"
  using assms(2)
proof (cases rule: copier_cases)
  case copied
  then show ?thesis using assms(1) by (cases "(fp_start p, p)" rule: start_ok.cases) (auto simp: pair_ok_def idle_copiers_def)
next
  case starts
  then show ?thesis using assms(1) by (cases "(fp_start p, p)" rule: start_ok.cases) (auto simp: pair_ok_def idle_copiers_def)
next
  case returns
  then show ?thesis using assms(1) by (cases "(fp_start p, p)" rule: start_ok.cases) (auto simp: pair_ok_def idle_copiers_def)
qed

lemma copier2_ok:
  assumes "pair_ok p" and "v3_copier (fp_once p) (fp_c2 p) = Some (once', c')"
  shows "pair_ok (p\<lparr>fp_once := once', fp_c2 := c'\<rparr>)"
  using assms(2)
proof (cases rule: copier_cases)
  case copied
  then show ?thesis using assms(1) by (cases "(fp_start p, p)" rule: start_ok.cases) (auto simp: pair_ok_def idle_copiers_def)
next
  case starts
  then show ?thesis using assms(1) by (cases "(fp_start p, p)" rule: start_ok.cases) (auto simp: pair_ok_def idle_copiers_def)
next
  case returns
  then show ?thesis using assms(1) by (cases "(fp_start p, p)" rule: start_ok.cases) (auto simp: pair_ok_def idle_copiers_def)
qed

lemma cleanup_ok:
  assumes "v3_cleanup k p = Some (q, n)" and "pair_ok p"
  shows "pair_ok q \<and> n + of_bool (fp_token p) = k + of_bool (fp_token q) \<and> n \<le> k"
proof -
  have a: "fp_admitted p" using assms by (auto simp: v3_cleanup_def pair_ok_def split: fonce.splits)
  show ?thesis
  proof (cases "fp_once p")
    case OClose
    then have "q = p\<lparr>fp_closed := True, fp_once := OUntrack\<rparr>" "n = k" using assms(1) by (auto simp: v3_cleanup_def)
    then show ?thesis using assms(2) OClose a by (cases "(fp_start p, p)" rule: start_ok.cases) (auto simp: pair_ok_def)
  next
    case OUntrack
    then have "q = p\<lparr>fp_tracked := False, fp_once := ORelease\<rparr>" "n = k" using assms(1) by (auto simp: v3_cleanup_def)
    then show ?thesis using assms(2) OUntrack a by (cases "(fp_start p, p)" rule: start_ok.cases) (auto simp: pair_ok_def)
  next
    case ORelease
    then have "q = p\<lparr>fp_token := False, fp_once := OFinished\<rparr>" "n = k - 1" "k \<noteq> 0" using assms(1) by (auto simp: v3_cleanup_def split: if_splits)
    then show ?thesis using assms(2) ORelease a by (cases "(fp_start p, p)" rule: start_ok.cases) (auto simp: pair_ok_def)
  qed (use assms(1) in \<open>simp_all add: v3_cleanup_def\<close>)
qed

text \<open>A step keeps the pair in order and moves the counter with its slot.\<close>

lemma pair_step_ok:
  assumes "v3_pair_step e f p = Some (q, n)" and "pair_ok p"
  shows "pair_ok q \<and> n + of_bool (fp_token p) = ff_counter f + of_bool (fp_token q) \<and> (n \<le> ff_counter f \<or> n \<le> ff_max f)"
proof (cases e)
  case (VSelect i c)
  then have "v3_select c f p = Some (q, n)" "fp_start p = FSelect" using assms(1) by (simp_all split: if_splits)
  then show ?thesis using select_ok assms(2) by blast
next
  case (VStart i ok)
  then show ?thesis using assms forward_ok [of ok p] by auto
next
  case (VCopier1 i)
  then show ?thesis using assms copier_ok [of p] by auto
next
  case (VCopier2 i)
  then show ?thesis using assms copier2_ok [of p] by auto
next
  case (VCleanup i)
  then show ?thesis using assms cleanup_ok [of "ff_counter f" p q n] by simp
qed (use assms in simp_all)

lemma v3_fwd_step_inv:
  assumes "v3_fwd_inv f" and "v3_fwd_step e f = Some g"
  shows "v3_fwd_inv g"
proof (cases "event_pair e")
  case (Some i)
  obtain q n where i: "i < length (ff_pairs f)" and s: "v3_pair_step e f (ff_pairs f ! i) = Some (q, n)"
    and g: "g = (set_pair i q f)\<lparr>ff_counter := n\<rparr>"
    using assms(2) Some by (auto simp: v3_fwd_step_def split: if_splits)
  have "pair_ok (ff_pairs f ! i)" using assms(1) i by (simp add: v3_fwd_inv_def list_all_length)
  note step = pair_step_ok [OF s this]
  have "n = tokens ((ff_pairs f)[i := q])"
    using step tokens_update [OF i, of q] assms(1) by (simp add: v3_fwd_inv_def)
  moreover have "list_all pair_ok ((ff_pairs f)[i := q])"
    using assms(1) step i by (auto simp: v3_fwd_inv_def list_all_length nth_list_update)
  ultimately show ?thesis using step assms(1) by (auto simp: v3_fwd_inv_def g set_pair_def)
next
  case None
  have c: "pair_ok (p\<lparr>fp_closed := True\<rparr>)" if "pair_ok p" for p
    using that by (cases "(fp_start p, p)" rule: start_ok.cases) (auto simp: pair_ok_def idle_copiers_def)
  have "tokens (map (\<lambda>p. if fp_tracked p then p\<lparr>fp_closed := True\<rparr> else p) ps) = tokens ps" for ps
    by (induction ps) (auto simp: tokens_def)
  moreover have "pair_ok new_pair" by (simp add: new_pair_def pair_ok_def idle_copiers_def)
  ultimately show ?thesis using assms None c
    by (cases e) (auto simp: v3_fwd_step_def v3_fwd_inv_def v3_fwd_Close_def tokens_def new_pair_def list.pred_map list_all_iff)
qed

interpretation v3_forwarder: invariant_machine v3_fwd_step v3_fwd_inv
  by unfold_locales (rule v3_fwd_step_inv)

section \<open>What is guaranteed\<close>

definition pair_finished :: "v3_pair \<Rightarrow> bool" where
  "pair_finished p \<longleftrightarrow> (\<exists>r. fp_start p = FRet r) \<and> fp_c1 p \<in> {CIdle, CRet} \<and> fp_c2 p \<in> {CIdle, CRet}"

lemma finished_clean:
  assumes "pair_ok p" and "pair_finished p"
  shows "\<not> fp_token p \<and> \<not> fp_tracked p \<and> (fp_admitted p \<longrightarrow> fp_closed p)"
proof (cases "fp_admitted p")
  case False
  then show ?thesis using assms by (auto simp: pair_ok_def)
next
  case True
  obtain r where r: "fp_start p = FRet r" "fp_c1 p \<in> {CIdle, CRet}" "fp_c2 p \<in> {CIdle, CRet}" using assms(2) by (auto simp: pair_finished_def)
  have "fp_once p = OFinished"
  proof (cases r)
    case None
    then have "fp_c1 p = CRet" using assms(1) r by (auto simp: pair_ok_def)
    then show ?thesis using assms(1) by (simp add: pair_ok_def)
  next
    case (Some e)
    then show ?thesis using assms(1) r True by (auto simp: pair_ok_def)
  qed
  then show ?thesis using assms(1) True by (simp add: pair_ok_def)
qed

lemma v3_fwd_step_max: "v3_fwd_step e f = Some g \<Longrightarrow> ff_max g = ff_max f"
  by (auto simp: v3_fwd_step_def set_pair_def v3_fwd_Close_def split: option.splits if_splits v3_fwd_event.splits)

lemma v3_fwd_exec_max: "exec v3_fwd_step es f = Some g \<Longrightarrow> ff_max g = ff_max f"
  by (induction es arbitrary: f) (auto dest: v3_fwd_step_max split: option.splits)

lemma v3_exec_inv:
  assumes "exec v3_fwd_step es (v3_New maxConn) = Some f"
  shows "v3_fwd_inv f \<and> ff_max f = maxConn"
proof -
  have "v3_fwd_inv (v3_New maxConn)" by (simp add: v3_New_def v3_fwd_inv_def tokens_def)
  then show ?thesis using v3_forwarder.exec_inv [OF _ assms] v3_fwd_exec_max [OF assms] by (simp add: v3_New_def)
qed

lemma inv_slots:
  assumes i: "v3_fwd_inv f"
  shows "v3_Count f = tokens (ff_pairs f) \<and> v3_Count f \<le> ff_max f
     \<and> (\<forall>p \<in> set (ff_pairs f). (pair_finished p \<longrightarrow> \<not> fp_token p \<and> \<not> fp_tracked p \<and> (fp_admitted p \<longrightarrow> fp_closed p))
          \<and> (fp_once p = ORelease \<longrightarrow> v3_cleanup (v3_Count f) p \<noteq> None))
     \<and> (list_all pair_finished (ff_pairs f) \<longrightarrow> v3_Count f = 0)"
proof -
  have ok: "pair_ok p" if "p \<in> set (ff_pairs f)" for p using i that by (simp add: v3_fwd_inv_def list_all_iff)
  have "v3_cleanup (v3_Count f) p \<noteq> None" if "p \<in> set (ff_pairs f)" "fp_once p = ORelease" for p
  proof -
    have "fp_token p" using ok [OF that(1)] that(2) by (auto simp: pair_ok_def)
    then have "tokens (ff_pairs f) \<noteq> 0" using that(1) by (auto simp: tokens_def filter_empty_conv)
    then show ?thesis using i that(2) by (simp add: v3_cleanup_def v3_Count_def v3_fwd_inv_def)
  qed
  moreover have "v3_Count f = 0" if "list_all pair_finished (ff_pairs f)"
    using that i ok finished_clean by (auto simp: v3_Count_def v3_fwd_inv_def tokens_def list_all_iff filter_empty_conv)
  ultimately show ?thesis using i ok finished_clean by (auto simp: v3_Count_def v3_fwd_inv_def)
qed

text \<open>(C17) The forwarder of version 3 keeps its limit and gives everything back.  In every interleaving of callers, copiers, clean-ups
  and shutdown, the counter is the number of pairs that hold a slot and never exceeds the limit; a pair whose goroutines have all
  returned holds no slot, is no longer tracked and, if it was ever admitted, has both connections closed; the release of a slot
  never blocks.\<close>

theorem v3_forwarder_slots:
  assumes "exec v3_fwd_step es (v3_New maxConn) = Some f"
  shows "v3_Count f = tokens (ff_pairs f) \<and> v3_Count f \<le> maxConn
     \<and> (\<forall>p \<in> set (ff_pairs f). (pair_finished p \<longrightarrow> \<not> fp_token p \<and> \<not> fp_tracked p \<and> (fp_admitted p \<longrightarrow> fp_closed p))
          \<and> (fp_once p = ORelease \<longrightarrow> v3_cleanup (v3_Count f) p \<noteq> None))
     \<and> (list_all pair_finished (ff_pairs f) \<longrightarrow> v3_Count f = 0)"
  using inv_slots v3_exec_inv [OF assms] by blast

text \<open>A limit of one: the second caller is refused; when one direction of the first pair ends, the pair is cleaned up.\<close>

theorem v3_forwarder_slots_witness:
  "case exec v3_fwd_step [VForward, VSelect 0 SelSend, VStart 0 True, VStart 0 True, VStart 0 True, VForward, VSelect 1 SelDefault,
       VCopier1 0, VCopier1 0, VCleanup 0, VCopier2 0, VCleanup 0, VCleanup 0, VCopier1 0, VCopier2 0] (v3_New 1) of
     None \<Rightarrow> False | Some f \<Rightarrow> v3_Count f = 0 \<and> map fp_start (ff_pairs f) = [FRet None, FRet (Some V3ErrConnLimit)]"
proof -
  obtain f where f: "exec v3_fwd_step [VForward, VSelect 0 SelSend, VStart 0 True, VStart 0 True, VStart 0 True, VForward, VSelect 1 SelDefault,
       VCopier1 0, VCopier1 0, VCleanup 0, VCopier2 0, VCleanup 0, VCleanup 0, VCopier1 0, VCopier2 0] (v3_New 1) = Some f"
    "list_all pair_finished (ff_pairs f)" "map fp_start (ff_pairs f) = [FRet None, FRet (Some V3ErrConnLimit)]"
    by (simp add: v3_fwd_step_def v3_New_def new_pair_def set_pair_def v3_select_def v3_Forward_def v3_copier_def v3_cleanup_def pair_finished_def)
  then show ?thesis using v3_forwarder_slots [OF f(1)] by simp
qed

end
