(* ===== verification/V3_Tunnel.thy ===== *)
theory V3_Tunnel
  imports V3_Proto Context_Mgr Session_Count
begin

text \<open>
  Tunnels and the server of version 3, \<^verbatim>\<open>v3/tunnel.go\<close> and \<^verbatim>\<open>v3/server.go\<close>.  Tunnels and yamux
  sessions live in stores with identifiers; the maps of the config are the shared ones of \<^verbatim>\<open>V3_Config\<close>.  Sections under a mutex
  are single steps.  The results of the network, of yamux and of the goroutine group are arguments; log messages, the event
  log and the time of the start are left out.  The context manager has the code of version 4 and is that of \<^verbatim>\<open>Context_Mgr\<close>.
\<close>

section \<open>State\<close>

type_synonym v3_sid = nat
type_synonym v3_tid = nat

record v3_session =
  ys_closed :: bool
  ys_streams :: nat

record v3_tunnel =
  tn_peerName :: string
  tn_l :: "nat option"
  tn_mux :: "(v3_sid \<times> string) list"   \<comment> \<open>a map from sessions to tags\<close>
  tn_stopped :: bool                      \<comment> \<open>closeSig is closed\<close>
  tn_redialSig :: bool
  tn_redialCount :: int
  tn_lastChanged :: go_time
  tn_running :: bool                      \<comment> \<open>its loop runs\<close>

record v3_server =
  vs_cfg :: v3_scalars
  vs_maps :: v3_maps
  vs_tls :: "(string, string) tls_config option"
  vs_muxListener :: "nat option"
  vs_apiListener :: "nat option"
  vs_tunnels :: "v3_tid dict"
  vs_store :: "v3_tid \<Rightarrow> v3_tunnel"
  vs_next :: v3_tid
  vs_mux :: "(v3_sid \<times> string) list"
  vs_sessions :: "v3_sid \<Rightarrow> v3_session"
  vs_numSessions :: u32
  vs_halfOpen :: u32
  vs_authorized :: u64
  vs_request :: u64
  vs_success :: u64
  vs_sockets :: "(nat \<times> string) list"   \<comment> \<open>listening sockets and their addresses\<close>
  vs_nextSocket :: nat
  vs_ctx :: context_mgr
  vs_groupClosed :: bool

definition v3_newTunnel :: "string \<Rightarrow> v3_tunnel" where
  "v3_newTunnel peerName =
     \<lparr>tn_peerName = peerName, tn_l = None, tn_mux = [], tn_stopped = False, tn_redialSig = False, tn_redialCount = 0,
      tn_lastChanged = 0, tn_running = False\<rparr>"

definition v3_upd :: "v3_tid \<Rightarrow> (v3_tunnel \<Rightarrow> v3_tunnel) \<Rightarrow> v3_server \<Rightarrow> v3_server" where
  "v3_upd t f s = s\<lparr>vs_store := (vs_store s)(t := f (vs_store s t))\<rparr>"

definition v3_getConfig :: "v3_server \<Rightarrow> v3_tid \<Rightarrow> v3_tunnel_cfg option" where
  "v3_getConfig s t = v3_GetTunnel (vs_cfg s, vs_maps s) (tn_peerName (vs_store s t))"

definition v3_closeSession :: "v3_sid \<Rightarrow> v3_server \<Rightarrow> v3_server" where
  "v3_closeSession m s = s\<lparr>vs_sessions := (vs_sessions s)(m := (vs_sessions s m)\<lparr>ys_closed := True\<rparr>)\<rparr>"

definition v3_closeSocket :: "nat \<Rightarrow> v3_server \<Rightarrow> v3_server" where
  "v3_closeSocket l s = s\<lparr>vs_sockets := filter (\<lambda>x. fst x \<noteq> l) (vs_sockets s)\<rparr>"

section \<open>Sessions of a tunnel\<close>

definition prune :: "v3_server \<Rightarrow> (v3_sid \<times> string) list \<Rightarrow> (v3_sid \<times> string) list" where
  "prune s m = filter (\<lambda>x. \<not> ys_closed (vs_sessions s (fst x))) m"

fun put_mux :: "v3_sid \<Rightarrow> string \<Rightarrow> (v3_sid \<times> string) list \<Rightarrow> (v3_sid \<times> string) list" where
  "put_mux k v [] = [(k, v)]"
| "put_mux k v ((j, u) # m) = (if j = k then (k, v) # m else (j, u) # put_mux k v m)"

text \<open>Storing a new map, with the difference in length added to the 32-bit counter of the server.\<close>

definition set_mux :: "v3_tid \<Rightarrow> (v3_sid \<times> string) list \<Rightarrow> v3_server \<Rightarrow> v3_server" where
  "set_mux t m s =
     (v3_upd t (\<lambda>x. x\<lparr>tn_mux := m\<rparr>) s)
       \<lparr>vs_numSessions := vs_numSessions s + to_u32 (int (length m) - int (length (tn_mux (vs_store s t))))\<rparr>"

definition v3_addMux :: "go_time \<Rightarrow> v3_tid \<Rightarrow> v3_sid \<Rightarrow> string \<Rightarrow> v3_server \<Rightarrow> v3_server" where
  "v3_addMux now t mux lbl s =
     v3_upd t (\<lambda>x. x\<lparr>tn_lastChanged := now\<rparr>) (set_mux t (put_mux mux lbl (prune s (tn_mux (vs_store s t)))) s)"

definition v3_delMux :: "go_time \<Rightarrow> v3_tid \<Rightarrow> v3_sid \<Rightarrow> v3_server \<Rightarrow> v3_server" where
  "v3_delMux now t mux s =
     v3_upd t (\<lambda>x. x\<lparr>tn_lastChanged := now, tn_redialSig := True\<rparr>)
       (set_mux t (prune s (filter (\<lambda>x. fst x \<noteq> mux) (tn_mux (vs_store s t)))) s)"

text \<open>The second loop of \<^verbatim>\<open>cleanMux\<close>: idle sessions are closed while more than one remains.\<close>

fun close_redundant :: "(v3_sid \<times> string) list \<Rightarrow> nat \<Rightarrow> v3_server \<Rightarrow> v3_server" where
  "close_redundant [] remain s = s"
| "close_redundant ((m, lbl) # ms) remain s =
     (if remain > 1 \<and> ys_streams (vs_sessions s m) = 0 then close_redundant ms (remain - 1) (v3_closeSession m s)
      else close_redundant ms remain s)"

definition v3_cleanMux :: "v3_tid \<Rightarrow> v3_server \<Rightarrow> v3_server" where
  "v3_cleanMux t s =
     (let m = prune s (tn_mux (vs_store s t))
      in set_mux t m (close_redundant m (length m) s))"

fun best_mux :: "v3_server \<Rightarrow> (v3_sid \<times> string) list \<Rightarrow> (v3_sid \<times> nat) option \<Rightarrow> v3_sid option" where
  "best_mux s [] best = map_option fst best"
| "best_mux s ((m, lbl) # ms) best =
     (if ys_closed (vs_sessions s m) then best_mux s ms best
      else case best of
             None \<Rightarrow> best_mux s ms (Some (m, ys_streams (vs_sessions s m)))
           | Some (b, n) \<Rightarrow> best_mux s ms (if ys_streams (vs_sessions s m) > n then Some (m, ys_streams (vs_sessions s m)) else best))"

definition v3_getMux :: "v3_server \<Rightarrow> v3_tid \<Rightarrow> v3_sid option" where
  "v3_getMux s t = best_mux s (tn_mux (vs_store s t)) None"

definition v3_NumSessions :: "v3_server \<Rightarrow> v3_tid \<Rightarrow> nat" where
  "v3_NumSessions s t = length (tn_mux (vs_store s t))"

record v3_tunnel_stats =
  ts_Name :: string
  ts_LastChanged :: go_time
  ts_NumSessions :: nat
  ts_NumStreams :: nat

definition v3_tunnel_Stats :: "v3_server \<Rightarrow> v3_tid \<Rightarrow> v3_tunnel_stats" where
  "v3_tunnel_Stats s t =
     (let m = prune s (tn_mux (vs_store s t))
      in \<lparr>ts_Name = tn_peerName (vs_store s t), ts_LastChanged = tn_lastChanged (vs_store s t), ts_NumSessions = length m,
          ts_NumStreams = sum_list (map (\<lambda>x. ys_streams (vs_sessions s (fst x))) m)\<rparr>)"

section \<open>Dialing\<close>

datatype v3_error =
    ErrNoDialAddress | V3DialInProgress | V3DialFailed | V3DeadlineFailed | V3HelloFailed v3_proto_error | V3MuxFailed | V3GroupClosed
  | V3OpenFailed | V3ListenFailed string | V3TLS v3_cfg_error

definition v3_findTunnel :: "v3_server \<Rightarrow> string \<Rightarrow> v3_tid option" where
  "v3_findTunnel s peerName = map_of (vs_tunnels s) peerName"

definition v3_server_addMux :: "v3_sid \<Rightarrow> string \<Rightarrow> v3_server \<Rightarrow> v3_server" where
  "v3_server_addMux mux lbl s = s\<lparr>vs_mux := put_mux mux lbl (vs_mux s)\<rparr>"

definition v3_server_delMux :: "v3_sid \<Rightarrow> v3_server \<Rightarrow> v3_server" where
  "v3_server_delMux mux s = s\<lparr>vs_mux := filter (\<lambda>x. fst x \<noteq> mux) (vs_mux s)\<rparr>"

text \<open>What becomes of a connection: it is used by a session, closed, or dropped while open, so that only the finalizer of the socket can close it.\<close>

datatype conn_fate = ConnOpen | ConnClosed | ConnDropped

text \<open>\<^verbatim>\<open>startMux\<close>: \<open>ok\<close> is whether yamux starts the session \<open>mux\<close>, \<open>go\<close> whether the goroutine that serves it starts.  Closing a
  session closes its connection.  The tunnel of the peer is looked up here; the goroutine registers the session with it, or
  with the server when there is none, and removes it when \<^verbatim>\<open>Serve\<close> returns.\<close>

definition v3_startMux ::
  "bool \<Rightarrow> bool \<Rightarrow> string \<Rightarrow> v3_sid \<Rightarrow> v3_server \<Rightarrow> (v3_error + v3_sid \<times> v3_tid option) \<times> conn_fate \<times> v3_server" where
  "v3_startMux ok go peerName mux s =
     (if \<not> ok then (Inl V3MuxFailed, ConnClosed, s)
      else
        let s = s\<lparr>vs_sessions := (vs_sessions s)(mux := \<lparr>ys_closed = False, ys_streams = 0\<rparr>)\<rparr>
        in if \<not> go then (Inl V3GroupClosed, ConnClosed, v3_closeSession mux s)
           else (Inr (mux, v3_findTunnel s peerName), ConnOpen, s))"

definition v3_serve_begin :: "go_time \<Rightarrow> v3_tid option \<Rightarrow> v3_sid \<Rightarrow> string \<Rightarrow> v3_server \<Rightarrow> v3_server" where
  "v3_serve_begin now peerTun mux lbl s =
     (case peerTun of Some t \<Rightarrow> v3_addMux now t mux lbl s | None \<Rightarrow> v3_server_addMux mux lbl s)"

definition v3_serve_end :: "go_time \<Rightarrow> v3_tid option \<Rightarrow> v3_sid \<Rightarrow> v3_server \<Rightarrow> v3_server" where
  "v3_serve_end now peerTun mux s = (case peerTun of Some t \<Rightarrow> v3_delMux now t mux s | None \<Rightarrow> v3_server_delMux mux s)"

record v3_dial_env =
  de_locked :: bool          \<comment> \<open>another dial of this tunnel is in progress\<close>
  de_connect :: bool
  de_deadline :: bool
  de_write :: bool           \<comment> \<open>the request is written\<close>
  de_input :: bytes          \<comment> \<open>what the peer sends\<close>
  de_mux :: bool
  de_go :: bool
  de_sid :: v3_sid

text \<open>A nil dereference panics.\<close>

datatype 'a v3_result = V3Ret 'a | V3Panic

text \<open>\<^verbatim>\<open>muxDial\<close>: the result and what became of a connection that was made.\<close>

definition v3_muxDial ::
  "v3_codec \<Rightarrow> v3_dial_env \<Rightarrow> v3_tid \<Rightarrow> v3_server
    \<Rightarrow> (v3_error + v3_sid \<times> v3_tid option) v3_result \<times> conn_fate option \<times> v3_server" where
  "v3_muxDial j e t s =
     (case v3_getConfig s t of
        None \<Rightarrow> (V3Panic, None, s)
      | Some tuncfg \<Rightarrow>
          if vt_MuxDial tuncfg = '''' then (V3Ret (Inl ErrNoDialAddress), None, s)
          else if de_locked e then (V3Ret (Inl V3DialInProgress), None, s)
          else if \<not> de_connect e then (V3Ret (Inl V3DialFailed), None, s)
          else if \<not> de_deadline e then (V3Ret (Inl V3DeadlineFailed), Some ConnDropped, s)
          else (case fst (v3_Roundtrip j (de_write e) (de_input e) (v3_client_req (vs_cfg s) tuncfg)) of
                  Inl x \<Rightarrow> (V3Ret (Inl (V3HelloFailed x)), Some ConnDropped, s)
                | Inr rsp \<Rightarrow> (case v3_startMux (de_mux e) (de_go e) (pm_PeerName rsp) (de_sid e) s of (r, fate, s) \<Rightarrow> (V3Ret r, Some fate, s))))"

text \<open>\<^verbatim>\<open>Dial\<close>: \<open>opens\<close> is whether the stream can be opened.\<close>

definition v3_Dial ::
  "v3_codec \<Rightarrow> v3_dial_env \<Rightarrow> bool \<Rightarrow> v3_tid \<Rightarrow> v3_server \<Rightarrow> (v3_error + v3_sid) v3_result \<times> conn_fate option \<times> v3_server" where
  "v3_Dial j e opens t s =
     (case v3_getMux s t of
        Some m \<Rightarrow> (V3Ret (if opens then Inr m else Inl V3OpenFailed), None, s)
      | None \<Rightarrow>
          (case v3_muxDial j e t s of
             (V3Panic, fate, s) \<Rightarrow> (V3Panic, fate, s)
           | (V3Ret (Inl x), fate, s) \<Rightarrow> (V3Ret (Inl x), fate, s)
           | (V3Ret (Inr (m, _)), fate, s) \<Rightarrow> (V3Ret (if opens then Inr m else Inl V3OpenFailed), fate, s)))"

definition v3_redial :: "v3_codec \<Rightarrow> v3_dial_env \<Rightarrow> v3_tid \<Rightarrow> v3_server \<Rightarrow> conn_fate option v3_result \<times> v3_server" where
  "v3_redial j e t s =
     (case withTimeout (v3_Timeout (vs_cfg s, vs_maps s)) (vs_ctx s) of
        (None, _) \<Rightarrow> (V3Ret None, s)
      | (Some c, m) \<Rightarrow>
          (case v3_muxDial j e t (s\<lparr>vs_ctx := m\<rparr>) of
             (V3Panic, _, s) \<Rightarrow> (V3Panic, s\<lparr>vs_ctx := cancel c (vs_ctx s)\<rparr>)
           | (V3Ret r, fate, s) \<Rightarrow>
               let s = s\<lparr>vs_ctx := cancel c (vs_ctx s)\<rparr>
               in (V3Ret fate,
                   if (case r of Inl x \<Rightarrow> x \<noteq> ErrNoDialAddress \<and> x \<noteq> V3DialInProgress | Inr _ \<Rightarrow> False)
                   then v3_upd t (\<lambda>x. x\<lparr>tn_redialCount := max (tn_redialCount x) (wrap64 (tn_redialCount x + 1))\<rparr>) s
                   else v3_upd t (\<lambda>x. x\<lparr>tn_redialCount := 0\<rparr>) s)))"

definition v3_maintenance :: "v3_codec \<Rightarrow> v3_dial_env \<Rightarrow> v3_tid \<Rightarrow> v3_server \<Rightarrow> conn_fate option v3_result \<times> v3_server" where
  "v3_maintenance j e t s =
     (let s = v3_cleanMux t s
      in if v3_NumSessions s t < 1
         then (case v3_getConfig s t of
                 None \<Rightarrow> if vf_NoRedial (vs_cfg s) then (V3Ret None, s) else (V3Panic, s)
               | Some tuncfg \<Rightarrow>
                   if \<not> vf_NoRedial (vs_cfg s) \<and> vt_MuxDial tuncfg \<noteq> '''' then v3_redial j e t s else (V3Ret None, s))
         else (V3Ret None, s))"

definition waitTimeConst :: "go_duration list" where
  "waitTimeConst = [200000000, 2 * second, 2 * second, 5 * second, 5 * second, 15 * second, 15 * second, 15 * second,
     60 * second, 60 * second, 120 * second, 300 * second]"

text \<open>\<open>r\<close> is the result of \<^verbatim>\<open>rand.Int63n\<close> for ten minutes.\<close>

definition v3_schedule :: "int \<Rightarrow> v3_server \<Rightarrow> v3_tid \<Rightarrow> go_duration v3_result" where
  "v3_schedule r s t =
     (if vf_NoRedial (vs_cfg s) then V3Ret (600 * second + r)
      else case v3_getConfig s t of
             None \<Rightarrow> V3Panic
           | Some tuncfg \<Rightarrow>
               let n = tn_redialCount (vs_store s t)
               in if vt_MuxDial tuncfg = '''' \<or> n < 1 then V3Ret (600 * second + r)
                  else V3Ret (if n - 1 < int (length waitTimeConst) then waitTimeConst ! nat (n - 1) else last waitTimeConst))"

section \<open>The life of a tunnel\<close>

text \<open>\<open>bind used a\<close> is whether \<^verbatim>\<open>net.Listen\<close> succeeds for an address while the process listens on others.\<close>

definition v3_Listen :: "(string set \<Rightarrow> string \<Rightarrow> bool) \<Rightarrow> string \<Rightarrow> v3_server \<Rightarrow> nat option \<times> v3_server" where
  "v3_Listen bind a s =
     (if bind (snd ` set (vs_sockets s)) a
      then (Some (vs_nextSocket s), s\<lparr>vs_sockets := vs_sockets s @ [(vs_nextSocket s, a)], vs_nextSocket := vs_nextSocket s + 1\<rparr>)
      else (None, s))"

text \<open>\<^verbatim>\<open>Start\<close>: the two flags say whether the group starts the goroutine of the listener and that of the loop.\<close>

definition v3_tunnel_Start ::
  "(string set \<Rightarrow> string \<Rightarrow> bool) \<Rightarrow> bool \<times> bool \<Rightarrow> v3_tid \<Rightarrow> v3_server \<Rightarrow> v3_error option v3_result \<times> v3_server" where
  "v3_tunnel_Start bind go t s =
     (let run = (\<lambda>s. if snd go then (V3Ret None, v3_upd t (\<lambda>x. x\<lparr>tn_running := True\<rparr>) s) else (V3Ret (Some V3GroupClosed), s))
      in case v3_getConfig s t of
           None \<Rightarrow> (V3Panic, s)
         | Some c \<Rightarrow>
             if vt_Listen c = '''' then run s
             else (case v3_Listen bind (vt_Listen c) s of
                     (None, s) \<Rightarrow> (V3Ret (Some (V3ListenFailed (vt_Listen c))), s)
                   | (Some l, s) \<Rightarrow>
                       if fst go then run (v3_upd t (\<lambda>x. x\<lparr>tn_l := Some l\<rparr>) s)
                       else (V3Ret (Some V3GroupClosed), v3_closeSocket l s)))"

text \<open>Closing the channel twice would panic.\<close>

definition v3_tunnel_Stop :: "v3_tid \<Rightarrow> v3_server \<Rightarrow> unit v3_result \<times> v3_server" where
  "v3_tunnel_Stop t s = (if tn_stopped (vs_store s t) then (V3Panic, s) else (V3Ret (), v3_upd t (\<lambda>x. x\<lparr>tn_stopped := True\<rparr>) s))"

text \<open>The deferred function of \<^verbatim>\<open>run\<close>: listener and sessions are closed and forgotten; the counter of sessions is not touched.\<close>

definition v3_run_exit :: "v3_tid \<Rightarrow> v3_server \<Rightarrow> v3_server" where
  "v3_run_exit t s =
     (let x = vs_store s t;
          s = (case tn_l x of None \<Rightarrow> s | Some l \<Rightarrow> v3_closeSocket l s);
          s = fold v3_closeSession (map fst (tn_mux x)) s
      in v3_upd t (\<lambda>x. x\<lparr>tn_l := None, tn_mux := [], tn_running := False\<rparr>) s)"

section \<open>The server\<close>

definition v3_NewServer ::
  "(string \<Rightarrow> string \<Rightarrow> string option) \<Rightarrow> (string \<Rightarrow> string list) \<Rightarrow> string \<Rightarrow> v3_file \<Rightarrow> v3_error + v3_server" where
  "v3_NewServer key_pair pem_certs sni cfg =
     (case v3_NewTLSConfig key_pair pem_certs sni (fst cfg) of
        Inl e \<Rightarrow> Inl (V3TLS e)
      | Inr tls \<Rightarrow>
          Inr \<lparr>vs_cfg = fst cfg, vs_maps = snd cfg, vs_tls = Some tls, vs_muxListener = None, vs_apiListener = None, vs_tunnels = [],
               vs_store = (\<lambda>_. v3_newTunnel []), vs_next = 0, vs_mux = [], vs_sessions = (\<lambda>_. \<lparr>ys_closed = False, ys_streams = 0\<rparr>),
               vs_numSessions = 0, vs_halfOpen = 0, vs_authorized = 0, vs_request = 0, vs_success = 0, vs_sockets = [], vs_nextSocket = 0,
               vs_ctx = new_context_mgr, vs_groupClosed = False\<rparr>)"

fun remove_tunnels :: "v3_maps \<Rightarrow> v3_tid dict \<Rightarrow> v3_server \<Rightarrow> v3_tid dict v3_result \<times> v3_server" where
  "remove_tunnels m [] s = (V3Ret [], s)"
| "remove_tunnels m ((name, t) # ts) s =
     (case map_of (vm_Peers m) name of
        Some c \<Rightarrow>
          if vt_Disabled c
          then (case v3_tunnel_Stop t s of (V3Panic, s) \<Rightarrow> (V3Panic, s) | (V3Ret _, s) \<Rightarrow> remove_tunnels m ts s)
          else (case remove_tunnels m ts s of (V3Ret ts, s) \<Rightarrow> (V3Ret ((name, t) # ts), s) | r \<Rightarrow> r)
      | None \<Rightarrow> (case v3_tunnel_Stop t s of (V3Panic, s) \<Rightarrow> (V3Panic, s) | (V3Ret _, s) \<Rightarrow> remove_tunnels m ts s))"

definition v3_insertTunnel :: "string \<Rightarrow> v3_server \<Rightarrow> v3_server" where
  "v3_insertTunnel name s =
     s\<lparr>vs_store := (vs_store s)(vs_next s := v3_newTunnel name), vs_next := vs_next s + 1, vs_tunnels := dict_put name (vs_next s) (vs_tunnels s)\<rparr>"

fun add_all_tunnels ::
  "(string set \<Rightarrow> string \<Rightarrow> bool) \<Rightarrow> bool \<times> bool \<Rightarrow> v3_tunnel_cfg dict \<Rightarrow> v3_server \<Rightarrow> v3_error option v3_result \<times> v3_server" where
  "add_all_tunnels bind go [] s = (V3Ret None, s)"
| "add_all_tunnels bind go ((name, c) # cs) s =
     (if vt_Disabled c then add_all_tunnels bind go cs s
      else
        (case v3_tunnel_Start bind go (vs_next s) (v3_insertTunnel name s) of
           (V3Ret None, s) \<Rightarrow> add_all_tunnels bind go cs s
         | r \<Rightarrow> r))"

definition v3_loadTunnels ::
  "(string set \<Rightarrow> string \<Rightarrow> bool) \<Rightarrow> bool \<times> bool \<Rightarrow> v3_maps \<Rightarrow> v3_server \<Rightarrow> v3_error option v3_result \<times> v3_server" where
  "v3_loadTunnels bind go m s =
     (case remove_tunnels m (vs_tunnels s) s of
        (V3Panic, s) \<Rightarrow> (V3Panic, s)
      | (V3Ret ts, s) \<Rightarrow> add_all_tunnels bind go (vm_Peers m) (s\<lparr>vs_tunnels := ts\<rparr>))"

text \<open>\<^verbatim>\<open>LoadConfig\<close>: the error of \<^verbatim>\<open>loadTunnels\<close> is dropped, and the config changes after the tunnels were started with the old
  one.  The maps of the old config are as they are after the new one was loaded: when both share them they are equal.\<close>

definition v3_LoadConfig ::
  "(string \<Rightarrow> string \<Rightarrow> string option) \<Rightarrow> (string \<Rightarrow> string list) \<Rightarrow> string \<Rightarrow> (string set \<Rightarrow> string \<Rightarrow> bool) \<Rightarrow> bool \<times> bool \<Rightarrow> v3_file
    \<Rightarrow> v3_server \<Rightarrow> v3_error option v3_result \<times> v3_server" where
  "v3_LoadConfig key_pair pem_certs sni bind go cfg s =
     (case v3_NewTLSConfig key_pair pem_certs sni (fst cfg) of
        Inl e \<Rightarrow> (V3Ret (Some (V3TLS e)), s)
      | Inr tls \<Rightarrow>
          (case v3_loadTunnels bind go (snd cfg) s of
             (V3Panic, s) \<Rightarrow> (V3Panic, s)
           | (V3Ret _, s) \<Rightarrow> (V3Ret None, s\<lparr>vs_cfg := fst cfg, vs_maps := snd cfg, vs_tls := Some tls\<rparr>)))"

text \<open>\<^verbatim>\<open>Start\<close>: the first flag of \<open>go\<close> is for the goroutines of the listeners.\<close>

definition v3_Start :: "(string set \<Rightarrow> string \<Rightarrow> bool) \<Rightarrow> bool \<times> bool \<Rightarrow> v3_server \<Rightarrow> v3_error option v3_result \<times> v3_server" where
  "v3_Start bind go s =
     (let (r1, s) =
            (if vf_MuxListen (vs_cfg s) = '''' then (None, s)
             else case v3_Listen bind (vf_MuxListen (vs_cfg s)) s of
                    (None, s) \<Rightarrow> (Some (V3ListenFailed (vf_MuxListen (vs_cfg s))), s)
                  | (Some l, s) \<Rightarrow> if fst go then (None, s\<lparr>vs_muxListener := Some l\<rparr>) else (Some V3GroupClosed, v3_closeSocket l s))
      in case r1 of
           Some e \<Rightarrow> (V3Ret (Some e), s)
         | None \<Rightarrow>
             let (r2, s) =
                   (if vf_HTTPListen (vs_cfg s) = '''' then (None, s)
                    else case v3_Listen bind (vf_HTTPListen (vs_cfg s)) s of
                           (None, s) \<Rightarrow> (Some (V3ListenFailed (vf_HTTPListen (vs_cfg s))), s)
                         | (Some l, s) \<Rightarrow> if fst go then (None, s\<lparr>vs_apiListener := Some l\<rparr>) else (Some V3GroupClosed, v3_closeSocket l s))
             in (case r2 of Some e \<Rightarrow> (V3Ret (Some e), s) | None \<Rightarrow> v3_loadTunnels bind go (vs_maps s) s))"

text \<open>\<^verbatim>\<open>Shutdown\<close> up to the wait; closing the group makes every tunnel loop return.  The forwarder, which it closes too, is that of
  \<^verbatim>\<open>V3_Forwarder\<close>.\<close>

definition v3_Shutdown :: "v3_server \<Rightarrow> v3_server" where
  "v3_Shutdown s =
     (let s = (case vs_muxListener s of None \<Rightarrow> s | Some l \<Rightarrow> (v3_closeSocket l s)\<lparr>vs_muxListener := None\<rparr>);
          s = (case vs_apiListener s of None \<Rightarrow> s | Some l \<Rightarrow> (v3_closeSocket l s)\<lparr>vs_apiListener := None\<rparr>);
          s = s\<lparr>vs_ctx := close (vs_ctx s), vs_groupClosed := True\<rparr>;
          s = fold v3_closeSession (map fst (vs_mux s)) s
      in s\<lparr>vs_mux := []\<rparr>)"

record v3_server_stats =
  ss_NumSessions :: nat
  ss_NumStreams :: nat
  ss_Rx :: u64
  ss_Tx :: u64
  ss_Accepted :: u64
  ss_Served :: u64
  ss_Authorized :: u64
  ss_ReqTotal :: u64
  ss_ReqSuccess :: u64
  ss_tunnels :: "v3_tunnel_stats list"

text \<open>The first argument are the counters of the listener, the second those of the flow meter.\<close>

definition v3_server_Stats :: "u64 \<times> u64 \<Rightarrow> u64 \<times> u64 \<Rightarrow> v3_server \<Rightarrow> v3_server_stats" where
  "v3_server_Stats lstats flow s =
     (let ts = map (\<lambda>x. v3_tunnel_Stats s (snd x)) (vs_tunnels s);
          (accepted, served) = (if vs_muxListener s \<noteq> None then lstats else (0, 0))
      in \<lparr>ss_NumSessions = sum_list (map ts_NumSessions ts), ss_NumStreams = sum_list (map ts_NumStreams ts),
          ss_Rx = fst flow, ss_Tx = snd flow, ss_Accepted = accepted, ss_Served = served,
          ss_Authorized = vs_authorized s, ss_ReqTotal = vs_request s, ss_ReqSuccess = vs_success s, ss_tunnels = ts\<rparr>)"

section \<open>Which session a dial uses\<close>

lemma best_mux_Some:
  assumes "best_mux s ms (Some (b, n)) = r" and "n = ys_streams (vs_sessions s b)"
  shows "\<exists>m. r = Some m \<and> (m = b \<or> m \<in> fst ` set (prune s ms)) \<and> n \<le> ys_streams (vs_sessions s m)
     \<and> (\<forall>x \<in> set (prune s ms). ys_streams (vs_sessions s (fst x)) \<le> ys_streams (vs_sessions s m))"
  using assms
proof (induction ms arbitrary: b n)
  case (Cons x ms)
  obtain k l where x: "x = (k, l)" by (cases x)
  show ?case
  proof (cases "ys_closed (vs_sessions s k)")
    case True
    then show ?thesis using Cons.IH [of b n] Cons.prems by (simp add: x prune_def)
  next
    case False
    show ?thesis
    proof (cases "n < ys_streams (vs_sessions s k)")
      case True
      then show ?thesis using Cons.IH [of k "ys_streams (vs_sessions s k)"] Cons.prems False by (force simp: x prune_def)
    next
      case le: False
      then show ?thesis using Cons.IH [of b n] Cons.prems False by (force simp: x prune_def)
    qed
  qed
qed (auto simp: prune_def)

lemma best_mux_None:
  "best_mux s ms None = (case prune s ms of [] \<Rightarrow> None | x # _ \<Rightarrow> best_mux s ms (Some (fst x, ys_streams (vs_sessions s (fst x)))))"
  by (induction ms) (auto simp: prune_def split: list.split)

lemma v3_getMux_spec:
  "(v3_getMux s t = None \<longleftrightarrow> prune s (tn_mux (vs_store s t)) = [])
   \<and> (\<forall>m. v3_getMux s t = Some m \<longrightarrow> m \<in> fst ` set (prune s (tn_mux (vs_store s t)))
        \<and> (\<forall>x \<in> set (prune s (tn_mux (vs_store s t))). ys_streams (vs_sessions s (fst x)) \<le> ys_streams (vs_sessions s m)))"
proof (cases "prune s (tn_mux (vs_store s t))")
  case Nil
  then show ?thesis by (simp add: v3_getMux_def best_mux_None)
next
  case (Cons x xs)
  then show ?thesis using best_mux_Some [of s "tn_mux (vs_store s t)" "fst x" "ys_streams (vs_sessions s (fst x))"]
    by (force simp: v3_getMux_def best_mux_None)
qed

section \<open>Effects on the sessions of a tunnel\<close>

definition v3_registered :: "v3_server \<Rightarrow> nat" where
  "v3_registered s = (\<Sum>t < vs_next s. length (tn_mux (vs_store s t)))"

interpretation v3_sessions: counted_sessions vs_next "\<lambda>s t. tn_mux (vs_store s t)" vs_numSessions set_mux
  by unfold_locales (auto simp: set_mux_def v3_upd_def)

lemma v3_registered_eq: "v3_registered = v3_sessions.registered"
  by (simp add: fun_eq_iff v3_registered_def v3_sessions.registered_def)

end
