(* ===== verification/V3_Handler.thy ===== *)
theory V3_Handler
  imports V3_Tunnel
begin

text \<open>
  The handlers of version 3, \<^verbatim>\<open>v3/handler.go\<close>, and the accept loop of \<^verbatim>\<open>v3/server.go\<close> that calls them.  A handler returns what became of
  the connection it was given and of the one it made; the results of the network, of the forwarder and of yamux are arguments.
\<close>

section \<open>Incoming tunnel connections\<close>

record v3_accept_env =
  ae_deadline :: bool
  ae_input :: bytes
  ae_write :: bool
  ae_mux :: bool
  ae_go :: bool
  ae_sid :: v3_sid

definition v3_halfOpen_add :: "u32 \<Rightarrow> v3_server \<Rightarrow> v3_server" where
  "v3_halfOpen_add n s = s\<lparr>vs_halfOpen := vs_halfOpen s + n\<rparr>"

definition v3_Stats4Listener :: "v3_server \<Rightarrow> u32 \<times> u32" where
  "v3_Stats4Listener s = (vs_numSessions s, vs_halfOpen s)"

text \<open>\<^verbatim>\<open>TLSHandler.Serve\<close> between the two changes of \<^verbatim>\<open>halfOpen\<close>; with the result of \<^verbatim>\<open>startMux\<close>.\<close>

definition v3_TLS_body ::
  "v3_codec \<Rightarrow> v3_accept_env \<Rightarrow> v3_server \<Rightarrow> (v3_sid \<times> v3_tid option) option \<times> conn_fate \<times> v3_server" where
  "v3_TLS_body j e s =
     (if \<not> ae_deadline e then (None, ConnDropped, s)
      else case fst (v3_Read j (ae_input e)) of
             Inl _ \<Rightarrow> (None, ConnDropped, s)
           | Inr req \<Rightarrow>
               if pm_Msg req \<noteq> MsgClientHello then (None, ConnDropped, s)
               else (case fst (v3_Write j (ae_write e) (v3_server_rsp (vs_cfg s, vs_maps s) req)) of
                       Some _ \<Rightarrow> (None, ConnDropped, s)
                     | None \<Rightarrow>
                         (case v3_startMux (ae_mux e) (ae_go e) (pm_PeerName req) (ae_sid e) (s\<lparr>vs_authorized := vs_authorized s + 1\<rparr>) of
                            (Inl _, fate, s) \<Rightarrow> (None, fate, s)
                          | (Inr m, fate, s) \<Rightarrow> (Some m, fate, s))))"

text \<open>\<^verbatim>\<open>^uint32(0)\<close> is -1.\<close>

definition v3_TLS_Serve ::
  "v3_codec \<Rightarrow> v3_accept_env \<Rightarrow> v3_server \<Rightarrow> (v3_sid \<times> v3_tid option) option \<times> conn_fate \<times> v3_server" where
  "v3_TLS_Serve j e s =
     (case v3_TLS_body j e (v3_halfOpen_add 1 s) of (m, fate, s) \<Rightarrow> (m, fate, v3_halfOpen_add (- 1) s))"

section \<open>Streams and local connections\<close>

text \<open>\<^verbatim>\<open>ForwardHandler.Serve\<close> for a stream of a session whose peer asked for \<open>service\<close>: \<open>dials\<close> is whether a service address can be
  dialed, \<open>fwd\<close> whether the forwarder takes the pair.  The first fate is that of the stream, the second that of the dialed connection.\<close>

definition v3_Forward_Serve :: "(string \<Rightarrow> bool) \<Rightarrow> bool \<Rightarrow> string \<Rightarrow> v3_server \<Rightarrow> conn_fate \<times> (string \<times> conn_fate) option \<times> v3_server" where
  "v3_Forward_Serve dials fwd service s =
     (let s = s\<lparr>vs_request := vs_request s + 1\<rparr>
      in case map_of (vm_Services (vs_maps s)) service of
           None \<Rightarrow> (ConnClosed, None, s)
         | Some addr \<Rightarrow>
             if \<not> dials addr then (ConnClosed, None, s)
             else if \<not> fwd then (ConnClosed, Some (addr, ConnClosed), s)
             else (ConnOpen, Some (addr, ConnOpen), s\<lparr>vs_success := vs_success s + 1\<rparr>))"

text \<open>\<^verbatim>\<open>TunnelHandler.Serve\<close>: the fates of the accepted connection, of the stream and of a connection dialed for a new session.\<close>

definition v3_Tunnel_Serve ::
  "v3_codec \<Rightarrow> v3_dial_env \<Rightarrow> bool \<Rightarrow> bool \<Rightarrow> v3_tid \<Rightarrow> v3_server
    \<Rightarrow> (conn_fate \<times> (v3_sid \<times> conn_fate) option) v3_result \<times> conn_fate option \<times> v3_server" where
  "v3_Tunnel_Serve j e opens fwd t s =
     (case v3_Dial j e opens t s of
        (V3Panic, fate, s) \<Rightarrow> (V3Panic, fate, s)
      | (V3Ret (Inl _), fate, s) \<Rightarrow> (V3Ret (ConnClosed, None), fate, s)
      | (V3Ret (Inr m), fate, s) \<Rightarrow>
          if \<not> fwd then (V3Ret (ConnClosed, Some (m, ConnClosed)), fate, s)
          else (V3Ret (ConnOpen, Some (m, ConnOpen)), fate, s))"

definition v3_Empty_Serve :: "v3_server \<Rightarrow> conn_fate \<times> v3_server" where
  "v3_Empty_Serve s = (ConnClosed, s)"

section \<open>The accept loop\<close>

text \<open>\<^verbatim>\<open>serveOne\<close>: a handler as a function of the state, \<^const>\<open>V3Panic\<close> when it panics, which is recovered.\<close>

definition v3_serveOne :: "(v3_server \<Rightarrow> conn_fate v3_result \<times> v3_server) \<Rightarrow> v3_server \<Rightarrow> conn_fate \<times> v3_server" where
  "v3_serveOne handler s =
     (case withTimeout (v3_Timeout (vs_cfg s, vs_maps s)) (vs_ctx s) of
        (None, _) \<Rightarrow> (ConnDropped, s)
      | (Some c, m) \<Rightarrow>
          (case handler (s\<lparr>vs_ctx := m\<rparr>) of
             (r, s) \<Rightarrow> (case r of V3Ret fate \<Rightarrow> fate | V3Panic \<Rightarrow> ConnDropped, s\<lparr>vs_ctx := cancel c (vs_ctx s)\<rparr>)))"

datatype v3_accept = Accepted nat | AcceptEOF | AcceptClosed | AcceptShutdown | AcceptTimeout | AcceptOther

text \<open>What the loop does: handing a connection to a goroutine, dropping it when the group does not start one, sleeping, logging.\<close>

datatype v3_serve_act = ServeGo nat | ServeDrop nat | ServeSleep go_duration | ServeLogError

text \<open>\<open>go\<close> is whether the group starts the goroutine of a connection.  The results of \<^verbatim>\<open>Accept\<close> come one after the other; the
  second result is whether the loop has returned.\<close>

fun v3_Serve :: "(nat \<Rightarrow> bool) \<Rightarrow> v3_accept list \<Rightarrow> v3_serve_act list \<times> bool" where
  "v3_Serve go [] = ([], False)"
| "v3_Serve go (a # as) =
     (case a of
        Accepted c \<Rightarrow>
          let (acts, done) = v3_Serve go as
          in ((if go c then [ServeGo c] else [ServeDrop c, ServeLogError]) @ acts, done)
      | AcceptEOF \<Rightarrow> ([], True)
      | AcceptClosed \<Rightarrow> ([], True)
      | AcceptShutdown \<Rightarrow> ([], True)
      | AcceptTimeout \<Rightarrow> ([ServeSleep 500000000, ServeLogError], True)
      | AcceptOther \<Rightarrow> ([ServeLogError], True))"


section \<open>What becomes of the connections\<close>

lemma startMux_counters:
  "v3_startMux ok go p m s = (r, fate, s') \<Longrightarrow> vs_halfOpen s' = vs_halfOpen s \<and> vs_authorized s' = vs_authorized s
     \<and> fate \<noteq> ConnDropped \<and> (case r of Inl _ \<Rightarrow> fate = ConnClosed | Inr _ \<Rightarrow> fate = ConnOpen)"
  by (auto simp: v3_startMux_def v3_closeSession_def Let_def split: if_splits)

text \<open>A connection whose hello is complete: it was read, asks for a session, and the reply was written.\<close>

definition v3_hello_ok :: "v3_codec \<Rightarrow> v3_accept_env \<Rightarrow> v3_server \<Rightarrow> bool" where
  "v3_hello_ok j e s \<longleftrightarrow> ae_deadline e \<and> (case fst (v3_Read j (ae_input e)) of
       Inl _ \<Rightarrow> False
     | Inr req \<Rightarrow> pm_Msg req = MsgClientHello \<and> fst (v3_Write j (ae_write e) (v3_server_rsp (vs_cfg s, vs_maps s) req)) = None)"

lemma TLS_body_outcome:
  assumes "v3_TLS_body j e s = (m, fate, s')"
  shows "vs_halfOpen s' = vs_halfOpen s \<and> vs_authorized s' = vs_authorized s + (if v3_hello_ok j e s then 1 else 0)
     \<and> (fate = ConnDropped \<longleftrightarrow> \<not> v3_hello_ok j e s) \<and> (m \<noteq> None \<longleftrightarrow> fate = ConnOpen)"
proof (cases "v3_hello_ok j e s")
  case False
  then show ?thesis using assms by (auto simp: v3_TLS_body_def v3_hello_ok_def split: if_splits sum.splits option.splits)
next
  case True
  then obtain req where req: "ae_deadline e" "fst (v3_Read j (ae_input e)) = Inr req" "pm_Msg req = MsgClientHello"
      "fst (v3_Write j (ae_write e) (v3_server_rsp (vs_cfg s, vs_maps s) req)) = None"
    by (auto simp: v3_hello_ok_def split: sum.splits)
  obtain r f u where st: "v3_startMux (ae_mux e) (ae_go e) (pm_PeerName req) (ae_sid e) (s\<lparr>vs_authorized := vs_authorized s + 1\<rparr>) = (r, f, u)"
    using prod_cases3 by blast
  show ?thesis using assms True startMux_counters [OF st] by (cases r) (auto simp: v3_TLS_body_def req st)
qed

text \<open>The handler of incoming tunnel connections of version 3: the number of half-open connections is what it was; a complete
  hello is counted as authorized and its connection ends up in a session or closed; every connection that does not get that
  far is returned from without being closed.\<close>

theorem v3_accept_outcome:
  assumes "v3_TLS_Serve j e s = (m, fate, s')"
  shows "vs_halfOpen s' = vs_halfOpen s \<and> vs_authorized s' = vs_authorized s + (if v3_hello_ok j e s then 1 else 0)
     \<and> (fate = ConnDropped \<longleftrightarrow> \<not> v3_hello_ok j e s) \<and> (m \<noteq> None \<longleftrightarrow> fate = ConnOpen)"
proof -
  obtain u where b: "v3_TLS_body j e (v3_halfOpen_add 1 s) = (m, fate, u)" "s' = v3_halfOpen_add (- 1) u"
    using assms by (auto simp: v3_TLS_Serve_def split: prod.splits)
  have "v3_hello_ok j e (v3_halfOpen_add 1 s) = v3_hello_ok j e s" by (simp add: v3_hello_ok_def v3_halfOpen_add_def split: sum.split)
  then show ?thesis using TLS_body_outcome [OF b(1)] unfolding b(2) by (auto simp: v3_halfOpen_add_def)
qed

text \<open>A client that sends nothing.\<close>

theorem v3_accept_outcome_witness:
  "\<exists>fate s'. v3_TLS_Serve \<lparr>vc_Marshal = \<lambda>_. None, vc_Unmarshal = \<lambda>_. None, vc_parseMedia = \<lambda>_. None\<rparr>
       \<lparr>ae_deadline = True, ae_input = [], ae_write = True, ae_mux = True, ae_go = True, ae_sid = 0\<rparr>
       (case v3_NewServer (\<lambda>_ _. None) (\<lambda>_. []) [] (v3_Default, v3_empty_maps) of Inr s \<Rightarrow> s) = (None, fate, s')
     \<and> fate = ConnDropped \<and> vs_authorized s' = 0"
proof -
  let ?j = "\<lparr>vc_Marshal = \<lambda>_. None, vc_Unmarshal = \<lambda>_. None, vc_parseMedia = \<lambda>_. None\<rparr> :: v3_codec"
  let ?e = "\<lparr>ae_deadline = True, ae_input = [], ae_write = True, ae_mux = True, ae_go = True, ae_sid = 0\<rparr>"
  let ?s = "case v3_NewServer (\<lambda>_ _. None) (\<lambda>_. []) [] (v3_Default, v3_empty_maps) of Inr s \<Rightarrow> s"
  obtain m fate s' where r: "v3_TLS_Serve ?j ?e ?s = (m, fate, s')" using prod_cases3 by blast
  have "\<not> v3_hello_ok ?j ?e ?s" by (simp add: v3_hello_ok_def v3_Read_def v3_recvmsg_def ReadFull_def)
  moreover have "vs_authorized ?s = 0" by code_simp
  ultimately show ?thesis using v3_accept_outcome [OF r] r by (cases m) auto
qed

text \<open>A stream is never dropped: it is forwarded and counted as a success, or closed with what was dialed for it.\<close>

lemma v3_Forward_outcome:
  assumes "v3_Forward_Serve dials fwd service s = (fate, d, s')"
  shows "vs_request s' = vs_request s + 1 \<and> vs_success s' = vs_success s + (if fate = ConnOpen then 1 else 0)
     \<and> fate \<noteq> ConnDropped \<and> (\<forall>a f. d = Some (a, f) \<longrightarrow> f = fate \<and> map_of (vm_Services (vs_maps s)) service = Some a) \<and> (d = None \<longrightarrow> fate = ConnClosed)"
  using assms by (auto simp: v3_Forward_Serve_def Let_def split: option.splits if_splits)

text \<open>The accept loop of version 3 ends at the first error, a timeout included: after the pause it returns instead of going on.  The
  connections accepted before are each handed to a goroutine or dropped, in order.\<close>

theorem v3_Serve_ends_at_error:
  "v3_Serve go as =
     (let cs = takeWhile (\<lambda>a. case a of Accepted _ \<Rightarrow> True | _ \<Rightarrow> False) as;
          acts = concat (map (\<lambda>a. case a of Accepted c \<Rightarrow> if go c then [ServeGo c] else [ServeDrop c, ServeLogError] | _ \<Rightarrow> []) cs)
      in case drop (length cs) as of
           [] \<Rightarrow> (acts, False)
         | AcceptTimeout # _ \<Rightarrow> (acts @ [ServeSleep 500000000, ServeLogError], True)
         | AcceptOther # _ \<Rightarrow> (acts @ [ServeLogError], True)
         | _ \<Rightarrow> (acts, True))"
  by (induction as) (auto simp: Let_def split: v3_accept.split list.split)

end
