(* ===== verification/V3_Server.thy ===== *)
theory V3_Server
  imports V3_Handler
begin

text \<open>
  The server of version 3 as a whole: its steps in any order, the counter of sessions that the limit on incoming sessions
  reads, and what a reload does to the tunnels.
\<close>

section \<open>Steps\<close>

text \<open>\<open>v3_step lost s s'\<close>: the number is how many sessions the step forgets without counting them.\<close>

inductive v3_step :: "nat \<Rightarrow> v3_server \<Rightarrow> v3_server \<Rightarrow> bool" where
  Start: "v3_Start bind go s = (r, s') \<Longrightarrow> v3_step 0 s s'"
| Load: "v3_LoadConfig kp pc sni bind go cfg s = (r, s') \<Longrightarrow> v3_step 0 s s'"
| Maps: "v3_step 0 s (s\<lparr>vs_maps := m\<rparr>)"   \<comment> \<open>a config is loaded into the shared maps\<close>
| Shutdown: "v3_step 0 s (v3_Shutdown s)"
| Accept: "v3_TLS_Serve j a s = (m, fate, s') \<Longrightarrow> v3_step 0 s s'"
| Stream: "v3_Forward_Serve dials fwd service s = (fate, d, s') \<Longrightarrow> v3_step 0 s s'"
| Local: "t < vs_next s \<Longrightarrow> v3_Tunnel_Serve j e opens fwd t s = (r, fate, s') \<Longrightarrow> v3_step 0 s s'"
| Begin: "(\<And>t. peerTun = Some t \<Longrightarrow> t < vs_next s) \<Longrightarrow> v3_step 0 s (v3_serve_begin now peerTun mux lbl s)"
| End: "(\<And>t. peerTun = Some t \<Longrightarrow> t < vs_next s) \<Longrightarrow> v3_step 0 s (v3_serve_end now peerTun mux s)"
| Closed: "v3_step 0 s (v3_closeSession mux s)"   \<comment> \<open>by the peer, or after a failure\<close>
| Streams: "v3_step 0 s (s\<lparr>vs_sessions := (vs_sessions s)(mux := (vs_sessions s mux)\<lparr>ys_streams := n\<rparr>)\<rparr>)"
| Loop: "t < vs_next s \<Longrightarrow> tn_running (vs_store s t) \<Longrightarrow> v3_maintenance j e t s = (r, s') \<Longrightarrow> v3_step 0 s s'"
| Wake: "v3_step 0 s (v3_upd t (\<lambda>x. x\<lparr>tn_redialSig := False\<rparr>) s)"
| Exit: "t < vs_next s \<Longrightarrow> tn_running (vs_store s t) \<Longrightarrow> tn_stopped (vs_store s t) \<or> vs_groupClosed s
    \<Longrightarrow> v3_step (length (tn_mux (vs_store s t))) s (v3_run_exit t s)"

inductive v3_run :: "nat \<Rightarrow> v3_server \<Rightarrow> v3_server \<Rightarrow> bool" where
  refl: "v3_run 0 s s"
| trans: "v3_run k s u \<Longrightarrow> v3_step n u s' \<Longrightarrow> v3_run (k + n) s s'"

section \<open>Frames\<close>

lemmas v3_frame_trans = v3_sessions.frame_trans
lemmas v3_frame_same = v3_sessions.frame_same
lemmas v3_frame_counts = v3_sessions.frame_counts

lemma v3_frame_upd: "(\<And>x. tn_mux (f x) = tn_mux x) \<Longrightarrow> v3_sessions.frame s (v3_upd t f s)"
  by (rule v3_frame_same) (simp_all add: v3_upd_def)

lemma v3_frame_simps [simp]:
  "vs_next (v3_upd t f s) = vs_next s" "vs_next (v3_closeSession m s) = vs_next s" "vs_next (v3_closeSocket l s) = vs_next s"
  "vs_numSessions (v3_upd t f s) = vs_numSessions s" "vs_numSessions (v3_closeSession m s) = vs_numSessions s"
  "vs_numSessions (v3_closeSocket l s) = vs_numSessions s" "vs_store (v3_closeSession m s) = vs_store s" "vs_store (v3_closeSocket l s) = vs_store s"
  by (simp_all add: v3_upd_def v3_closeSession_def v3_closeSocket_def)

lemma frame_closeSession: "v3_sessions.frame s (v3_closeSession m s)"
  by (rule v3_frame_same) simp_all

lemma frame_closeSessions: "v3_sessions.frame s (fold v3_closeSession ms s)"
proof (induction ms arbitrary: s)
  case (Cons m ms)
  show ?case using v3_frame_trans [OF frame_closeSession Cons.IH] by simp
qed auto

lemma frame_close_redundant: "v3_sessions.frame s (close_redundant ms n s) \<and> vs_store (close_redundant ms n s) = vs_store s"
proof (induction ms n s rule: close_redundant.induct)
  case (2 m lbl ms remain s)
  then show ?case using v3_frame_trans [OF frame_closeSession [of s m]] by (simp split: if_splits)
qed auto

lemma frame_startMux: "v3_startMux ok go p m s = (r, fate, s') \<Longrightarrow> v3_sessions.frame s s'"
  by (auto simp: v3_startMux_def Let_def split: if_splits intro: v3_frame_same)

lemma frame_muxDial: "v3_muxDial j e t s = (r, fate, s') \<Longrightarrow> v3_sessions.frame s s'"
  by (auto simp: v3_muxDial_def split: option.splits if_splits sum.splits prod.splits dest: frame_startMux)

lemma frame_Dial: "v3_Dial j e opens t s = (r, fate, s') \<Longrightarrow> v3_sessions.frame s s'"
  by (auto simp: v3_Dial_def split: option.splits prod.splits v3_result.splits sum.splits dest: frame_muxDial)

lemma frame_redial:
  assumes "v3_redial j e t s = (r, s')"
  shows "v3_sessions.frame s s'"
proof (cases "fst (withTimeout (v3_Timeout (vs_cfg s, vs_maps s)) (vs_ctx s))")
  case None
  then show ?thesis using assms by (auto simp: v3_redial_def split: prod.splits)
next
  case (Some c)
  then obtain m where w: "withTimeout (v3_Timeout (vs_cfg s, vs_maps s)) (vs_ctx s) = (Some c, m)" by (metis prod.collapse)
  obtain q fate u where d: "v3_muxDial j e t (s\<lparr>vs_ctx := m\<rparr>) = (q, fate, u)" using prod_cases3 by blast
  have "v3_sessions.frame s u" by (rule v3_frame_trans [OF _ frame_muxDial [OF d]]) (simp add: v3_frame_same)
  moreover have "v3_sessions.frame u s'" using assms
    by (cases q) (auto simp: v3_redial_def w d Let_def v3_upd_def intro!: v3_frame_same split: if_splits)
  ultimately show ?thesis by (rule v3_frame_trans)
qed

lemma frame_Listen: "v3_Listen bind a s = (r, s') \<Longrightarrow> v3_sessions.frame s s' \<and> vs_next s' = vs_next s"
  by (auto simp: v3_Listen_def intro: v3_frame_same split: if_splits)


lemma frame_tunnel_Start:
  assumes "v3_tunnel_Start bind go t s = (r, s')"
  shows "v3_sessions.frame s s' \<and> vs_next s' = vs_next s"
  using assms
  by (auto simp: v3_tunnel_Start_def v3_Listen_def v3_upd_def Let_def split: option.splits if_splits intro!: v3_frame_same)

lemma frame_Stop: "v3_tunnel_Stop t s = (r, s') \<Longrightarrow> v3_sessions.frame s s' \<and> vs_next s' = vs_next s"
  by (auto simp: v3_tunnel_Stop_def v3_upd_def split: if_splits intro!: v3_frame_same)

lemma frame_remove: "remove_tunnels m ts s = (r, s') \<Longrightarrow> v3_sessions.frame s s'"
proof (induction m ts s arbitrary: r s' rule: remove_tunnels.induct)
  case (2 m name t ts s)
  then show ?case
    by (fastforce split: option.splits if_splits prod.splits v3_result.splits dest: frame_Stop intro: v3_frame_trans)
qed auto

lemma frame_insert: "v3_sessions.frame s (v3_insertTunnel name s)"
  by (auto simp: v3_sessions.frame_def v3_insertTunnel_def v3_newTunnel_def)

lemma frame_add_all: "add_all_tunnels bind go cs s = (r, s') \<Longrightarrow> v3_sessions.frame s s'"
proof (induction cs arbitrary: s)
  case (Cons x cs)
  obtain name c where x: "x = (name, c)" by (cases x)
  obtain q u where q: "v3_tunnel_Start bind go (vs_next s) (v3_insertTunnel name s) = (q, u)" by fastforce
  have u: "v3_sessions.frame s u" using v3_frame_trans [OF frame_insert] frame_tunnel_Start [OF q] by blast
  then show ?case using Cons.prems Cons.IH [of s] Cons.IH [of u]
    by (auto simp: x q split: if_splits v3_result.splits option.splits intro: v3_frame_trans)
qed auto

lemma frame_loadTunnels: "v3_loadTunnels bind go m s = (r, s') \<Longrightarrow> v3_sessions.frame s s'"
proof -
  assume l: "v3_loadTunnels bind go m s = (r, s')"
  obtain q u where q: "remove_tunnels m (vs_tunnels s) s = (q, u)" by fastforce
  have u: "v3_sessions.frame s (u\<lparr>vs_tunnels := ts\<rparr>)" for ts using v3_frame_trans [OF frame_remove [OF q]] by (simp add: v3_frame_same)
  show ?thesis using l frame_remove [OF q] v3_frame_trans [OF u frame_add_all]
    by (auto simp: v3_loadTunnels_def q split: v3_result.splits)
qed


lemma frame_Start: "v3_Start bind go s = (r, s') \<Longrightarrow> v3_sessions.frame s s'"
proof -
  assume st: "v3_Start bind go s = (r, s')"
  have L: "v3_sessions.frame u (u'\<lparr>vs_muxListener := x\<rparr>) \<and> v3_sessions.frame u (u'\<lparr>vs_apiListener := x\<rparr>) \<and> v3_sessions.frame u (v3_closeSocket l u') \<and> v3_sessions.frame u u'"
    if "v3_Listen bind a u = (q, u')" for a u q u' x l
    using that by (auto simp: v3_Listen_def intro!: v3_frame_same split: if_splits)
  show ?thesis using st
    by (auto simp: v3_Start_def Let_def split: if_splits option.splits prod.splits dest!: frame_loadTunnels dest: L intro: v3_frame_trans)
qed


lemma frame_LoadConfig: "v3_LoadConfig kp pc sni bind go cfg s = (r, s') \<Longrightarrow> v3_sessions.frame s s'"
proof -
  assume l: "v3_LoadConfig kp pc sni bind go cfg s = (r, s')"
  obtain q u where q: "v3_loadTunnels bind go (snd cfg) s = (q, u)" by fastforce
  have "v3_sessions.frame u (u\<lparr>vs_cfg := a, vs_maps := b, vs_tls := c\<rparr>)" for a b c by (simp add: v3_frame_same)
  then show ?thesis using l frame_loadTunnels [OF q] v3_frame_trans
    by (auto simp: v3_LoadConfig_def q split: sum.splits v3_result.splits)
qed

lemma frame_Shutdown: "v3_sessions.frame s (v3_Shutdown s)"
proof -
  have *: "v3_sessions.frame s ((fold v3_closeSession ms u)\<lparr>vs_mux := []\<rparr>)"
    if "vs_next u = vs_next s" "vs_numSessions u = vs_numSessions s" "vs_store u = vs_store s" for ms u
    by (rule v3_frame_trans [OF v3_frame_same v3_frame_trans [OF frame_closeSessions v3_frame_same]]) (use that in auto)
  show ?thesis unfolding v3_Shutdown_def Let_def by (rule *) (simp_all split: option.split)
qed

lemma frame_TLS:
  assumes "v3_TLS_Serve j a s = (m, fate, s')"
  shows "v3_sessions.frame s s'"
proof -
  obtain m u where b: "v3_TLS_body j a (v3_halfOpen_add 1 s) = (m, fate, u)" "s' = v3_halfOpen_add (- 1) u"
    using assms by (auto simp: v3_TLS_Serve_def split: prod.splits)
  have A: "v3_sessions.frame (x\<lparr>vs_authorized := n\<rparr>) y \<Longrightarrow> v3_sessions.frame x y" for x n y by (simp add: v3_sessions.frame_def)
  have "v3_sessions.frame (v3_halfOpen_add 1 s) u" using b(1) unfolding v3_TLS_body_def
    by (auto split: if_splits sum.splits option.splits prod.splits dest!: frame_startMux A)
  then show ?thesis unfolding b(2) by (simp add: v3_sessions.frame_def v3_halfOpen_add_def)
qed

lemma frame_Stream: "v3_Forward_Serve dials fwd service s = (fate, d, s') \<Longrightarrow> v3_sessions.frame s s'"
  by (auto simp: v3_Forward_Serve_def Let_def split: option.splits if_splits intro!: v3_frame_same)

lemma frame_Local: "v3_Tunnel_Serve j e opens fwd t s = (r, fate, s') \<Longrightarrow> v3_sessions.frame s s'"
  by (auto simp: v3_Tunnel_Serve_def split: prod.splits v3_result.splits sum.splits if_splits dest: frame_Dial)

section \<open>The counter of sessions\<close>

lemma counts_addMux: "v3_sessions.counts k s \<Longrightarrow> t < vs_next s \<Longrightarrow> v3_sessions.counts k (v3_addMux now t mux lbl s)"
  unfolding v3_addMux_def by (rule v3_frame_counts [OF v3_frame_upd v3_sessions.counts_store]) auto

lemma counts_delMux: "v3_sessions.counts k s \<Longrightarrow> t < vs_next s \<Longrightarrow> v3_sessions.counts k (v3_delMux now t mux s)"
  unfolding v3_delMux_def by (rule v3_frame_counts [OF v3_frame_upd v3_sessions.counts_store]) auto

lemma counts_server_mux: "v3_sessions.counts k s \<Longrightarrow> v3_sessions.counts k (v3_server_addMux mux lbl s) \<and> v3_sessions.counts k (v3_server_delMux mux s)"
  by (simp add: v3_sessions.counts_def v3_sessions.registered_def v3_server_addMux_def v3_server_delMux_def)

lemma close_redundant_next [simp]: "vs_next (close_redundant ms n s) = vs_next s"
  by (induction ms n s rule: close_redundant.induct) auto

lemma counts_cleanMux: "v3_sessions.counts k s \<Longrightarrow> t < vs_next s \<Longrightarrow> v3_sessions.counts k (v3_cleanMux t s)"
  unfolding v3_cleanMux_def Let_def
  by (rule v3_sessions.counts_store) (use v3_frame_counts [OF conjunct1 [OF frame_close_redundant]] in auto)

lemma counts_maintenance:
  assumes "v3_sessions.counts k s" "t < vs_next s" "v3_maintenance j e t s = (r, s')"
  shows "v3_sessions.counts k s'"
proof -
  have "v3_sessions.frame (v3_cleanMux t s) s'" using assms(3)
    by (auto simp: v3_maintenance_def Let_def split: if_splits option.splits dest: frame_redial)
  then show ?thesis using counts_cleanMux [OF assms(1,2)] v3_frame_counts by blast
qed

text \<open>The end of a loop: the map is emptied, the counter keeps its value.\<close>

lemma counts_run_exit:
  assumes "v3_sessions.counts k s" and "t < vs_next s"
  shows "v3_sessions.counts (k + length (tn_mux (vs_store s t))) (v3_run_exit t s)"
proof -
  have f: "vs_next (fold v3_closeSession ms u) = vs_next u" "vs_numSessions (fold v3_closeSession ms u) = vs_numSessions u"
      "vs_store (fold v3_closeSession ms u) = vs_store u" for ms u by (induction ms arbitrary: u) auto
  show ?thesis
    by (rule v3_sessions.counts_empty [OF assms]) (auto simp: v3_run_exit_def Let_def v3_upd_def f split: option.split)
qed

lemma v3_step_counts: "v3_step n s s' \<Longrightarrow> v3_sessions.counts k s \<Longrightarrow> v3_sessions.counts (k + n) s'"
proof (induction rule: v3_step.induct)
  case (Begin peerTun s now mux lbl)
  then show ?case using counts_server_mux by (cases peerTun) (auto simp: v3_serve_begin_def intro: counts_addMux)
next
  case (End peerTun s now mux)
  then show ?case using counts_server_mux by (cases peerTun) (auto simp: v3_serve_end_def intro: counts_delMux)
next
  case (Loop t s j e r s')
  then show ?case using counts_maintenance by fastforce
next
  case (Exit t s)
  then show ?case using counts_run_exit by blast
next
  case (Wake s t)
  then show ?case using v3_frame_counts [OF v3_frame_upd] by fastforce
next
  case (Maps s m)
  then show ?case by (simp add: v3_sessions.counts_def v3_sessions.registered_def)
next
  case (Streams s mux n)
  then show ?case by (simp add: v3_sessions.counts_def v3_sessions.registered_def)
qed (auto intro: v3_frame_counts frame_Start frame_LoadConfig frame_Shutdown frame_TLS frame_Stream frame_Local frame_closeSession v3_frame_same)


text \<open>(C14) The number of sessions that the limit of version 3 sees, over any interleaving of the server's steps from its
  creation: it is the number of sessions registered with tunnels, plus the number that were registered when the loop of
  their tunnel ended, modulo \<open>2 ^ 32\<close>.  The end of a loop empties the map without counting down, and the sessions registered with the
  server itself, those of peers without a tunnel, never count.\<close>

theorem v3_session_counter:
  assumes "v3_NewServer kp pc sni cfg = Inr s0" and "v3_run lost s0 s"
  shows "fst (v3_Stats4Listener s) = of_nat (v3_registered s + lost)"
proof -
  have "v3_sessions.counts 0 s0"
    using assms(1) by (auto simp: v3_NewServer_def v3_sessions.counts_def v3_sessions.registered_def split: sum.splits)
  with assms(2) have "v3_sessions.counts lost s" by (induction rule: v3_run.induct) (auto dest: v3_step_counts)
  then show ?thesis by (simp add: v3_sessions.counts_def v3_Stats4Listener_def v3_registered_eq)
qed

text \<open>A peer whose session is lost: it is connected, then disabled by a reload, and its loop ends.\<close>

definition v3_demo_peer :: "bool \<Rightarrow> v3_maps" where
  "v3_demo_peer off = \<lparr>vm_Services = [], vm_Peers = [(''p'', \<lparr>vt_Disabled = off, vt_MuxDial = [], vt_Listen = [], vt_Service = []\<rparr>)]\<rparr>"

definition v3_demo_server :: v3_server where
  "v3_demo_server = (case v3_NewServer (\<lambda>_ _. None) (\<lambda>_. []) [] (v3_Default, v3_demo_peer False) of Inr s \<Rightarrow> s)"

definition v3_demo_1 :: v3_server where "v3_demo_1 = snd (v3_Start (\<lambda>_ _. True) (True, True) v3_demo_server)"
definition v3_demo_2 :: v3_server where "v3_demo_2 = v3_serve_begin 5 (v3_findTunnel v3_demo_1 ''p'') 7 ''x'' v3_demo_1"
definition v3_demo_3 :: v3_server where
  "v3_demo_3 = snd (v3_LoadConfig (\<lambda>_ _. None) (\<lambda>_. []) [] (\<lambda>_ _. True) (True, True) (v3_Default, v3_demo_peer True) v3_demo_2)"
definition v3_demo_4 :: v3_server where "v3_demo_4 = v3_run_exit 0 v3_demo_3"

theorem v3_session_counter_witness:
  "v3_registered v3_demo_4 = 0 \<and> fst (v3_Stats4Listener v3_demo_4) = 1"
proof -
  have f: "v3_findTunnel v3_demo_1 ''p'' = Some 0" "vs_next v3_demo_1 = 1" by code_simp+
  have e: "0 < vs_next v3_demo_3" "tn_running (vs_store v3_demo_3 0)" "tn_stopped (vs_store v3_demo_3 0)"
    "length (tn_mux (vs_store v3_demo_3 0)) = 1" by code_simp+
  have "v3_step 0 v3_demo_server v3_demo_1" unfolding v3_demo_1_def by (rule v3_step.Start [OF prod.collapse [symmetric]])
  moreover have "v3_step 0 v3_demo_1 v3_demo_2" unfolding v3_demo_2_def by (rule v3_step.Begin) (simp add: f)
  moreover have "v3_step 0 v3_demo_2 v3_demo_3" unfolding v3_demo_3_def by (rule v3_step.Load [OF prod.collapse [symmetric]])
  moreover have "v3_step 1 v3_demo_3 v3_demo_4" unfolding v3_demo_4_def using v3_step.Exit [OF e(1,2)] e(3,4) by simp
  ultimately have "v3_run (0 + 0 + 0 + 0 + 1) v3_demo_server v3_demo_4" by (metis v3_run.refl v3_run.trans)
  moreover have "v3_NewServer (\<lambda>_ _. None) (\<lambda>_. []) [] (v3_Default, v3_demo_peer False) = Inr v3_demo_server"
    by (simp add: v3_demo_server_def v3_NewServer_def v3_NewTLSConfig_def v3_Default_def)
  ultimately have "fst (v3_Stats4Listener v3_demo_4) = of_nat (v3_registered v3_demo_4 + 1)"
    using v3_session_counter by fastforce
  moreover have "v3_registered v3_demo_4 = 0" by code_simp
  ultimately show ?thesis by simp
qed


section \<open>Reloading\<close>

definition v3_enabled :: "v3_tunnel_cfg dict \<Rightarrow> string \<Rightarrow> bool" where
  "v3_enabled peers name = (case map_of peers name of None \<Rightarrow> False | Some c \<Rightarrow> \<not> vt_Disabled c)"

text \<open>What holds between reloads: the tunnels of the map are distinct, exist and have not been stopped.\<close>

definition v3_tunnels_ok :: "v3_server \<Rightarrow> bool" where
  "v3_tunnels_ok s \<longleftrightarrow> distinct (map fst (vs_tunnels s)) \<and> distinct (map snd (vs_tunnels s))
     \<and> (\<forall>x \<in> set (vs_tunnels s). snd x < vs_next s \<and> \<not> tn_stopped (vs_store s (snd x)))"

definition v3_stop_all :: "v3_tid set \<Rightarrow> v3_server \<Rightarrow> v3_server" where
  "v3_stop_all S s = s\<lparr>vs_store := \<lambda>t. if t \<in> S then (vs_store s t)\<lparr>tn_stopped := True\<rparr> else vs_store s t\<rparr>"

lemma remove_tunnels_spec:
  assumes "distinct (map snd ts)" and "\<forall>x \<in> set ts. \<not> tn_stopped (vs_store s (snd x))"
  shows "remove_tunnels m ts s =
     (V3Ret (filter (\<lambda>x. v3_enabled (vm_Peers m) (fst x)) ts), v3_stop_all (snd ` set (filter (\<lambda>x. \<not> v3_enabled (vm_Peers m) (fst x)) ts)) s)"
  using assms
proof (induction m ts s rule: remove_tunnels.induct)
  case (1 m s)
  then show ?case by (simp add: v3_stop_all_def)
next
  case (2 m name t ts s)
  show ?case
  proof (cases "v3_enabled (vm_Peers m) name")
    case True
    then show ?thesis using 2 by (auto simp: v3_enabled_def split: option.splits)
  next
    case False
    let ?u = "v3_upd t (\<lambda>x. x\<lparr>tn_stopped := True\<rparr>) s"
    have st: "v3_tunnel_Stop t s = (V3Ret (), ?u)" using 2 by (simp add: v3_tunnel_Stop_def)
    have "\<forall>x \<in> set ts. \<not> tn_stopped (vs_store ?u (snd x))" using 2(4,5) by (auto simp: v3_upd_def image_iff)
    then have "remove_tunnels m ts ?u =
        (V3Ret (filter (\<lambda>x. v3_enabled (vm_Peers m) (fst x)) ts), v3_stop_all (snd ` set (filter (\<lambda>x. \<not> v3_enabled (vm_Peers m) (fst x)) ts)) ?u)"
      using 2 st False by (auto simp: v3_enabled_def split: option.splits)
    moreover have "v3_stop_all S ?u = v3_stop_all (insert t S) s" for S by (cases s) (auto simp: v3_stop_all_def v3_upd_def fun_eq_iff)
    ultimately show ?thesis using False st by (auto simp: v3_enabled_def split: option.splits)
  qed
qed

lemma map_of_filter_keys: "map_of (filter (\<lambda>x. P (fst x)) xs) k = (if P k then map_of xs k else None)"
  by (induction xs) auto

definition v3_fresh_tunnel :: "v3_server \<Rightarrow> string \<Rightarrow> v3_tid \<Rightarrow> bool" where
  "v3_fresh_tunnel s name t \<longleftrightarrow> tn_peerName (vs_store s t) = name \<and> tn_running (vs_store s t) \<and> \<not> tn_stopped (vs_store s t)
     \<and> tn_mux (vs_store s t) = []"

text \<open>A tunnel that starts is fresh; the others are left alone.\<close>

lemma start_fresh:
  assumes "v3_tunnel_Start bind go (vs_next s) (v3_insertTunnel name s) = (V3Ret None, u)"
  shows "v3_fresh_tunnel u name (vs_next s)" and "t \<noteq> vs_next s \<Longrightarrow> vs_store u t = vs_store s t"
    and "vs_tunnels u = dict_put name (vs_next s) (vs_tunnels s)" and "vs_next u = vs_next s + 1"
  using assms
  by (auto simp: v3_tunnel_Start_def v3_Listen_def v3_upd_def v3_insertTunnel_def v3_newTunnel_def v3_fresh_tunnel_def Let_def
      split: option.splits if_splits)

lemma add_all_spec:
  assumes "add_all_tunnels bind go cs s = (V3Ret None, s')" and "distinct (map fst cs)"
  shows "(\<forall>t < vs_next s. vs_store s' t = vs_store s t) \<and> vs_next s \<le> vs_next s'
     \<and> (\<forall>name. if v3_enabled cs name
          then (\<exists>t. map_of (vs_tunnels s') name = Some t \<and> vs_next s \<le> t \<and> t < vs_next s' \<and> v3_fresh_tunnel s' name t)
          else map_of (vs_tunnels s') name = map_of (vs_tunnels s) name)"
  using assms
proof (induction cs arbitrary: s)
  case (Cons x cs)
  obtain name c where x: "x = (name, c)" by (cases x)
  have d: "\<not> v3_enabled cs name" "distinct (map fst cs)" using Cons.prems(2) by (auto simp: x v3_enabled_def map_of_eq_None_iff [symmetric])
  have en: "v3_enabled (x # cs) n = (if n = name then \<not> vt_Disabled c else v3_enabled cs n)" for n by (simp add: x v3_enabled_def)
  show ?case
  proof (cases "vt_Disabled c")
    case True
    then show ?thesis using Cons.IH [OF _ d(2), of s] Cons.prems(1) d(1) unfolding en by (auto simp: x)
  next
    case False
    obtain u where u: "v3_tunnel_Start bind go (vs_next s) (v3_insertTunnel name s) = (V3Ret None, u)"
      "add_all_tunnels bind go cs u = (V3Ret None, s')"
      using Cons.prems(1) False by (auto simp: x split: prod.splits v3_result.splits option.splits)
    note f = start_fresh [OF u(1)] and IH = Cons.IH [OF u(2) d(2)]
    have st: "vs_store s' t = vs_store u t" if "t \<le> vs_next s" for t using IH that f(4) by auto
    have "v3_fresh_tunnel s' name (vs_next s)" using f(1) st by (simp add: v3_fresh_tunnel_def)
    moreover have "map_of (vs_tunnels s') name = Some (vs_next s)" using IH d(1) f(3) by (auto simp: dict_put_lookup dest: spec [of _ name])
    moreover have "map_of (vs_tunnels u) n = map_of (vs_tunnels s) n" if "n \<noteq> name" for n using f(3) that by (simp add: dict_put_lookup)
    ultimately show ?thesis using IH f(2,4) st False unfolding en by (auto split: if_splits) (meson Suc_leD)
  qed
qed (simp add: v3_enabled_def)




text \<open>A reload of the same config while a session is up: the session's tunnel is no longer in the map.\<close>

definition v3_demo_5 :: v3_server where "v3_demo_5 = snd (v3_loadTunnels (\<lambda>_ _. True) (True, True) (v3_demo_peer False) v3_demo_2)"


section \<open>Reloading a listening tunnel\<close>

lemma v3_getConfig_insert: "v3_getConfig (v3_insertTunnel name s) (vs_next s) = v3_GetTunnel (vs_cfg s, vs_maps s) name"
  by (simp add: v3_getConfig_def v3_insertTunnel_def v3_newTunnel_def)

lemma start_frame:
  assumes "v3_tunnel_Start bind go t s = (V3Ret None, u)"
  shows "vs_cfg u = vs_cfg s \<and> vs_maps u = vs_maps s \<and> vs_tunnels u = vs_tunnels s \<and> vs_next u = vs_next s \<and> set (vs_sockets s) \<subseteq> set (vs_sockets u)"
  using assms by (auto simp: v3_tunnel_Start_def v3_Listen_def v3_upd_def Let_def split: option.splits if_splits)

lemma start_error_frame:
  assumes "v3_tunnel_Start bind go t s = (V3Ret (Some e), u)"
  shows "vs_tunnels u = vs_tunnels s \<and> tn_running (vs_store u i) = tn_running (vs_store s i)"
  using assms by (auto simp: v3_tunnel_Start_def v3_Listen_def v3_upd_def v3_closeSocket_def Let_def split: option.splits if_splits)

lemma add_all_listen_fails:
  assumes "\<And>used x. x \<in> used \<Longrightarrow> \<not> bind used x" and "a \<in> snd ` set (vs_sockets s)" and "(name, c) \<in> set cs" and "\<not> vt_Disabled c"
    and "v3_GetTunnel (vs_cfg s, vs_maps s) name = Some c'" and "vt_Listen c' = a" and "a \<noteq> []"
    and "fst ` set cs \<subseteq> dom (v3_GetTunnel (vs_cfg s, vs_maps s))"
    and "b \<le> vs_next s" and "\<forall>t. v3_findTunnel s name = Some t \<longrightarrow> t < b"
  shows "\<exists>e u. add_all_tunnels bind go cs s = (V3Ret (Some e), u) \<and> (\<forall>t. v3_findTunnel u name = Some t \<longrightarrow> b \<le> t \<longrightarrow> \<not> tn_running (vs_store u t))"
  using assms(2-)
proof (induction cs arbitrary: s)
  case (Cons x cs)
  obtain n d where x: "x = (n, d)" by (cases x)
  let ?v = "v3_insertTunnel n s"
  obtain q u where q: "v3_tunnel_Start bind go (vs_next s) ?v = (q, u)" by fastforce
  have v: "vs_cfg ?v = vs_cfg s" "vs_maps ?v = vs_maps s" "vs_sockets ?v = vs_sockets s" "vs_next ?v = vs_next s + 1"
    "v3_findTunnel ?v k = (if k = n then Some (vs_next s) else v3_findTunnel s k)"
    "vs_store ?v (vs_next s) = v3_newTunnel n" for k
    by (simp_all add: v3_insertTunnel_def v3_findTunnel_def dict_put_lookup)
  have head: "\<exists>e. q = V3Ret (Some e)" if "n = name"
  proof -
    have "v3_Listen bind a ?v = (None, ?v)" using Cons.prems(1) assms(1) by (simp add: v3_Listen_def v)
    then show ?thesis using q Cons.prems(4,5,6) that by (auto simp: v3_tunnel_Start_def v3_getConfig_insert)
  qed
  have nopanic: "q \<noteq> V3Panic" using q Cons.prems(7)
    by (auto simp: x dom_def v3_tunnel_Start_def v3_getConfig_insert Let_def split: option.splits if_splits prod.splits)
  show ?case
  proof (cases "vt_Disabled d")
    case True
    then show ?thesis using Cons.IH [of s] Cons.prems by (auto simp: x)
  next
    case False
    show ?thesis
    proof (cases q)
      case (V3Ret r)
      show ?thesis
      proof (cases r)
        case None
        then have "n \<noteq> name" using head V3Ret by auto
        moreover have "v3_tunnel_Start bind go (vs_next s) ?v = (V3Ret None, u)" using q V3Ret None by simp
        note f = start_frame [OF this]
        ultimately show ?thesis using Cons.IH [of u] Cons.prems v f False q V3Ret None by (auto simp: x v3_findTunnel_def)
      next
        case (Some e)
        have e: "v3_tunnel_Start bind go (vs_next s) ?v = (V3Ret (Some e), u)" using q V3Ret Some by simp
        have "\<not> tn_running (vs_store u t)" if "v3_findTunnel u name = Some t" "b \<le> t" for t
          using start_error_frame [OF e] that v Cons.prems(9) by (auto simp: v3_findTunnel_def v3_newTunnel_def split: if_splits)
        then show ?thesis using e False by (simp add: x)
      qed
    qed (use nopanic in simp)
  qed
qed simp



definition v3_demo_listen :: v3_maps where
  "v3_demo_listen = \<lparr>vm_Services = [], vm_Peers = [(''p'', \<lparr>vt_Disabled = False, vt_MuxDial = [], vt_Listen = '':1080'', vt_Service = []\<rparr>)]\<rparr>"

definition v3_demo_6 :: v3_server where
  "v3_demo_6 = snd (v3_Start (\<lambda>used a. a \<notin> used) (True, True)
     (case v3_NewServer (\<lambda>_ _. None) (\<lambda>_. []) [] (v3_Default, v3_demo_listen) of Inr s \<Rightarrow> s))"


end
