(* ===== verification/V3_App.thy ===== *)
theory V3_App
  imports V3_Server App
begin

text \<open>
  The process of version 3, \<^verbatim>\<open>v3/app.go\<close>, with the config endpoint of \<^verbatim>\<open>v3/metric.go\<close>.  The maps of the default config are part of the
  process; the server's config shares them unless its document had a null, so that decoding a document changes the running
  config at once.  The process is a step relation over signals, requests and the steps of the server.
\<close>

section \<open>The command line\<close>

record v3_flags =
  vg_Help :: bool
  vg_Color :: bool
  vg_Config :: string
  vg_DumpConfig :: bool
  vg_ServerName :: string
  vg_GenCerts :: string
  vg_Sign :: string
  vg_KeyType :: string
  vg_KeySize :: int

definition v3_flags_Validate :: "v3_flags \<Rightarrow> bool" where
  "v3_flags_Validate f =
     (if vg_Help f then True
      else if vg_GenCerts f \<noteq> '''' then True
      else if vg_Config f = '''' then False
      else True)"

text \<open>What loading and applying a config calls: JSON, MIME, the file system, the TLS packages, the network and the goroutine group.\<close>

record v3_env =
  ve_json :: "string \<Rightarrow> v3_doc option"
  ve_readFile :: "string \<Rightarrow> string option"
  ve_parseMedia :: "string \<Rightarrow> (string \<times> (string \<rightharpoonup> string)) option"
  ve_dump :: "v3_file \<Rightarrow> string option"
  ve_keyPair :: "string \<Rightarrow> string \<Rightarrow> string option"
  ve_pemCerts :: "string \<Rightarrow> string list"
  ve_bind :: "string set \<Rightarrow> string \<Rightarrow> bool"
  ve_go :: "bool \<times> bool"

definition v3_dumpConfig :: "v3_env \<Rightarrow> v3_flags \<Rightarrow> int \<times> string option" where
  "v3_dumpConfig e f =
     (case fst (v3_LoadFile (ve_json e) (ve_readFile e) (ve_parseMedia e) (vg_Config f) v3_empty_maps) of
        Inl _ \<Rightarrow> (1, None)
      | Inr (cfg, _) \<Rightarrow> (case ve_dump e cfg of None \<Rightarrow> (1, None) | Some b \<Rightarrow> (0, Some b)))"

section \<open>State\<close>

record v3_process =
  vp_shared :: v3_maps                    \<comment> \<open>the maps of \<^verbatim>\<open>Default\<close>\<close>
  vp_aliased :: "bool \<times> bool"             \<comment> \<open>whether the server's config has these services and peers\<close>
  vp_server :: v3_server
  vp_logger :: "log_output \<times> int"
  vp_notified :: "sd_state list"
  vp_exit :: "int option"
  vp_panicked :: bool

definition v3_notify :: "sd_state \<Rightarrow> v3_process \<Rightarrow> v3_process" where
  "v3_notify n p = p\<lparr>vp_notified := vp_notified p @ [n]\<rparr>"

text \<open>The maps the server's config has when the shared ones become \<open>m\<close>.\<close>

definition v3_alias_maps :: "bool \<times> bool \<Rightarrow> v3_maps \<Rightarrow> v3_maps \<Rightarrow> v3_maps" where
  "v3_alias_maps al m own =
     \<lparr>vm_Services = (if fst al then vm_Services m else vm_Services own), vm_Peers = (if snd al then vm_Peers m else vm_Peers own)\<rparr>"

text \<open>\<^verbatim>\<open>config.Load\<close> in the running process.\<close>

definition v3_process_load :: "v3_env \<Rightarrow> string \<Rightarrow> v3_process \<Rightarrow> (v3_cfg_error + v3_file) \<times> v3_process" where
  "v3_process_load e b p =
     (case v3_Load (ve_json e) (ve_readFile e) (ve_parseMedia e) b (vp_shared p) of
        (r, m) \<Rightarrow>
          let p = p\<lparr>vp_shared := m, vp_server := (vp_server p)\<lparr>vs_maps := v3_alias_maps (vp_aliased p) m (vs_maps (vp_server p))\<rparr>\<rparr>
          in case r of Inl x \<Rightarrow> (Inl x, p) | Inr (cfg, lg) \<Rightarrow> (Inr cfg, p\<lparr>vp_logger := lg\<rparr>))"

text \<open>\<^verbatim>\<open>LoadConfig\<close> of a config decoded from \<open>b\<close>.\<close>

definition v3_process_apply :: "v3_flags \<Rightarrow> v3_env \<Rightarrow> string \<Rightarrow> v3_file \<Rightarrow> v3_process \<Rightarrow> v3_error option v3_result \<times> v3_process" where
  "v3_process_apply f e b cfg p =
     (case v3_LoadConfig (ve_keyPair e) (ve_pemCerts e) (vg_ServerName f) (ve_bind e) (ve_go e) cfg (vp_server p) of
        (V3Ret None, s) \<Rightarrow>
          (V3Ret None, p\<lparr>vp_server := s, vp_aliased := (\<not> nulls doc_services (ve_json e b), \<not> nulls doc_peers (ve_json e b))\<rparr>)
      | (r, s) \<Rightarrow> (r, p\<lparr>vp_server := s\<rparr>))"

section \<open>Start-up\<close>

datatype v3_start = V3Exit int | V3GenCerts | V3StartPanic | V3Run v3_process

definition v3_AppMain_start :: "v3_env \<Rightarrow> v3_flags \<Rightarrow> v3_start" where
  "v3_AppMain_start e f =
     (if \<not> v3_flags_Validate f then V3Exit 1
      else if vg_Help f then V3Exit 1
      else if vg_GenCerts f \<noteq> '''' then V3GenCerts
      else if vg_DumpConfig f then V3Exit (fst (v3_dumpConfig e f))
      else case ve_readFile e (vg_Config f) of
             None \<Rightarrow> V3Exit 1
           | Some b \<Rightarrow>
               (case v3_Load (ve_json e) (ve_readFile e) (ve_parseMedia e) b v3_empty_maps of
                  (Inl _, _) \<Rightarrow> V3Exit 1
                | (Inr (cfg, lg), m) \<Rightarrow>
                    (case v3_NewServer (ve_keyPair e) (ve_pemCerts e) (vg_ServerName f) cfg of
                       Inl _ \<Rightarrow> V3Exit 1
                     | Inr s \<Rightarrow>
                         (case v3_Start (ve_bind e) (ve_go e) s of
                            (V3Panic, _) \<Rightarrow> V3StartPanic
                          | (V3Ret (Some _), _) \<Rightarrow> V3Exit 1
                          | (V3Ret None, s) \<Rightarrow>
                              V3Run \<lparr>vp_shared = m, vp_aliased = (\<not> nulls doc_services (ve_json e b), \<not> nulls doc_peers (ve_json e b)),
                                     vp_server = s, vp_logger = lg, vp_notified = [SdReady], vp_exit = None, vp_panicked = False\<rparr>))))"

section \<open>Signals\<close>

definition v3_handle_signal :: "v3_flags \<Rightarrow> v3_env \<Rightarrow> signal \<Rightarrow> v3_process \<Rightarrow> v3_process" where
  "v3_handle_signal f e sg p =
     (if sg \<noteq> SIGHUP then (v3_notify SdStopping p)\<lparr>vp_server := v3_Shutdown (vp_server p), vp_exit := Some 0\<rparr>
      else
        let p = v3_notify SdReloading p
        in case ve_readFile e (vg_Config f) of
             None \<Rightarrow> p
           | Some b \<Rightarrow>
               (case v3_process_load e b p of
                  (Inl _, p) \<Rightarrow> p
                | (Inr cfg, p) \<Rightarrow>
                    (case v3_process_apply f e b cfg p of
                       (V3Panic, p) \<Rightarrow> p\<lparr>vp_panicked := True, vp_exit := Some 2\<rparr>
                     | (V3Ret (Some _), p) \<Rightarrow> p
                     | (V3Ret None, p) \<Rightarrow> v3_notify SdReady p)))"

section \<open>The config endpoint\<close>

record v3_request =
  vq_POST :: bool
  vq_ContentLength :: int     \<comment> \<open>-1 when unknown\<close>
  vq_Body :: string

definition v3_maxContentLength :: int where "v3_maxContentLength = 4194304"

text \<open>The statuses are the calls of \<^verbatim>\<open>WriteHeader\<close>; \<^verbatim>\<open>net/http\<close> sends the first and ignores the others, and sends 200 when there is none.
  A slice of negative length panics, as does a nil dereference in \<^verbatim>\<open>LoadConfig\<close>; \<^verbatim>\<open>net/http\<close> recovers from both.\<close>

definition v3_config_handler :: "v3_flags \<Rightarrow> v3_env \<Rightarrow> v3_request \<Rightarrow> v3_process \<Rightarrow> nat list v3_result \<times> v3_process" where
  "v3_config_handler f e r p =
     (let st = (if vq_POST r then [] else [405])
      in if vq_ContentLength r > v3_maxContentLength then (V3Ret (st @ [413]), p)
         else if vq_ContentLength r < 0 then (V3Panic, p)
         else
           let n = nat (vq_ContentLength r)
           in if length (vq_Body r) < n then (V3Ret (st @ [400]), p)
              else
                let b = take n (vq_Body r)
                in case v3_process_load e b p of
                     (Inl _, p) \<Rightarrow> (V3Ret (st @ [400]), p)
                   | (Inr cfg, p) \<Rightarrow>
                       (case v3_process_apply f e b cfg p of
                          (V3Panic, p) \<Rightarrow> (V3Panic, p)
                        | (V3Ret (Some _), p) \<Rightarrow> (V3Ret (st @ [500]), p)
                        | (V3Ret None, p) \<Rightarrow> (V3Ret st, p)))"

definition v3_status :: "nat list \<Rightarrow> nat" where
  "v3_status st = (case st of [] \<Rightarrow> 200 | c # _ \<Rightarrow> c)"


section \<open>Every run of the process\<close>

datatype v3_process_event = V3Signal signal v3_env | V3Post v3_env v3_request | V3Internal

inductive v3_process_step :: "v3_flags \<Rightarrow> v3_process_event \<Rightarrow> v3_process \<Rightarrow> v3_process \<Rightarrow> bool" for f where
  signal: "vp_exit p = None \<Longrightarrow> v3_process_step f (V3Signal sg e) p (v3_handle_signal f e sg p)"
| request: "vp_exit p = None \<Longrightarrow> vs_apiListener (vp_server p) \<noteq> None \<Longrightarrow> v3_config_handler f e r p = (res, p')
    \<Longrightarrow> v3_process_step f (V3Post e r) p p'"
| internal: "vp_exit p = None \<Longrightarrow> v3_step n (vp_server p) s \<Longrightarrow> vs_maps s = vs_maps (vp_server p)
    \<Longrightarrow> v3_process_step f V3Internal p (p\<lparr>vp_server := s\<rparr>)"   \<comment> \<open>tunnels, handlers and sessions\<close>

inductive v3_process_run :: "v3_flags \<Rightarrow> v3_process \<Rightarrow> v3_process \<Rightarrow> bool" for f where
  refl: "v3_process_run f p p"
| trans: "v3_process_run f p q \<Longrightarrow> v3_process_step f ev q p' \<Longrightarrow> v3_process_run f p p'"

text \<open>The server's config has the shared maps where it should.\<close>

definition v3_aliased_ok :: "v3_process \<Rightarrow> bool" where
  "v3_aliased_ok p \<longleftrightarrow> vs_maps (vp_server p) = v3_alias_maps (vp_aliased p) (vp_shared p) (vs_maps (vp_server p))"

lemma aliased_peers:
  assumes "v3_aliased_ok p" and "snd (vp_aliased p)"
  shows "vm_Peers (vs_maps (vp_server p)) = vm_Peers (vp_shared p)"
proof -
  have "vm_Peers (vs_maps (vp_server p)) = vm_Peers (v3_alias_maps (vp_aliased p) (vp_shared p) (vs_maps (vp_server p)))"
    using assms(1) [unfolded v3_aliased_ok_def] by (rule arg_cong)
  also have "\<dots> = vm_Peers (vp_shared p)" by (simp add: v3_alias_maps_def assms(2))
  finally show ?thesis .
qed

lemma maps_tunnel_Start: "v3_tunnel_Start bind go t s = (r, s') \<Longrightarrow> vs_maps s' = vs_maps s"
  by (auto simp: v3_tunnel_Start_def v3_Listen_def v3_upd_def v3_closeSocket_def Let_def split: option.splits if_splits)

lemma maps_Stop: "v3_tunnel_Stop t s = (r, s') \<Longrightarrow> vs_maps s' = vs_maps s"
  by (auto simp: v3_tunnel_Stop_def v3_upd_def split: if_splits)

lemma maps_remove: "remove_tunnels m ts s = (r, s') \<Longrightarrow> vs_maps s' = vs_maps s"
proof (induction ts arbitrary: s r s')
  case (Cons x ts)
  obtain name t where x: "x = (name, t)" by (cases x)
  obtain q u where q: "v3_tunnel_Stop t s = (q, u)" by fastforce
  obtain r1 s1 where r1: "remove_tunnels m ts s = (r1, s1)" by fastforce
  obtain r2 s2 where r2: "remove_tunnels m ts u = (r2, s2)" by fastforce
  have "s' = u \<or> s' = s1 \<or> s' = s2"
    using Cons.prems by (auto simp: x q r1 r2 split: option.splits if_splits v3_result.splits)
  then show ?case using Cons.IH [OF r1] Cons.IH [OF r2] maps_Stop [OF q] by auto
qed auto

lemma maps_add_all: "add_all_tunnels bind go cs s = (r, s') \<Longrightarrow> vs_maps s' = vs_maps s"
proof (induction cs arbitrary: s)
  case (Cons x cs)
  obtain name c where x: "x = (name, c)" by (cases x)
  have "vs_maps (v3_insertTunnel name s) = vs_maps s" by (simp add: v3_insertTunnel_def)
  with Cons show ?case
    by (auto simp: x split: if_splits prod.splits v3_result.splits option.splits dest!: maps_tunnel_Start)
qed auto

lemma maps_loadTunnels: "v3_loadTunnels bind go m s = (r, s') \<Longrightarrow> vs_maps s' = vs_maps s"
  by (auto simp: v3_loadTunnels_def split: prod.splits v3_result.splits dest!: maps_remove maps_add_all)

lemma maps_Start: "v3_Start bind go s = (r, s') \<Longrightarrow> vs_maps s' = vs_maps s"
  by (auto simp: v3_Start_def v3_Listen_def v3_closeSocket_def Let_def split: if_splits option.splits dest!: maps_loadTunnels)

lemma maps_Shutdown: "vs_maps (v3_Shutdown s) = vs_maps s"
proof -
  have "vs_maps (fold v3_closeSession ms u) = vs_maps u" for ms u by (induction ms arbitrary: u) (auto simp: v3_closeSession_def)
  then show ?thesis by (simp add: v3_Shutdown_def v3_closeSocket_def Let_def split: option.split)
qed

lemma maps_LoadConfig:
  "v3_LoadConfig kp pc sni bind go cfg s = (r, s') \<Longrightarrow> vs_maps s' = (if r = V3Ret None then snd cfg else vs_maps s)"
  by (auto simp: v3_LoadConfig_def split: sum.splits prod.splits v3_result.splits dest!: maps_loadTunnels)

text \<open>The maps of a loaded config are the shared ones, except those its document nulls.\<close>

lemma load_aliases:
  assumes "v3_Load json rf pm b m = (Inr (cfg, lg), m')"
  shows "snd cfg = v3_alias_maps (\<not> nulls doc_services (json b), \<not> nulls doc_peers (json b)) m' (snd cfg)"
proof -
  obtain d where "json b = Some d" "snd cfg = snd (fst (v3_unmarshal d (v3_Default, m)))" "m' = snd (v3_unmarshal d (v3_Default, m))"
    using assms by (auto simp: v3_Load_def split: option.splits sum.splits prod.splits if_splits)
  then show ?thesis by (auto simp: v3_alias_maps_def v3_unmarshal_def nulls_def v3_config_map_def v3_shared_map_def)
qed

lemma process_load_ok:
  assumes "v3_process_load e b p = (r, p')"
  shows "v3_aliased_ok p'" and "vp_aliased p' = vp_aliased p" and "vp_exit p' = vp_exit p"
    and "r = Inr cfg \<Longrightarrow> snd cfg = v3_alias_maps (\<not> nulls doc_services (ve_json e b), \<not> nulls doc_peers (ve_json e b)) (vp_shared p') (snd cfg)"
proof -
  obtain q m where q: "v3_Load (ve_json e) (ve_readFile e) (ve_parseMedia e) b (vp_shared p) = (q, m)" by fastforce
  have al: "v3_alias_maps al m (v3_alias_maps al m own) = v3_alias_maps al m own" for al own by (simp add: v3_alias_maps_def)
  show "v3_aliased_ok p'" "vp_aliased p' = vp_aliased p" "vp_exit p' = vp_exit p"
    using assms by (cases q; auto simp: v3_process_load_def q v3_aliased_ok_def al)+
  show "snd cfg = v3_alias_maps (\<not> nulls doc_services (ve_json e b), \<not> nulls doc_peers (ve_json e b)) (vp_shared p') (snd cfg)"
    if "r = Inr cfg"
    using assms that q load_aliases by (cases q) (auto simp: v3_process_load_def)
qed

lemma process_apply_ok:
  assumes "v3_process_apply f e b cfg p = (r, p')" and "v3_aliased_ok p"
    and "snd cfg = v3_alias_maps (\<not> nulls doc_services (ve_json e b), \<not> nulls doc_peers (ve_json e b)) (vp_shared p) (snd cfg)"
  shows "v3_aliased_ok p'"
proof -
  obtain q s where l: "v3_LoadConfig (ve_keyPair e) (ve_pemCerts e) (vg_ServerName f) (ve_bind e) (ve_go e) cfg (vp_server p) = (q, s)" by fastforce
  show ?thesis using assms maps_LoadConfig [OF l]
    by (auto simp: v3_process_apply_def l v3_aliased_ok_def split: v3_result.splits option.splits)
qed


lemma reload_ok:
  assumes "v3_process_load e b p = (r, q)"
  shows "v3_aliased_ok q" and "r = Inr cfg \<Longrightarrow> v3_process_apply f e b cfg q = (x, p') \<Longrightarrow> v3_aliased_ok p'"
  using process_load_ok [OF assms] process_apply_ok by blast+

lemma notify_ok [simp]: "v3_aliased_ok (v3_notify n p) = v3_aliased_ok p"
  by (simp add: v3_aliased_ok_def v3_notify_def)

lemma signal_ok:
  assumes "v3_aliased_ok p"
  shows "v3_aliased_ok (v3_handle_signal f e sg p)"
proof (cases "sg = SIGHUP")
  case False
  then show ?thesis using assms by (simp add: v3_handle_signal_def v3_aliased_ok_def v3_notify_def maps_Shutdown)
next
  case True
  show ?thesis
  proof (cases "ve_readFile e (vg_Config f)")
    case None
    then show ?thesis using assms True by (simp add: v3_handle_signal_def)
  next
    case (Some b)
    obtain r q where l: "v3_process_load e b (v3_notify SdReloading p) = (r, q)" by fastforce
    have ok: "v3_aliased_ok (u\<lparr>vp_panicked := True, vp_exit := Some 2\<rparr>) = v3_aliased_ok u" for u by (simp add: v3_aliased_ok_def)
    show ?thesis using reload_ok [OF l] True
      by (cases r) (auto simp: v3_handle_signal_def Some l ok split: prod.splits v3_result.splits option.splits)
  qed
qed

lemma config_handler_ok:
  assumes "v3_config_handler f e r p = (x, p')" and "v3_aliased_ok p"
  shows "v3_aliased_ok p'"
proof -
  obtain y q where l: "v3_process_load e (take (nat (vq_ContentLength r)) (vq_Body r)) p = (y, q)" by fastforce
  show ?thesis using assms reload_ok [OF l]
    by (cases y) (auto simp: v3_config_handler_def Let_def l split: if_splits prod.splits v3_result.splits option.splits)
qed

lemma v3_run_aliased: "v3_process_run f p p' \<Longrightarrow> v3_aliased_ok p \<Longrightarrow> v3_aliased_ok p'"
proof (induction rule: v3_process_run.induct)
  case (trans p q ev p')
  have "v3_aliased_ok (q\<lparr>vp_server := s\<rparr>) = v3_aliased_ok q" if "vs_maps s = vs_maps (vp_server q)" for s
    using that by (simp add: v3_aliased_ok_def)
  with trans.hyps(2) trans.IH [OF trans.prems] show ?case
    by (cases rule: v3_process_step.cases) (auto intro: signal_ok config_handler_ok)
qed auto

lemma v3_start_aliased:
  assumes "v3_AppMain_start e f = V3Run p"
  shows "v3_aliased_ok p"
proof -
  obtain b cfg lg m s0 s where s: "v3_Load (ve_json e) (ve_readFile e) (ve_parseMedia e) b v3_empty_maps = (Inr (cfg, lg), m)"
    "v3_NewServer (ve_keyPair e) (ve_pemCerts e) (vg_ServerName f) cfg = Inr s0" "v3_Start (ve_bind e) (ve_go e) s0 = (V3Ret None, s)"
    "vp_server p = s" "vp_shared p = m" "vp_aliased p = (\<not> nulls doc_services (ve_json e b), \<not> nulls doc_peers (ve_json e b))"
    using assms unfolding v3_AppMain_start_def
    by (simp split: if_splits option.splits prod.splits sum.splits v3_result.splits) force
  have "vs_maps s0 = snd cfg" using s(2) by (auto simp: v3_NewServer_def split: sum.splits)
  then show ?thesis using maps_Start [OF s(3)] load_aliases [OF s(1)] s(4-6) by (simp add: v3_aliased_ok_def)
qed




text \<open>A running process and a document with a peer and a keep-alive interval out of range.\<close>

definition v3_demo_env :: v3_env where
  "v3_demo_env = \<lparr>ve_json = \<lambda>b. Some \<lparr>doc_scalars = if b = ''bad'' then (\<lambda>c. c\<lparr>vf_KeepAlive := -1\<rparr>) else id, doc_services = Some [],
       doc_peers = Some (if b = ''bad'' then [(''evil'', \<lparr>vt_Disabled = False, vt_MuxDial = ''h:1'', vt_Listen = [], vt_Service = []\<rparr>)] else []),
       doc_mistyped = False\<rparr>,
     ve_readFile = \<lambda>path. Some path, ve_parseMedia = \<lambda>_. Some (v3_mimeType, [''version'' \<mapsto> v3_mimeVersion]), ve_dump = \<lambda>_. None,
     ve_keyPair = \<lambda>_ _. None, ve_pemCerts = \<lambda>_. [], ve_bind = \<lambda>_ _. True, ve_go = (True, True)\<rparr>"

definition v3_demo_flags :: v3_flags where
  "v3_demo_flags = \<lparr>vg_Help = False, vg_Color = False, vg_Config = ''good'', vg_DumpConfig = False, vg_ServerName = [], vg_GenCerts = [],
     vg_Sign = [], vg_KeyType = [], vg_KeySize = 0\<rparr>"

definition v3_demo_process :: v3_process where
  "v3_demo_process = (case v3_AppMain_start v3_demo_env v3_demo_flags of V3Run p \<Rightarrow> p)"

definition v3_demo_env2 :: v3_env where "v3_demo_env2 = v3_demo_env\<lparr>ve_readFile := \<lambda>_. Some ''bad''\<rparr>"

lemma v3_demo_starts: "v3_AppMain_start v3_demo_env v3_demo_flags = V3Run v3_demo_process"
proof -
  have "case v3_AppMain_start v3_demo_env v3_demo_flags of V3Run p \<Rightarrow> True | _ \<Rightarrow> False" by code_simp
  then show ?thesis by (auto simp: v3_demo_process_def split: v3_start.splits)
qed



end
