(* ===== verification/V3_Api.thy ===== *)
theory V3_Api
  imports V3_App
begin

text \<open>
  The HTTP interface of version 3, \<^verbatim>\<open>v3/metric.go\<close>, on top of the config endpoint of \<^verbatim>\<open>V3_App\<close>.  The page on memory is printed by the
  code of version 4; number formats are left out, a line is the numbers it shows.
\<close>

section \<open>The statistics page\<close>

definition v3_printMemStats :: "int \<Rightarrow> mem_stats \<Rightarrow> mem_report option" where
  "v3_printMemStats t m = printMemStats t m"

record v3_api_stats =
  vl_Accepted :: u64
  vl_Served :: u64
  vl_ReqTotal :: u64
  vl_ReqSuccess :: u64
  vl_Rx :: u64
  vl_Tx :: u64
  vl_Timestamp :: go_time

text \<open>The differences that are divided by \<open>vd_time\<close> and printed.\<close>

record v3_rates =
  vd_time :: go_duration
  vd_served :: u64
  vd_rejected :: u64
  vd_success :: u64
  vd_failed :: u64
  vd_rx :: u64
  vd_tx :: u64

datatype v3_tunnel_line = V3NeverSeen string | V3Offline string go_time | V3Online string go_time nat nat

fun v3_line_name :: "v3_tunnel_line \<Rightarrow> string" where
  "v3_line_name (V3NeverSeen n) = n"
| "v3_line_name (V3Offline n t) = n"
| "v3_line_name (V3Online n t k m) = n"

definition v3_tunnel_line_of :: "v3_tunnel_stats \<Rightarrow> v3_tunnel_line" where
  "v3_tunnel_line_of t =
     (if ts_LastChanged t \<noteq> 0
      then if ts_NumSessions t > 0 then V3Online (ts_Name t) (ts_LastChanged t) (ts_NumSessions t) (ts_NumStreams t)
           else V3Offline (ts_Name t) (ts_LastChanged t)
      else V3NeverSeen (ts_Name t))"

record v3_stats_page =
  vpg_nocache :: bool
  vpg_banner :: bool
  vpg_runtime :: "mem_report option option"
  vpg_uptime :: go_duration
  vpg_stats :: v3_server_stats
  vpg_rejected :: u64
  vpg_unauthorized :: u64
  vpg_failed :: u64
  vpg_rates :: "v3_rates option"
  vpg_tunnels :: "v3_tunnel_line list"
  vpg_events :: "int option"

definition v3_rates_of :: "go_time \<Rightarrow> v3_server_stats \<Rightarrow> v3_api_stats \<Rightarrow> v3_rates" where
  "v3_rates_of now st l =
     \<lparr>vd_time = time_sub now (vl_Timestamp l), vd_served = ss_Served st - vl_Served l,
      vd_rejected = (ss_Accepted st - ss_Served st) - (vl_Accepted l - vl_Served l),
      vd_success = ss_ReqSuccess st - vl_ReqSuccess l,
      vd_failed = (ss_ReqTotal st - ss_ReqSuccess st) - (vl_ReqTotal l - vl_ReqSuccess l),
      vd_rx = ss_Rx st - vl_Rx l, vd_tx = ss_Tx st - vl_Tx l\<rparr>"

definition v3_remember :: "go_time \<Rightarrow> v3_server_stats \<Rightarrow> v3_api_stats" where
  "v3_remember now st =
     \<lparr>vl_Accepted = ss_Accepted st, vl_Served = ss_Served st, vl_ReqTotal = ss_ReqTotal st, vl_ReqSuccess = ss_ReqSuccess st,
      vl_Rx = ss_Rx st, vl_Tx = ss_Tx st, vl_Timestamp = now\<rparr>"

definition v3_stats_handler ::
  "http_method \<Rightarrow> (string \<Rightarrow> string) option \<Rightarrow> mem_stats \<Rightarrow> go_time \<Rightarrow> go_time \<Rightarrow> v3_server_stats \<Rightarrow> v3_api_stats
    \<Rightarrow> (nat \<times> v3_stats_page option) \<times> v3_api_stats" where
  "v3_stats_handler meth query m started now st l =
     (if meth \<noteq> GET \<and> meth \<noteq> POST then ((StatusMethodNotAllowed, None), l)
      else case query of
             None \<Rightarrow> ((StatusBadRequest, None), l)
           | Some q \<Rightarrow>
               let stateless = (meth = GET); evlog = query_events q
               in ((StatusOK, Some
                      \<lparr>vpg_nocache = stateless, vpg_banner = (\<not> query_bool q ''nobanner''),
                       vpg_runtime = (if query_bool q ''runtime'' then Some (v3_printMemStats now m) else None),
                       vpg_uptime = time_sub now started, vpg_stats = st,
                       vpg_rejected = ss_Accepted st - ss_Served st, vpg_unauthorized = ss_Served st - ss_Authorized st,
                       vpg_failed = ss_ReqTotal st - ss_ReqSuccess st,
                       vpg_rates = (if stateless then None else Some (v3_rates_of now st l)),
                       vpg_tunnels = map v3_tunnel_line_of (sort_key ts_Name (ss_tunnels st)),
                       vpg_events = (if evlog > 0 then Some evlog else None)\<rparr>),
                   if stateless then l else v3_remember now st))"

section \<open>Dispatch\<close>

datatype v3_response =
    V3Status nat | V3StatsPage nat "v3_stats_page option" | V3MemPage "mem_report option" | V3StackPage string | V3HandlerPanic

record v3_http_ctx =
  vx_flags :: v3_flags
  vx_env :: v3_env
  vx_mem :: mem_stats
  vx_now :: go_time
  vx_started :: go_time
  vx_listener :: "u64 \<times> u64"
  vx_flow :: "u64 \<times> u64"
  vx_stack :: "nat \<Rightarrow> string"

definition v3_RunHTTPServer ::
  "v3_http_ctx \<Rightarrow> request \<Rightarrow> v3_process \<times> v3_api_stats \<Rightarrow> v3_response \<times> v3_process \<times> v3_api_stats" where
  "v3_RunHTTPServer x r st =
     (case st of (p, l) \<Rightarrow>
        if req_Path r = ''/healthy'' then (V3Status StatusOK, st)
        else if req_Path r = ''/config'' then
          (case v3_config_handler (vx_flags x) (vx_env x)
                  \<lparr>vq_POST = (req_Method r = POST), vq_ContentLength = req_ContentLength r, vq_Body = req_Body r\<rparr> p of
             (V3Panic, p) \<Rightarrow> (V3HandlerPanic, p, l)
           | (V3Ret codes, p) \<Rightarrow> (V3Status (v3_status codes), p, l))
        else if req_Path r = ''/stats'' then
          (case v3_stats_handler (req_Method r) (req_Query r) (vx_mem x) (vx_started x) (vx_now x)
                  (v3_server_Stats (vx_listener x) (vx_flow x) (vp_server p)) l of
             ((code, pg), l) \<Rightarrow> (V3StatsPage code pg, p, l))
        else if req_Path r = ''/gc'' then
          (if req_Method r \<noteq> POST then V3Status StatusMethodNotAllowed else V3MemPage (v3_printMemStats (vx_now x) (vx_mem x)), st)
        else if req_Path r = ''/stack'' then (V3StackPage (take 65536 (vx_stack x 65536)), st)
        else (V3Status StatusNotFound, st))"

section \<open>What the page lists\<close>

text \<open>The page names every tunnel of the server's map once, in order, and shows as online exactly those with an open session.\<close>

lemma v3_stats_page_tunnels:
  assumes "fst (v3_stats_handler meth q m started now (v3_server_Stats lst flow s) l) = (StatusOK, Some pg)"
  shows "sorted (map v3_line_name (vpg_tunnels pg))
     \<and> mset (map v3_line_name (vpg_tunnels pg)) = image_mset (\<lambda>x. tn_peerName (vs_store s (snd x))) (mset (vs_tunnels s))
     \<and> (\<forall>n t k j. V3Online n t k j \<in> set (vpg_tunnels pg) \<longrightarrow> 0 < k)"
proof -
  have n: "v3_line_name (v3_tunnel_line_of t) = ts_Name t" for t by (simp add: v3_tunnel_line_of_def)
  have pg: "vpg_tunnels pg = map v3_tunnel_line_of (sort_key ts_Name (map (\<lambda>x. v3_tunnel_Stats s (snd x)) (vs_tunnels s)))"
    using assms by (auto simp: v3_stats_handler_def v3_server_Stats_def Let_def status_defs split: if_splits option.splits prod.splits)
  then have names: "map v3_line_name (vpg_tunnels pg) = map ts_Name (sort_key ts_Name (map (\<lambda>x. v3_tunnel_Stats s (snd x)) (vs_tunnels s)))"
    by (simp add: n comp_def)
  have "sorted (map v3_line_name (vpg_tunnels pg))" unfolding names by simp
  moreover have "ts_Name (v3_tunnel_Stats s t) = tn_peerName (vs_store s t)" for t by (simp add: v3_tunnel_Stats_def Let_def)
  then have "mset (map v3_line_name (vpg_tunnels pg)) = image_mset (\<lambda>x. tn_peerName (vs_store s (snd x))) (mset (vs_tunnels s))"
    unfolding names by (simp add: image_mset.compositionality comp_def)
  moreover have "0 < k" if "V3Online n' t' k j' = v3_tunnel_line_of u" for u n' t' k j'
    using that by (auto simp: v3_tunnel_line_of_def split: if_splits)
  then have "\<forall>n t k j. V3Online n t k j \<in> set (vpg_tunnels pg) \<longrightarrow> 0 < k" unfolding pg by auto
  ultimately show ?thesis by blast
qed

text \<open>Only the config endpoint changes the process, and only a POST to the statistics changes what is remembered.\<close>

lemma v3_http_pure:
  assumes "v3_RunHTTPServer x r (p, l) = (res, p', l')"
  shows "(req_Path r \<noteq> ''/config'' \<longrightarrow> p' = p) \<and> (l' \<noteq> l \<longrightarrow> req_Path r = ''/stats'' \<and> req_Method r = POST)"
  using assms
  by (auto simp: v3_RunHTTPServer_def v3_stats_handler_def Let_def split: if_splits prod.splits v3_result.splits option.splits)

end
