(* ===== verification/V3_Cert.thy ===== *)
theory V3_Cert
  imports V3_App
begin

text \<open>
  Certificate generation of version 3, \<^verbatim>\<open>v3/utils.go\<close>.  The key types are those of version 4; the certificates differ in subject and
  serial number, and the search for a PEM block panics where that of version 4 returns nil.
\<close>

section \<open>Certificates\<close>

definition v3_makeKeyGenerator :: "string \<Rightarrow> int \<Rightarrow> cert_error + key_spec" where
  "v3_makeKeyGenerator keytype keysize = makeKeyGenerator keytype keysize"

record v3_template = cert_template +
  Country :: string
  Province :: string
  Locality :: string
  Organization :: string
  OrganizationalUnit :: string

text \<open>\<open>kc_now\<close> is the clock of the \<open>n\<close>th goroutine in nanoseconds.\<close>

record ('p, 'k, 'c) v3_crypto =
  kc_generate :: "key_spec \<Rightarrow> nat \<Rightarrow> ('p \<times> 'k) option"
  kc_marshalKey :: "'k \<Rightarrow> string option"
  kc_now :: "nat \<Rightarrow> go_time"
  kc_addDays :: "go_time \<Rightarrow> int \<Rightarrow> go_time"
  kc_create :: "v3_template \<Rightarrow> 'c option \<Rightarrow> 'p \<Rightarrow> 'k \<Rightarrow> string option"
  kc_parseCert :: "string \<Rightarrow> 'c option"
  kc_parseKey :: "string \<Rightarrow> 'k option"
  kc_encode :: "pem_block \<Rightarrow> string"
  kc_decode :: "string \<Rightarrow> (pem_block \<times> string) option"

definition v3_newCertificate ::
  "('p, 'k, 'c) v3_crypto \<Rightarrow> nat \<Rightarrow> ('c \<times> 'k) option \<Rightarrow> string \<Rightarrow> 'p \<Rightarrow> 'k \<Rightarrow> cert_error + string \<times> string" where
  "v3_newCertificate c n parent sni pubKey key =
     (case kc_marshalKey c key of
        None \<Rightarrow> Inl MarshalKeyError
      | Some rawKey \<Rightarrow>
          let keyPEM = kc_encode c \<lparr>b_Type = ''PRIVATE KEY'', b_Bytes = rawKey\<rparr>;
              now = kc_now c n;
              tmpl = \<lparr>NotBefore = now, NotAfter = kc_addDays c now 3652, SerialNumber = wrap64 now, CommonName = sni, DNSNames = [sni],
                      ExtKeyUsage = [ServerAuth, ClientAuth], BasicConstraintsValid = False, IsCA = False, Country = ''US'',
                      Province = ''California'', Locality = ''Mountain View'', Organization = ''Your Organization'',
                      OrganizationalUnit = ''Your Unit''\<rparr>;
              (tmpl, signKey) = (case parent of
                  None \<Rightarrow> (tmpl\<lparr>BasicConstraintsValid := True, IsCA := True\<rparr>, key)
                | Some (_, sk) \<Rightarrow> (tmpl, sk))
          in case kc_create c tmpl (map_option fst parent) pubKey signKey of
               None \<Rightarrow> Inl CreateError
             | Some rawCert \<Rightarrow> Inr (kc_encode c \<lparr>b_Type = ''CERTIFICATE'', b_Bytes = rawCert\<rparr>, keyPEM))"

section \<open>Reading a pair\<close>

text \<open>\<^const>\<open>None\<close> is not returning; the bytes of the nil block are a nil dereference.\<close>

partial_function (option) v3_parsePEM ::
  "(string \<Rightarrow> (pem_block \<times> string) option) \<Rightarrow> string \<Rightarrow> string \<Rightarrow> string v3_result option" where
  "v3_parsePEM decode b blockType =
     (case decode b of
        None \<Rightarrow> Some V3Panic
      | Some (p, rest) \<Rightarrow> if b_Type p = blockType then Some (V3Ret (b_Bytes p)) else v3_parsePEM decode rest blockType)"

declare v3_parsePEM.simps [code]

definition v3_readKeyPair :: "('p, 'k, 'c) v3_crypto \<Rightarrow> files \<Rightarrow> string \<Rightarrow> (cert_error + 'c \<times> 'k) v3_result option" where
  "v3_readKeyPair c f name =
     (case f (certFile name) of
        None \<Rightarrow> Some (V3Ret (Inl (ReadError (certFile name))))
      | Some (_, certPEM) \<Rightarrow>
          (case v3_parsePEM (kc_decode c) certPEM ''CERTIFICATE'' of
             None \<Rightarrow> None
           | Some V3Panic \<Rightarrow> Some V3Panic
           | Some (V3Ret certDER) \<Rightarrow>
               (case kc_parseCert c certDER of
                  None \<Rightarrow> Some (V3Ret (Inl ParseCertError))
                | Some cert \<Rightarrow>
                    (case f (keyFile name) of
                       None \<Rightarrow> Some (V3Ret (Inl (ReadError (keyFile name))))
                     | Some (_, keyPEM) \<Rightarrow>
                         (case v3_parsePEM (kc_decode c) keyPEM ''PRIVATE KEY'' of
                            None \<Rightarrow> None
                          | Some V3Panic \<Rightarrow> Some V3Panic
                          | Some (V3Ret keyDER) \<Rightarrow>
                              (case kc_parseKey c keyDER of
                                 None \<Rightarrow> Some (V3Ret (Inl ParseKeyError))
                               | Some key \<Rightarrow> Some (V3Ret (Inr (cert, key)))))))))"

section \<open>A batch\<close>

record ('p, 'k, 'c) v3_batch =
  kg_crypto :: "('p, 'k, 'c) v3_crypto"
  kg_keygen :: key_spec
  kg_parent :: "('c \<times> 'k) option"
  kg_serverName :: string
  kg_names :: "string list"

definition v3_genCerts :: "('p, 'k, 'c) v3_crypto \<Rightarrow> files \<Rightarrow> v3_flags \<Rightarrow> (int + ('p, 'k, 'c) v3_batch) v3_result option" where
  "v3_genCerts c f fl =
     (case v3_makeKeyGenerator (vg_KeyType fl) (vg_KeySize fl) of
        Inl _ \<Rightarrow> Some (V3Ret (Inl 1))
      | Inr spec \<Rightarrow>
          let run = (\<lambda>parent. Some (V3Ret (Inr \<lparr>kg_crypto = c, kg_keygen = spec, kg_parent = parent, kg_serverName = vg_ServerName fl,
                       kg_names = split_all (CHR '','') (vg_GenCerts fl)\<rparr>)))
          in if vg_Sign fl = '''' then run None
             else (case v3_readKeyPair c f (vg_Sign fl) of
                     None \<Rightarrow> None
                   | Some V3Panic \<Rightarrow> Some V3Panic
                   | Some (V3Ret (Inl _)) \<Rightarrow> Some (V3Ret (Inl 1))
                   | Some (V3Ret (Inr pair)) \<Rightarrow> run (Some pair)))"

text \<open>One goroutine up to its writes, which are those of version 4.\<close>

definition v3_make_pair :: "('p, 'k, 'c) v3_batch \<Rightarrow> nat \<Rightarrow> gtask" where
  "v3_make_pair g i =
     (case kc_generate (kg_crypto g) (kg_keygen g) i of
        None \<Rightarrow> TPanic GenerateError
      | Some (pubKey, key) \<Rightarrow>
          (case v3_newCertificate (kg_crypto g) i (kg_parent g) (kg_serverName g) pubKey key of
             Inl e \<Rightarrow> TPanic e
           | Inr (certPEM, keyPEM) \<Rightarrow> TCert certPEM keyPEM))"

section \<open>Against version 4\<close>

lemma v3_parsePEM_blocks:
  "pem_blocks decode b ps
     \<Longrightarrow> v3_parsePEM decode b ty = Some (case find (\<lambda>p. b_Type p = ty) ps of None \<Rightarrow> V3Panic | Some p \<Rightarrow> V3Ret (b_Bytes p))"
  by (induction rule: pem_blocks.induct) (simp_all add: v3_parsePEM.simps)

text \<open>(C37) The search for a PEM block of version 3 ends, given that decoding a block consumes some of the file, and it agrees with
  that of version 4 wherever that finds a block; where version 4 returns nil, which is the case its caller reports, it panics.\<close>

theorem v3_parse_pem_panics:
  assumes "\<And>b p rest. decode b = Some (p, rest) \<Longrightarrow> length rest < length b"
  shows "\<exists>r. parsePEM decode b ty = Some r \<and> v3_parsePEM decode b ty = Some (case r of None \<Rightarrow> V3Panic | Some x \<Rightarrow> V3Ret x)"
proof -
  obtain ps where ps: "pem_blocks decode b ps" using pem_blocks_exist [of decode b] assms by blast
  show ?thesis using parsePEM_blocks [OF ps] v3_parsePEM_blocks [OF ps] by (simp split: option.split)
qed

text \<open>A file with one character per block.\<close>

definition v3_demo_decode :: "string \<Rightarrow> (pem_block \<times> string) option" where
  "v3_demo_decode b = (case b of [] \<Rightarrow> None | c # cs \<Rightarrow> Some (\<lparr>b_Type = [c], b_Bytes = ''x''\<rparr>, cs))"

theorem v3_parse_pem_panics_witness:
  "parsePEM v3_demo_decode ''AB'' ''C'' = Some None \<and> v3_parsePEM v3_demo_decode ''AB'' ''C'' = Some V3Panic"
proof -
  have "length rest < length b" if "v3_demo_decode b = Some (p, rest)" for b p rest
    using that by (auto simp: v3_demo_decode_def split: list.splits)
  moreover have "parsePEM v3_demo_decode ''AB'' ''C'' = Some None"
    by (simp add: parsePEM.simps [of v3_demo_decode] v3_demo_decode_def)
  ultimately show ?thesis using v3_parse_pem_panics [of v3_demo_decode "''AB''" "''C''"] by auto
qed

end
