(* ===== verification/V2_Config.thy ===== *)
theory V2_Config
  imports V3_Proto
begin

text \<open>
  The configuration and the handshake of version 2, \<^verbatim>\<open>v2/config.go\<close> and \<^verbatim>\<open>v2/proto/proto.go\<close>.  JSON, X.509 and the file system are
  parameters; the logger is the pair of output and level.  The TLS config of this version also has TLS 1.3 as its highest version.
\<close>

section \<open>Data\<close>

record v2_tunnel_cfg =
  wt_Identity :: string
  wt_LocalIdentity :: string
  wt_MuxListen :: string
  wt_MuxDial :: string
  wt_Listen :: string
  wt_Dial :: string

record v2_config =
  wc_Identity :: string
  wc_Tunnels :: "v2_tunnel_cfg list"
  wc_Redial :: bool
  wc_HTTPListen :: string
  wc_ServerName :: string
  wc_Certificate :: string
  wc_PrivateKey :: string
  wc_AuthorizedCerts :: "string list"
  wc_NoDelay :: bool
  wc_KeepAlive :: int
  wc_ServerKeepAlive :: int
  wc_StartupLimitStart :: int
  wc_StartupLimitRate :: int
  wc_StartupLimitFull :: int
  wc_MaxConn :: int
  wc_MaxSessions :: int
  wc_AcceptBacklog :: int
  wc_StreamWindow :: u32
  wc_ConnectTimeout :: int
  wc_StreamOpenTimeout :: int
  wc_StreamCloseTimeout :: int
  wc_WriteTimeout :: int
  wc_Log :: string
  wc_LogLevel :: int

definition v2_DefaultConfig :: v2_config where
  "v2_DefaultConfig =
     \<lparr>wc_Identity = '''', wc_Tunnels = [], wc_Redial = True, wc_HTTPListen = '''', wc_ServerName = ''example.com'', wc_Certificate = '''',
      wc_PrivateKey = '''', wc_AuthorizedCerts = [], wc_NoDelay = True, wc_KeepAlive = 25, wc_ServerKeepAlive = 300,
      wc_StartupLimitStart = 10, wc_StartupLimitRate = 30, wc_StartupLimitFull = 60, wc_MaxConn = 16384, wc_MaxSessions = 128,
      wc_AcceptBacklog = 256, wc_StreamWindow = 256 * 1024, wc_ConnectTimeout = 15, wc_StreamOpenTimeout = 30,
      wc_StreamCloseTimeout = 120, wc_WriteTimeout = 15, wc_Log = ''stdout'', wc_LogLevel = 4\<rparr>"

datatype v2_cfg_error = V2Unmarshal | V2Range string | V2Output string | V2ReadFile string | V2KeyPair

section \<open>Loading\<close>

definition v2_rangeCheckInt :: "string \<Rightarrow> int \<Rightarrow> int \<Rightarrow> int \<Rightarrow> v2_cfg_error option" where
  "v2_rangeCheckInt key value lo hi = (if lo \<le> value \<and> value \<le> hi then None else Some (V2Range key))"

definition v2_Validate :: "v2_config \<Rightarrow> v2_cfg_error option" where
  "v2_Validate c =
     first_error
       [v2_rangeCheckInt ''keepalive'' (wc_KeepAlive c) 0 86400,
        v2_rangeCheckInt ''serverkeepalive'' (wc_ServerKeepAlive c) 0 86400,
        v2_rangeCheckInt ''startuplimitstart'' (wc_StartupLimitStart c) 1 max_int64,
        v2_rangeCheckInt ''startuplimitrate'' (wc_StartupLimitRate c) 0 100,
        v2_rangeCheckInt ''startuplimitfull'' (wc_StartupLimitFull c) 1 max_int64,
        v2_rangeCheckInt ''maxconn'' (wc_MaxConn c) 1 max_int64,
        v2_rangeCheckInt ''maxsessions'' (wc_MaxSessions c) 1 max_int64]"

text \<open>\<open>json b c\<close> decodes into \<open>c\<close>; \<open>output\<close> is \<^verbatim>\<open>SetOutputConfig\<close>.  The level is set before the output, so that it stays when that fails.\<close>

definition v2_parseConfig ::
  "(string \<Rightarrow> v2_config \<Rightarrow> v2_config option) \<Rightarrow> (string \<Rightarrow> log_output option) \<Rightarrow> string \<Rightarrow> log_output \<times> int
    \<Rightarrow> (v2_cfg_error + v2_config) \<times> log_output \<times> int" where
  "v2_parseConfig json output b lg =
     (case json b v2_DefaultConfig of
        None \<Rightarrow> (Inl V2Unmarshal, lg)
      | Some cfg \<Rightarrow>
          (case v2_Validate cfg of
             Some e \<Rightarrow> (Inl e, lg)
           | None \<Rightarrow>
               let lg = (fst lg, wc_LogLevel cfg)
               in (case output (wc_Log cfg) of
                     None \<Rightarrow> (Inl (V2Output (wc_Log cfg)), lg)
                   | Some out \<Rightarrow> (Inr cfg, out, snd lg))))"

definition v2_ReadConfig ::
  "(string \<Rightarrow> v2_config \<Rightarrow> v2_config option) \<Rightarrow> (string \<Rightarrow> log_output option) \<Rightarrow> (string \<Rightarrow> string option) \<Rightarrow> string \<Rightarrow> log_output \<times> int
    \<Rightarrow> (v2_cfg_error + v2_config) \<times> log_output \<times> int" where
  "v2_ReadConfig json output read_file path lg =
     (case read_file path of None \<Rightarrow> (Inl (V2ReadFile path), lg) | Some b \<Rightarrow> v2_parseConfig json output b lg)"

section \<open>Derived settings\<close>

text \<open>The loop over the authorized certificates.  \<^const>\<open>None\<close> is the nil config with a nil error that is returned for a file that holds
  no certificate: \<^verbatim>\<open>err\<close> is that of reading the file, which succeeded.\<close>

fun v2_cert_pool :: "(string \<Rightarrow> string option) \<Rightarrow> (string \<Rightarrow> 'c list) \<Rightarrow> string list \<Rightarrow> v2_cfg_error + 'c list option" where
  "v2_cert_pool read_file pem_certs [] = Inr (Some [])"
| "v2_cert_pool read_file pem_certs (path # ps) =
     (case read_file path of
        None \<Rightarrow> Inl (V2ReadFile path)
      | Some b \<Rightarrow>
          if pem_certs b = [] then Inr None
          else (case v2_cert_pool read_file pem_certs ps of
                  Inl e \<Rightarrow> Inl e
                | Inr None \<Rightarrow> Inr None
                | Inr (Some pool) \<Rightarrow> Inr (Some (pem_certs b @ pool))))"

definition v2_NewTLSConfig ::
  "(string \<Rightarrow> string \<Rightarrow> 'k option) \<Rightarrow> (string \<Rightarrow> string option) \<Rightarrow> (string \<Rightarrow> 'c list) \<Rightarrow> string \<Rightarrow> v2_config
    \<Rightarrow> v2_cfg_error + ('k, 'c) tls_config option" where
  "v2_NewTLSConfig load_pair read_file pem_certs sni c =
     (let sni = (if sni = '''' then wc_ServerName c else sni)
      in if wc_Certificate c = '''' \<and> wc_PrivateKey c = '''' then Inr None
         else case load_pair (wc_Certificate c) (wc_PrivateKey c) of
                None \<Rightarrow> Inl V2KeyPair
              | Some cert \<Rightarrow>
                  (case v2_cert_pool read_file pem_certs (wc_AuthorizedCerts c) of
                     Inl e \<Rightarrow> Inl e
                   | Inr None \<Rightarrow> Inr None
                   | Inr (Some certPool) \<Rightarrow>
                       Inr (Some \<lparr>Certificates = [cert], ClientAuth = RequireAndVerifyClientCert, ClientCAs = certPool, RootCAs = certPool,
                                  MinVersion = VersionTLS13, cfg_ServerName = sni, NextProtos = []\<rparr>)))"

definition v2_Timeout :: "v2_config \<Rightarrow> go_duration" where
  "v2_Timeout c = seconds (wc_ConnectTimeout c)"

definition v2_NewMuxConfig :: "v2_config \<Rightarrow> bool \<Rightarrow> yamux_config" where
  "v2_NewMuxConfig c isServer =
     (let interval = (if isServer then seconds (wc_ServerKeepAlive c) else seconds (wc_KeepAlive c));
          enable = (interval \<ge> second)
      in \<lparr>ym_AcceptBacklog = wc_AcceptBacklog c, ym_EnableKeepAlive = enable,
          ym_KeepAliveInterval = (if enable then interval else 15 * second),
          ym_ConnectionWriteTimeout = seconds (wc_WriteTimeout c), ym_MaxStreamWindowSize = wc_StreamWindow c,
          ym_StreamOpenTimeout = seconds (wc_StreamOpenTimeout c), ym_StreamCloseTimeout = seconds (wc_StreamCloseTimeout c)\<rparr>)"

section \<open>The handshake\<close>

text \<open>A message is an identity; \<open>wj_Unmarshal b own\<close> decodes into the struct that holds the own identity, which a message without the
  field leaves as it is.\<close>

record v2_codec =
  wj_Marshal :: "string \<Rightarrow> bytes option"
  wj_Unmarshal :: "bytes \<Rightarrow> string \<Rightarrow> string option"

datatype v2_hs_error = V2Marshal | V2TooLong | V2WriteErr | V2ReadHeader | V2ReadBody | V2UnmarshalMsg

text \<open>The identity in the struct afterwards, and what was written.  \<open>ok\<close> is whether the write succeeds, \<open>input\<close> what the peer sends.\<close>

definition v2_RunHandshake :: "v2_codec \<Rightarrow> bool \<Rightarrow> bytes \<Rightarrow> string \<Rightarrow> (v2_hs_error + string) \<times> bytes" where
  "v2_RunHandshake j ok input own =
     (case wj_Marshal j own of
        None \<Rightarrow> (Inl V2Marshal, [])
      | Some b \<Rightarrow>
          if length b > 65535 then (Inl V2TooLong, [])
          else if \<not> ok then (Inl V2WriteErr, [])
          else
            let out = PutUint16 (of_nat (length b)) @ b
            in (case ReadFull 2 input of
                  None \<Rightarrow> (Inl V2ReadHeader, out)
                | Some (hdr, r) \<Rightarrow>
                    (case ReadFull (unat (Uint16 hdr)) r of
                       None \<Rightarrow> (Inl V2ReadBody, out)
                     | Some (m, _) \<Rightarrow> (case wj_Unmarshal j m own of None \<Rightarrow> (Inl V2UnmarshalMsg, out) | Some p \<Rightarrow> (Inr p, out)))))"


section \<open>Handshakes agree\<close>

lemma v2_handshake_one_side:
  assumes "wj_Marshal j own = Some b1" and "length b1 \<le> 65535" and "length b2 \<le> 65535" and "wj_Unmarshal j b2 own = Some peer"
  shows "v2_RunHandshake j True (PutUint16 (of_nat (length b2)) @ b2 @ rest) own = (Inr peer, PutUint16 (of_nat (length b1)) @ b1)"
proof -
  have "unat (of_nat (length b2) :: 16 word) = length b2" using assms(3) by (simp add: unat_of_nat)
  then show ?thesis using assms by (simp add: v2_RunHandshake_def ReadFull_def Uint16_PutUint16 Let_def)
qed

text \<open>The handshake is symmetric: when each side is sent what the other writes, each ends with the other's identity.\<close>

theorem v2_handshake_agreement:
  assumes "wj_Marshal j a = Some ba" "length ba \<le> 65535" "wj_Unmarshal j ba b = Some a"
    and "wj_Marshal j b = Some bb" "length bb \<le> 65535" "wj_Unmarshal j bb a = Some b"
  shows "\<exists>out_a out_b. v2_RunHandshake j True (out_b @ more_b) a = (Inr b, out_a) \<and> v2_RunHandshake j True (out_a @ more_a) b = (Inr a, out_b)"
  using v2_handshake_one_side [OF assms(1,2,5,6), of more_b] v2_handshake_one_side [OF assms(4,5,2,3), of more_a]
  by (intro exI [of _ "PutUint16 (of_nat (length ba)) @ ba"] exI [of _ "PutUint16 (of_nat (length bb)) @ bb"]) simp

text \<open>A peer that sends a message without an identity is taken for the own identity.\<close>

lemma v2_handshake_own_identity:
  assumes "wj_Marshal j own = Some b1" "length b1 \<le> 65535" "length b2 \<le> 65535" "wj_Unmarshal j b2 own = Some own"
  shows "fst (v2_RunHandshake j True (PutUint16 (of_nat (length b2)) @ b2) own) = Inr own"
  using v2_handshake_one_side [OF assms, of "[]"] by simp

section \<open>When TLS is off\<close>

definition holds_certs :: "(string \<Rightarrow> string option) \<Rightarrow> (string \<Rightarrow> 'c list) \<Rightarrow> string \<Rightarrow> bool" where
  "holds_certs read_file pem_certs path = (case read_file path of None \<Rightarrow> False | Some b \<Rightarrow> pem_certs b \<noteq> [])"

lemma v2_cert_pool_nil:
  "v2_cert_pool rf pc ps = Inr None \<longleftrightarrow>
     (\<exists>i < length ps. (\<forall>j < i. holds_certs rf pc (ps ! j)) \<and> rf (ps ! i) \<noteq> None \<and> \<not> holds_certs rf pc (ps ! i))"
proof (induction ps)
  case (Cons p ps)
  have split: "(\<exists>i < length (p # ps). P i) \<longleftrightarrow> P 0 \<or> (\<exists>i < length ps. P (Suc i))" for P
    by (metis length_Cons less_Suc_eq_0_disj)
  have "(\<exists>i < length (p # ps). (\<forall>j < i. holds_certs rf pc ((p # ps) ! j)) \<and> rf ((p # ps) ! i) \<noteq> None \<and> \<not> holds_certs rf pc ((p # ps) ! i))
      \<longleftrightarrow> rf p \<noteq> None \<and> \<not> holds_certs rf pc p
        \<or> holds_certs rf pc p \<and> (\<exists>i < length ps. (\<forall>j < i. holds_certs rf pc (ps ! j)) \<and> rf (ps ! i) \<noteq> None \<and> \<not> holds_certs rf pc (ps ! i))"
    unfolding split by (auto simp: All_less_Suc2)
  moreover have "v2_cert_pool rf pc (p # ps) = Inr None \<longleftrightarrow> rf p \<noteq> None \<and> \<not> holds_certs rf pc p \<or> holds_certs rf pc p \<and> v2_cert_pool rf pc ps = Inr None"
    by (auto simp: holds_certs_def split: option.splits sum.splits)
  ultimately show ?case by (simp only: Cons.IH)
qed simp

text \<open>(C33) When version 2 runs without TLS although its config is accepted: exactly when neither a certificate nor a key is configured, or
  when some file of authorized certificates can be read but holds no certificate, while those before it do.  In the second case
  the TLS config is nil without an error, so that a damaged certificate file turns encryption and authentication off.\<close>

theorem v2_tls_off_iff:
  "v2_NewTLSConfig load_pair rf pc sni c = Inr None \<longleftrightarrow>
     wc_Certificate c = [] \<and> wc_PrivateKey c = []
     \<or> load_pair (wc_Certificate c) (wc_PrivateKey c) \<noteq> None
       \<and> (let ps = wc_AuthorizedCerts c
          in \<exists>i < length ps. (\<forall>j < i. holds_certs rf pc (ps ! j)) \<and> rf (ps ! i) \<noteq> None \<and> \<not> holds_certs rf pc (ps ! i))"
  unfolding Let_def v2_cert_pool_nil [symmetric]
  by (cases "v2_cert_pool rf pc (wc_AuthorizedCerts c)") (auto simp: v2_NewTLSConfig_def split: option.splits)


text \<open>A key pair and an authorized certificate that is damaged.\<close>

theorem v2_tls_off_iff_witness:
  "v2_NewTLSConfig (\<lambda>c k. Some (c, k)) (\<lambda>path. Some path) (\<lambda>b. if b = ''good.pem'' then [b] else []) []
     (v2_DefaultConfig\<lparr>wc_Certificate := ''cert.pem'', wc_PrivateKey := ''key.pem'', wc_AuthorizedCerts := [''good.pem'', ''damaged.pem'']\<rparr>) = Inr None"
  unfolding v2_tls_off_iff by (auto simp: holds_certs_def Let_def intro!: exI [of _ 1])

end
