(* ===== verification/V2_Forwarder.thy ===== *)
theory V2_Forwarder
  imports V3_Forwarder
begin

text \<open>
  The forwarder of version 2, \<^verbatim>\<open>v2/forwarder/forwarder.go\<close>.  A pair goes through the steps of version 3; what differs is the end:
  \<^verbatim>\<open>Forward\<close> is refused by a channel of the forwarder's own, which \<^verbatim>\<open>Close\<close> closes before it locks the map of connections, while
  the goroutine group goes on starting goroutines until the server closes it.  The steps are shown to be steps of version 3.
\<close>

section \<open>Simulations\<close>

text \<open>Every step of a machine is a sequence of steps of another one, seen through \<open>abs\<close>.\<close>

locale simulation =
  fixes step :: "'e \<Rightarrow> 's \<Rightarrow> 's option"
    and step' :: "'f \<Rightarrow> 't \<Rightarrow> 't option"
    and abs :: "'s \<Rightarrow> 't"
    and events :: "'e \<Rightarrow> 's \<Rightarrow> 'f list"
  assumes simulates: "step e s = Some t \<Longrightarrow> exec step' (events e s) (abs s) = Some (abs t)"
begin

lemma exec_simulates:
  "exec step es s = Some t \<Longrightarrow> \<exists>fs. exec step' fs (abs s) = Some (abs t)"
proof (induction es arbitrary: s)
  case Nil
  then have "exec step' [] (abs s) = Some (abs t)" by simp
  then show ?case by blast
next
  case (Cons e es)
  then obtain u where u: "step e s = Some u" "exec step es u = Some t" by (auto split: option.splits)
  obtain fs where "exec step' fs (abs u) = Some (abs t)" using Cons.IH [OF u(2)] by blast
  then have "exec step' (events e s @ fs) (abs s) = Some (abs t)" using simulates [OF u(1)] by (simp add: exec_append)
  then show ?case by blast
qed

end

section \<open>State and steps\<close>

record v2_fwd =
  gf_max :: nat                  \<comment> \<open>capacity of \<^verbatim>\<open>counter\<close>\<close>
  gf_counter :: nat
  gf_closeCh :: bool             \<comment> \<open>\<^verbatim>\<open>closeCh\<close> is closed\<close>
  gf_closing :: bool             \<comment> \<open>a caller of \<^verbatim>\<open>Close\<close> has closed it and not yet locked the map\<close>
  gf_panic :: bool               \<comment> \<open>the channel was closed a second time\<close>
  gf_groupClosed :: bool         \<comment> \<open>the group refuses new goroutines\<close>
  gf_pairs :: "v3_pair list"

definition v2_New :: "nat \<Rightarrow> v2_fwd" where
  "v2_New maxConn = \<lparr>gf_max = maxConn, gf_counter = 0, gf_closeCh = False, gf_closing = False, gf_panic = False,
     gf_groupClosed = False, gf_pairs = []\<rparr>"

text \<open>The select of \<^verbatim>\<open>Forward\<close>.\<close>

definition v2_select :: "select_case \<Rightarrow> v2_fwd \<Rightarrow> v3_pair \<Rightarrow> (v3_pair \<times> nat) option" where
  "v2_select c f p =
     (case c of
        SelClosed \<Rightarrow> if gf_closeCh f then Some (p\<lparr>fp_start := FRet (Some V3ErrClosed)\<rparr>, gf_counter f) else None
      | SelSend \<Rightarrow> if gf_counter f < gf_max f
                  then Some (p\<lparr>fp_start := FAdd, fp_admitted := True, fp_token := True\<rparr>, gf_counter f + 1) else None
      | SelDefault \<Rightarrow> if \<not> gf_closeCh f \<and> \<not> gf_counter f < gf_max f
                     then Some (p\<lparr>fp_start := FRet (Some V3ErrConnLimit)\<rparr>, gf_counter f) else None)"

text \<open>The steps of \<^verbatim>\<open>Close\<close>: a second \<^verbatim>\<open>close(f.closeCh)\<close> panics, in the goroutine that shuts the server down.\<close>

definition v2_Close_begin :: "v2_fwd \<Rightarrow> v2_fwd" where
  "v2_Close_begin f = (if gf_closeCh f then f\<lparr>gf_panic := True\<rparr> else f\<lparr>gf_closeCh := True, gf_closing := True\<rparr>)"

definition v2_Close_conns :: "v2_fwd \<Rightarrow> v2_fwd" where
  "v2_Close_conns f =
     f\<lparr>gf_closing := False, gf_pairs := map (\<lambda>p. if fp_tracked p then p\<lparr>fp_closed := True\<rparr> else p) (gf_pairs f)\<rparr>"

datatype v2_fwd_event =
    GForward | GSelect nat select_case | GStart nat | GCopier1 nat | GCopier2 nat | GCleanup nat | GClose | GCloseConns | GCloseGroup

text \<open>A goroutine of a pair; the code after the select, the copiers and the clean-up are those of version 3, and \<^verbatim>\<open>g.Go\<close> starts a
  goroutine unless the group is closed.\<close>

fun v2_pair_step :: "v2_fwd_event \<Rightarrow> v2_fwd \<Rightarrow> v3_pair \<Rightarrow> (v3_pair \<times> nat) option" where
  "v2_pair_step (GSelect i c) f p = (if fp_start p = FSelect then v2_select c f p else None)"
| "v2_pair_step (GStart i) f p = map_option (\<lambda>p. (p, gf_counter f)) (v3_Forward (\<not> gf_groupClosed f) p)"
| "v2_pair_step (GCopier1 i) f p = map_option (\<lambda>(once, c). (p\<lparr>fp_once := once, fp_c1 := c\<rparr>, gf_counter f)) (v3_copier (fp_once p) (fp_c1 p))"
| "v2_pair_step (GCopier2 i) f p = map_option (\<lambda>(once, c). (p\<lparr>fp_once := once, fp_c2 := c\<rparr>, gf_counter f)) (v3_copier (fp_once p) (fp_c2 p))"
| "v2_pair_step (GCleanup i) f p = v3_cleanup (gf_counter f) p"
| "v2_pair_step _ f p = None"

text \<open>The event of version 3 that moves the same pair.\<close>

fun v2_pair_event :: "v2_fwd \<Rightarrow> v2_fwd_event \<Rightarrow> v3_fwd_event option" where
  "v2_pair_event f (GSelect i c) = Some (VSelect i c)"
| "v2_pair_event f (GStart i) = Some (VStart i (\<not> gf_groupClosed f))"
| "v2_pair_event f (GCopier1 i) = Some (VCopier1 i)"
| "v2_pair_event f (GCopier2 i) = Some (VCopier2 i)"
| "v2_pair_event f (GCleanup i) = Some (VCleanup i)"
| "v2_pair_event f _ = None"

fun v2_event_pair :: "v2_fwd_event \<Rightarrow> nat option" where
  "v2_event_pair (GSelect i c) = Some i"
| "v2_event_pair (GStart i) = Some i"
| "v2_event_pair (GCopier1 i) = Some i"
| "v2_event_pair (GCopier2 i) = Some i"
| "v2_event_pair (GCleanup i) = Some i"
| "v2_event_pair _ = None"

text \<open>Nothing happens after a panic, which ends the process.\<close>

definition v2_fwd_step :: "v2_fwd_event \<Rightarrow> v2_fwd \<Rightarrow> v2_fwd option" where
  "v2_fwd_step e f =
     (if gf_panic f then None
      else case v2_event_pair e of
        Some i \<Rightarrow>
          if i < length (gf_pairs f)
          then map_option (\<lambda>(p, n). f\<lparr>gf_pairs := (gf_pairs f)[i := p], gf_counter := n\<rparr>) (v2_pair_step e f (gf_pairs f ! i)) else None
      | None \<Rightarrow>
          (case e of
             GForward \<Rightarrow> Some (f\<lparr>gf_pairs := gf_pairs f @ [new_pair]\<rparr>)
           | GClose \<Rightarrow> Some (v2_Close_begin f)
           | GCloseConns \<Rightarrow> if gf_closing f then Some (v2_Close_conns f) else None
           | _ \<Rightarrow> Some (f\<lparr>gf_groupClosed := True\<rparr>)))"

definition v2_Count :: "v2_fwd \<Rightarrow> nat" where
  "v2_Count f = gf_counter f"

section \<open>Version 2 refines version 3\<close>

definition v2_fwd_abs :: "v2_fwd \<Rightarrow> v3_fwd" where
  "v2_fwd_abs f = \<lparr>ff_max = gf_max f, ff_counter = gf_counter f, ff_groupClosed = gf_closeCh f, ff_pairs = gf_pairs f\<rparr>"

definition v3_events :: "v2_fwd_event \<Rightarrow> v2_fwd \<Rightarrow> v3_fwd_event list" where
  "v3_events e f =
     (case v2_pair_event f e of
        Some v \<Rightarrow> [v]
      | None \<Rightarrow> (case e of GForward \<Rightarrow> [VForward] | GClose \<Rightarrow> [VCloseGroup] | GCloseConns \<Rightarrow> [VClose] | _ \<Rightarrow> []))"

lemma pair_step_abs:
  assumes "v2_pair_event f e = Some v"
  shows "event_pair v = v2_event_pair e \<and> v3_pair_step v (v2_fwd_abs f) p = v2_pair_step e f p"
  using assms by (cases e) (auto simp: v2_select_def v3_select_def v2_fwd_abs_def split: select_case.splits)

interpretation v2_as_v3: simulation v2_fwd_step v3_fwd_step v2_fwd_abs v3_events
proof
  fix e f g
  assume s: "v2_fwd_step e f = Some g"
  show "exec v3_fwd_step (v3_events e f) (v2_fwd_abs f) = Some (v2_fwd_abs g)"
  proof (cases "v2_pair_event f e")
    case (Some v)
    obtain i where "v2_event_pair e = Some i" using Some by (cases e) auto
    then show ?thesis using s pair_step_abs [OF Some, of "gf_pairs f ! i"] Some
      by (auto simp: v2_fwd_step_def v3_events_def v3_fwd_step_def v2_fwd_abs_def set_pair_def split: if_splits)
  next
    case None
    then show ?thesis using s
      by (cases e) (auto simp: v2_fwd_step_def v3_events_def v3_fwd_step_def v2_fwd_abs_def v2_Close_begin_def v2_Close_conns_def
          v3_fwd_Close_def split: if_splits)
  qed
qed

text \<open>(C32) The forwarder of version 2 refines that of version 3: whatever its callers, copiers, clean-ups and the two steps of \<^verbatim>\<open>Close\<close>
  do in any interleaving, version 3 can do.  So the counter is the number of pairs that hold a slot, never exceeds the limit, and
  is zero when all goroutines have returned; a finished pair is closed and forgotten.\<close>

theorem v2_forwarder_refines:
  assumes "exec v2_fwd_step es (v2_New maxConn) = Some f"
  shows "(\<exists>fs. exec v3_fwd_step fs (v3_New maxConn) = Some (v2_fwd_abs f)) \<and> v2_Count f = tokens (gf_pairs f) \<and> v2_Count f \<le> maxConn
     \<and> (\<forall>p \<in> set (gf_pairs f). pair_finished p \<longrightarrow> \<not> fp_token p \<and> \<not> fp_tracked p \<and> (fp_admitted p \<longrightarrow> fp_closed p))
     \<and> (list_all pair_finished (gf_pairs f) \<longrightarrow> v2_Count f = 0)"
proof -
  have "v2_fwd_abs (v2_New maxConn) = v3_New maxConn" by (simp add: v2_fwd_abs_def v2_New_def v3_New_def)
  then obtain fs where fs: "exec v3_fwd_step fs (v3_New maxConn) = Some (v2_fwd_abs f)" using v2_as_v3.exec_simulates [OF assms] by auto
  have "v3_fwd_inv (v2_fwd_abs f)" "ff_max (v2_fwd_abs f) = maxConn" using v3_exec_inv [OF fs] by blast+
  from inv_slots [OF this(1)] this(2) show ?thesis using fs by (auto simp: v3_Count_def v2_Count_def v2_fwd_abs_def)
qed

text \<open>A limit of one; the pair runs, the forwarder is closed, and the copiers end.\<close>

definition v2_demo_events :: "v2_fwd_event list" where
  "v2_demo_events = [GForward, GSelect 0 SelSend, GStart 0, GStart 0, GStart 0, GForward, GSelect 1 SelDefault, GClose, GCloseConns,
     GCopier1 0, GCopier1 0, GCleanup 0, GCopier2 0, GCleanup 0, GCleanup 0, GCopier1 0, GCopier2 0]"

theorem v2_forwarder_refines_witness:
  "case exec v2_fwd_step v2_demo_events (v2_New 1) of
     None \<Rightarrow> False | Some f \<Rightarrow> v2_Count f = 0 \<and> map fp_start (gf_pairs f) = [FRet None, FRet (Some V3ErrConnLimit)]"
proof -
  obtain f where f: "exec v2_fwd_step v2_demo_events (v2_New 1) = Some f"
    "list_all pair_finished (gf_pairs f)" "map fp_start (gf_pairs f) = [FRet None, FRet (Some V3ErrConnLimit)]"
    by (simp add: v2_demo_events_def v2_fwd_step_def v2_New_def new_pair_def v2_select_def v3_Forward_def v3_copier_def v3_cleanup_def
        v2_Close_begin_def v2_Close_conns_def pair_finished_def)
  then show ?thesis using v2_forwarder_refines [OF f(1)] by simp
qed

section \<open>Closing\<close>

text \<open>\<^verbatim>\<open>Close\<close> can be called once: the process panics exactly at the second call.\<close>

lemma v2_close_once:
  assumes "exec v2_fwd_step es (v2_New maxConn) = Some f"
  shows "(gf_closeCh f \<longleftrightarrow> GClose \<in> set es) \<and> (gf_panic f \<longleftrightarrow> count_list es GClose \<ge> 2)"
proof -
  have "exec v2_fwd_step es s = Some f \<Longrightarrow> \<not> gf_panic s \<Longrightarrow>
      (gf_closeCh f \<longleftrightarrow> gf_closeCh s \<or> GClose \<in> set es) \<and> (gf_panic f \<longleftrightarrow> of_bool (gf_closeCh s) + count_list es GClose \<ge> 2)" for s
  proof (induction es arbitrary: s)
    case (Cons e es)
    then obtain u where u: "v2_fwd_step e s = Some u" "exec v2_fwd_step es u = Some f" by (auto split: option.splits)
    have o: "gf_panic u = gf_panic s \<and> gf_closeCh u = gf_closeCh s" if "e \<noteq> GClose"
      using u(1) that by (cases e) (auto simp: v2_fwd_step_def v2_Close_conns_def split: if_splits)
    have c: "u = v2_Close_begin s" if "e = GClose" using u(1) that by (auto simp: v2_fwd_step_def split: if_splits)
    have stuck: "es = []" "f = u" if "gf_panic u" using u(2) that by (cases es; auto simp: v2_fwd_step_def)+
    show ?case
    proof (cases "gf_panic u")
      case True
      then show ?thesis using stuck c o Cons.prems(2) by (cases "e = GClose") (auto simp: v2_Close_begin_def split: if_splits)
    next
      case False
      then show ?thesis using Cons.IH [OF u(2) False] c o Cons.prems(2)
        by (cases "e = GClose") (auto simp: v2_Close_begin_def split: if_splits)
    qed
  qed auto
  from this [OF assms] show ?thesis by (simp add: v2_New_def)
qed

text \<open>The channel does not stop a caller whose select finds a free slot as well: after \<^verbatim>\<open>Close\<close> has finished, and before the group is
  closed, a pair can still be started, which nothing closes and which \<^verbatim>\<open>Shutdown\<close> then waits for.\<close>

lemma v2_forward_after_close:
  "\<exists>f. exec v2_fwd_step [GClose, GCloseConns, GForward, GSelect 0 SelSend, GStart 0, GStart 0, GStart 0, GCloseGroup] (v2_New 1) = Some f
     \<and> \<not> gf_closing f \<and> fp_start (gf_pairs f ! 0) = FRet None \<and> fp_c1 (gf_pairs f ! 0) = CCopy \<and> \<not> fp_closed (gf_pairs f ! 0)"
  by (simp add: v2_fwd_step_def v2_New_def new_pair_def v2_select_def v3_Forward_def v2_Close_begin_def v2_Close_conns_def)

end
