(* ===== verification/V2_Server.thy ===== *)
theory V2_Server
  imports V2_Config V3_Tunnel
begin

text \<open>
  Tunnels, server and handlers of version 2, \<^verbatim>\<open>v2/tunnel.go\<close>, \<^verbatim>\<open>v2/server.go\<close> and \<^verbatim>\<open>v2/handler.go\<close>.  Tunnels and yamux sessions live in
  stores with identifiers, sections under a mutex are single steps, and the results of the network, of yamux and of the goroutine
  group are arguments.  Log messages, the event log and the time of the start are left out; the context manager has the code of
  version 4.
\<close>

section \<open>State\<close>

record v2_tunnel =
  wn_name :: string
  wn_c :: v2_tunnel_cfg
  wn_l :: "nat option"
  wn_mux :: "(v3_sid \<times> string) list"
  wn_redialSig :: bool
  wn_redialCount :: int
  wn_lastChanged :: go_time
  wn_running :: bool
  wn_halfOpen :: u32          \<comment> \<open>of the handler of its mux listener\<close>

record v2_server =
  ws_c :: v2_config
  ws_tlscfg :: "(string, string) tls_config option"
  ws_muxcfg :: "yamux_config option"
  ws_servermuxcfg :: "yamux_config option"
  ws_timeout :: go_duration
  ws_listeners :: "nat dict"
  ws_sockets :: "(nat \<times> string) list"   \<comment> \<open>listening sockets and their addresses\<close>
  ws_nextSocket :: nat
  ws_tunnels :: "v3_tid dict"
  ws_store :: "v3_tid \<Rightarrow> v2_tunnel"
  ws_next :: v3_tid
  ws_sessions :: "v3_sid \<Rightarrow> v3_session"
  ws_numSessions :: u32
  ws_authorized :: u64
  ws_request :: u64
  ws_success :: u64
  ws_ctx :: context_mgr
  ws_groupClosed :: bool

datatype v2_error =
    V2NoDialAddress | V2DialInProgress | V2DialFailed | V2DeadlineFailed | V2HandshakeFailed v2_hs_error | V2MuxFailed | V2GroupClosed
  | V2OpenFailed | V2ListenFailed string | V2Redefined nat string | V2TLS v2_cfg_error

definition v2_NewTunnel :: "v2_tunnel_cfg \<Rightarrow> v2_tunnel" where
  "v2_NewTunnel c =
     \<lparr>wn_name = wt_Identity c, wn_c = c, wn_l = None, wn_mux = [], wn_redialSig = False, wn_redialCount = 0, wn_lastChanged = 0,
      wn_running = False, wn_halfOpen = 0\<rparr>"

text \<open>The timeout of contexts is the method of the first config, whatever is loaded later.\<close>

definition v2_NewServer :: "v2_config \<Rightarrow> v2_server" where
  "v2_NewServer cfg =
     \<lparr>ws_c = cfg, ws_tlscfg = None, ws_muxcfg = None, ws_servermuxcfg = None, ws_timeout = v2_Timeout cfg, ws_listeners = [],
      ws_sockets = [], ws_nextSocket = 0, ws_tunnels = [],
      ws_store = (\<lambda>_. v2_NewTunnel \<lparr>wt_Identity = [], wt_LocalIdentity = [], wt_MuxListen = [], wt_MuxDial = [], wt_Listen = [], wt_Dial = []\<rparr>),
      ws_next = 0, ws_sessions = (\<lambda>_. \<lparr>ys_closed = False, ys_streams = 0\<rparr>), ws_numSessions = 0, ws_authorized = 0, ws_request = 0,
      ws_success = 0, ws_ctx = new_context_mgr, ws_groupClosed = False\<rparr>"

definition v2_upd :: "v3_tid \<Rightarrow> (v2_tunnel \<Rightarrow> v2_tunnel) \<Rightarrow> v2_server \<Rightarrow> v2_server" where
  "v2_upd t f s = s\<lparr>ws_store := (ws_store s)(t := f (ws_store s t))\<rparr>"

definition v2_closeSession :: "v3_sid \<Rightarrow> v2_server \<Rightarrow> v2_server" where
  "v2_closeSession m s = s\<lparr>ws_sessions := (ws_sessions s)(m := (ws_sessions s m)\<lparr>ys_closed := True\<rparr>)\<rparr>"

definition v2_addTunnel :: "v2_tunnel_cfg \<Rightarrow> v2_server \<Rightarrow> v3_tid \<times> v2_server" where
  "v2_addTunnel c s =
     (ws_next s, s\<lparr>ws_store := (ws_store s)(ws_next s := v2_NewTunnel c), ws_next := ws_next s + 1,
                   ws_tunnels := dict_put (wt_Identity c) (ws_next s) (ws_tunnels s)\<rparr>)"

definition v2_findTunnel :: "v2_server \<Rightarrow> string \<Rightarrow> v3_tid option" where
  "v2_findTunnel s identity = map_of (ws_tunnels s) identity"

section \<open>Sessions of a tunnel\<close>

definition v2_prune :: "v2_server \<Rightarrow> (v3_sid \<times> string) list \<Rightarrow> (v3_sid \<times> string) list" where
  "v2_prune s m = filter (\<lambda>x. \<not> ys_closed (ws_sessions s (fst x))) m"

definition v2_set_mux :: "v3_tid \<Rightarrow> (v3_sid \<times> string) list \<Rightarrow> v2_server \<Rightarrow> v2_server" where
  "v2_set_mux t m s =
     (v2_upd t (\<lambda>x. x\<lparr>wn_mux := m\<rparr>) s)
       \<lparr>ws_numSessions := ws_numSessions s + to_u32 (int (length m) - int (length (wn_mux (ws_store s t))))\<rparr>"

definition v2_addMux :: "go_time \<Rightarrow> v3_tid \<Rightarrow> v3_sid \<Rightarrow> string \<Rightarrow> v2_server \<Rightarrow> v2_server" where
  "v2_addMux now t mux lbl s =
     v2_upd t (\<lambda>x. x\<lparr>wn_lastChanged := now\<rparr>) (v2_set_mux t (put_mux mux lbl (v2_prune s (wn_mux (ws_store s t)))) s)"

definition v2_delMux :: "go_time \<Rightarrow> v3_tid \<Rightarrow> v3_sid \<Rightarrow> v2_server \<Rightarrow> v2_server" where
  "v2_delMux now t mux s =
     v2_upd t (\<lambda>x. x\<lparr>wn_lastChanged := now, wn_redialSig := True\<rparr>)
       (v2_set_mux t (v2_prune s (filter (\<lambda>x. fst x \<noteq> mux) (wn_mux (ws_store s t)))) s)"

definition v2_getMux :: "v2_server \<Rightarrow> v3_tid \<Rightarrow> v3_sid option" where
  "v2_getMux s t = map_option fst (find (\<lambda>x. \<not> ys_closed (ws_sessions s (fst x))) (wn_mux (ws_store s t)))"

definition v2_NumSessions :: "v2_server \<Rightarrow> v3_tid \<Rightarrow> nat" where
  "v2_NumSessions s t = length (wn_mux (ws_store s t))"

text \<open>\<^verbatim>\<open>Serve\<close>: what a tunnel does with the streams of a session.\<close>

datatype v2_handler = V2ForwardHandler string | V2EmptyHandler

definition v2_tunnel_Serve :: "v2_server \<Rightarrow> v3_tid \<Rightarrow> v2_handler" where
  "v2_tunnel_Serve s t = (if wt_Dial (wn_c (ws_store s t)) \<noteq> '''' then V2ForwardHandler (wt_Dial (wn_c (ws_store s t))) else V2EmptyHandler)"

record v2_tunnel_stats =
  ut_Name :: string
  ut_LastChanged :: go_time
  ut_NumSessions :: nat
  ut_NumStreams :: nat

definition v2_tunnel_Stats :: "v2_server \<Rightarrow> v3_tid \<Rightarrow> v2_tunnel_stats" where
  "v2_tunnel_Stats s t =
     (let m = v2_prune s (wn_mux (ws_store s t))
      in \<lparr>ut_Name = wn_name (ws_store s t), ut_LastChanged = wn_lastChanged (ws_store s t), ut_NumSessions = length m,
          ut_NumStreams = sum_list (map (\<lambda>x. ys_streams (ws_sessions s (fst x))) m)\<rparr>)"

section \<open>Dialing\<close>

definition v2_own_identity :: "v2_server \<Rightarrow> v3_tid \<Rightarrow> string" where
  "v2_own_identity s t =
     (if wt_LocalIdentity (wn_c (ws_store s t)) \<noteq> '''' then wt_LocalIdentity (wn_c (ws_store s t)) else wc_Identity (ws_c s))"

text \<open>The tunnel that serves the streams of a session: that of the identity the peer claims, or \<open>t\<close>.\<close>

definition v2_peer_tunnel :: "v2_server \<Rightarrow> v3_tid \<Rightarrow> string \<Rightarrow> v3_tid" where
  "v2_peer_tunnel s t identity =
     (if identity \<noteq> '''' then case v2_findTunnel s identity of Some tun \<Rightarrow> tun | None \<Rightarrow> t else t)"

record v2_conn_env =
  we_locked :: bool        \<comment> \<open>another dial of this tunnel is in progress\<close>
  we_connect :: bool
  we_deadline :: bool
  we_write :: bool
  we_input :: bytes
  we_mux :: bool
  we_go :: bool
  we_sid :: v3_sid
  we_lbl :: string
  we_now :: go_time

text \<open>\<^verbatim>\<open>dial\<close>: the session with the tunnel that serves it, what became of a connection that was made, and whether that is encrypted.
  The session is registered with the tunnel that dialed.\<close>

definition v2_dial ::
  "v2_codec \<Rightarrow> v2_conn_env \<Rightarrow> v3_tid \<Rightarrow> v2_server \<Rightarrow> (v2_error + v3_sid \<times> v3_tid) \<times> (conn_fate \<times> bool) option \<times> v2_server" where
  "v2_dial j e t s =
     (if we_locked e then (Inl V2DialInProgress, None, s)
      else case v2_getMux s t of
             Some mux \<Rightarrow> (Inr (mux, t), None, s)
           | None \<Rightarrow>
               if wt_MuxDial (wn_c (ws_store s t)) = '''' then (Inl V2NoDialAddress, None, s)
               else if \<not> we_connect e then (Inl V2DialFailed, None, s)
               else
                 let enc = (ws_tlscfg s \<noteq> None)
                 in if \<not> we_deadline e then (Inl V2DeadlineFailed, Some (ConnDropped, enc), s)
                    else case fst (v2_RunHandshake j (we_write e) (we_input e) (v2_own_identity s t)) of
                           Inl x \<Rightarrow> (Inl (V2HandshakeFailed x), Some (ConnDropped, enc), s)
                         | Inr identity \<Rightarrow>
                             if \<not> we_mux e then (Inl V2MuxFailed, Some (ConnDropped, enc), s)
                             else
                               let s = s\<lparr>ws_sessions := (ws_sessions s)(we_sid e := \<lparr>ys_closed = False, ys_streams = 0\<rparr>)\<rparr>;
                                   tun = v2_peer_tunnel s t identity;
                                   s = v2_addMux (we_now e) t (we_sid e) (we_lbl e) s
                               in if \<not> we_go e then (Inl V2GroupClosed, Some (ConnClosed, enc), v2_closeSession (we_sid e) s)
                                  else (Inr (we_sid e, tun), Some (ConnOpen, enc), s))"

definition v2_MuxDial ::
  "v2_codec \<Rightarrow> v2_conn_env \<Rightarrow> bool \<Rightarrow> v3_tid \<Rightarrow> v2_server \<Rightarrow> (v2_error + v3_sid) \<times> (conn_fate \<times> bool) option \<times> v2_server" where
  "v2_MuxDial j e opens t s =
     (case v2_getMux s t of
        Some m \<Rightarrow> (if opens then Inr m else Inl V2OpenFailed, None, s)
      | None \<Rightarrow>
          (case v2_dial j e t s of
             (Inl x, fate, s) \<Rightarrow> (Inl x, fate, s)
           | (Inr (m, _), fate, s) \<Rightarrow> (if opens then Inr m else Inl V2OpenFailed, fate, s)))"

definition v2_redial :: "v2_codec \<Rightarrow> v2_conn_env \<Rightarrow> v3_tid \<Rightarrow> v2_server \<Rightarrow> (conn_fate \<times> bool) option \<times> v2_server" where
  "v2_redial j e t s =
     (case withTimeout (ws_timeout s) (ws_ctx s) of
        (None, _) \<Rightarrow> (None, s)
      | (Some c, m) \<Rightarrow>
          (case v2_dial j e t (s\<lparr>ws_ctx := m\<rparr>) of
             (r, fate, s) \<Rightarrow>
               let s = s\<lparr>ws_ctx := cancel c (ws_ctx s)\<rparr>
               in (fate,
                   if (case r of Inl x \<Rightarrow> x \<noteq> V2NoDialAddress \<and> x \<noteq> V2DialInProgress | Inr _ \<Rightarrow> False)
                   then v2_upd t (\<lambda>x. x\<lparr>wn_redialCount := max (wn_redialCount x) (wrap64 (wn_redialCount x + 1))\<rparr>) s
                   else v2_upd t (\<lambda>x. x\<lparr>wn_redialCount := 0\<rparr>) s)))"

definition v2_waitTimeConst :: "go_duration list" where
  "v2_waitTimeConst = [200000000, 2 * second, 2 * second, 5 * second, 5 * second, 60 * second, 120 * second, 300 * second]"

text \<open>\<^const>\<open>None\<close> is a channel that never delivers.\<close>

definition v2_scheduleRedial :: "v2_server \<Rightarrow> v3_tid \<Rightarrow> go_duration option" where
  "v2_scheduleRedial s t =
     (let n = wn_redialCount (ws_store s t)
      in if \<not> wc_Redial (ws_c s) \<or> wt_MuxDial (wn_c (ws_store s t)) = '''' \<or> n < 1 then None
         else Some (if n - 1 < int (length v2_waitTimeConst) then v2_waitTimeConst ! nat (n - 1) else last v2_waitTimeConst))"

text \<open>The deferred function of \<^verbatim>\<open>run\<close>.\<close>

definition v2_run_exit :: "v3_tid \<Rightarrow> v2_server \<Rightarrow> v2_server" where
  "v2_run_exit t s =
     v2_upd t (\<lambda>x. x\<lparr>wn_mux := [], wn_running := False\<rparr>) (fold v2_closeSession (map fst (wn_mux (ws_store s t))) s)"

section \<open>Handlers\<close>

definition v2_halfOpen_add :: "u32 \<Rightarrow> v3_tid \<Rightarrow> v2_server \<Rightarrow> v2_server" where
  "v2_halfOpen_add n t s = v2_upd t (\<lambda>x. x\<lparr>wn_halfOpen := wn_halfOpen x + n\<rparr>) s"

definition v2_Stats4Listener :: "v2_server \<Rightarrow> v3_tid \<Rightarrow> u32 \<times> u32" where
  "v2_Stats4Listener s t = (ws_numSessions s, wn_halfOpen (ws_store s t))"

text \<open>\<^verbatim>\<open>TLSHandler.Serve\<close> between the two changes of \<^verbatim>\<open>halfOpen\<close>; the session is registered with the tunnel of the peer.\<close>

definition v2_TLS_body ::
  "v2_codec \<Rightarrow> v2_conn_env \<Rightarrow> v3_tid \<Rightarrow> v2_server \<Rightarrow> (v3_sid \<times> v3_tid) option \<times> (conn_fate \<times> bool) \<times> v2_server" where
  "v2_TLS_body j e t s =
     (let enc = (ws_tlscfg s \<noteq> None)
      in if \<not> we_deadline e then (None, (ConnDropped, enc), s)
         else case fst (v2_RunHandshake j (we_write e) (we_input e) (v2_own_identity s t)) of
                Inl _ \<Rightarrow> (None, (ConnDropped, enc), s)
              | Inr identity \<Rightarrow>
                  if \<not> we_mux e then (None, (ConnDropped, enc), s)
                  else
                    let s = s\<lparr>ws_sessions := (ws_sessions s)(we_sid e := \<lparr>ys_closed = False, ys_streams = 0\<rparr>), ws_authorized := ws_authorized s + 1\<rparr>;
                        tun = v2_peer_tunnel s t identity;
                        s = v2_addMux (we_now e) tun (we_sid e) (we_lbl e) s
                    in if \<not> we_go e then (None, (ConnClosed, enc), v2_closeSession (we_sid e) s)
                       else (Some (we_sid e, tun), (ConnOpen, enc), s))"

definition v2_TLS_Serve ::
  "v2_codec \<Rightarrow> v2_conn_env \<Rightarrow> v3_tid \<Rightarrow> v2_server \<Rightarrow> (v3_sid \<times> v3_tid) option \<times> (conn_fate \<times> bool) \<times> v2_server" where
  "v2_TLS_Serve j e t s =
     (case v2_TLS_body j e t (v2_halfOpen_add 1 t s) of (m, fate, s) \<Rightarrow> (m, fate, v2_halfOpen_add (- 1) t s))"

definition v2_Forward_Serve :: "bool \<Rightarrow> bool \<Rightarrow> v2_server \<Rightarrow> conn_fate \<times> conn_fate option \<times> v2_server" where
  "v2_Forward_Serve dials fwd s =
     (let s = s\<lparr>ws_request := ws_request s + 1\<rparr>
      in if \<not> dials then (ConnClosed, None, s)
         else if \<not> fwd then (ConnClosed, Some ConnClosed, s)
         else (ConnOpen, Some ConnOpen, s\<lparr>ws_success := ws_success s + 1\<rparr>))"

definition v2_Tunnel_Serve ::
  "v2_codec \<Rightarrow> v2_conn_env \<Rightarrow> bool \<Rightarrow> bool \<Rightarrow> v3_tid \<Rightarrow> v2_server
    \<Rightarrow> (conn_fate \<times> (v3_sid \<times> conn_fate) option) \<times> (conn_fate \<times> bool) option \<times> v2_server" where
  "v2_Tunnel_Serve j e opens fwd t s =
     (case v2_MuxDial j e opens t s of
        (Inl _, fate, s) \<Rightarrow> ((ConnClosed, None), fate, s)
      | (Inr m, fate, s) \<Rightarrow>
          if \<not> fwd then ((ConnClosed, Some (m, ConnClosed)), fate, s) else ((ConnOpen, Some (m, ConnOpen)), fate, s))"

definition v2_Empty_Serve :: "v2_server \<Rightarrow> conn_fate \<times> v2_server" where
  "v2_Empty_Serve s = (ConnClosed, s)"

text \<open>\<^verbatim>\<open>serveOne\<close> with a handler that does not panic.\<close>

definition v2_serveOne :: "(v2_server \<Rightarrow> conn_fate \<times> v2_server) \<Rightarrow> v2_server \<Rightarrow> conn_fate \<times> v2_server" where
  "v2_serveOne handler s =
     (case withTimeout (ws_timeout s) (ws_ctx s) of
        (None, _) \<Rightarrow> (ConnDropped, s)
      | (Some c, m) \<Rightarrow> (case handler (s\<lparr>ws_ctx := m\<rparr>) of (fate, s) \<Rightarrow> (fate, s\<lparr>ws_ctx := cancel c (ws_ctx s)\<rparr>)))"

text \<open>The accept loop: each connection is handled before the next one is accepted.  An error of \<^verbatim>\<open>Accept\<close> ends it.\<close>

fun v2_Serve :: "(v2_server \<Rightarrow> conn_fate \<times> v2_server) option list \<Rightarrow> v2_server \<Rightarrow> conn_fate list \<times> bool \<times> v2_server" where
  "v2_Serve [] s = ([], False, s)"
| "v2_Serve (None # as) s = ([], True, s)"
| "v2_Serve (Some h # as) s =
     (let (fate, s) = v2_serveOne h s; (fates, done, s) = v2_Serve as s in (fate # fates, done, s))"


section \<open>The server\<close>

text \<open>\<^verbatim>\<open>Listen\<close>: the listener is remembered by its address.\<close>

definition v2_Listen :: "(string set \<Rightarrow> string \<Rightarrow> bool) \<Rightarrow> string \<Rightarrow> v2_server \<Rightarrow> nat option \<times> v2_server" where
  "v2_Listen bind a s =
     (if bind (snd ` set (ws_sockets s)) a
      then (Some (ws_nextSocket s),
            s\<lparr>ws_sockets := ws_sockets s @ [(ws_nextSocket s, a)], ws_nextSocket := ws_nextSocket s + 1,
              ws_listeners := dict_put a (ws_nextSocket s) (ws_listeners s)\<rparr>)
      else (None, s))"

text \<open>\<^verbatim>\<open>Start\<close> of a tunnel: \<open>go n\<close> is whether the group starts its \<open>n\<close>th goroutine.\<close>

definition v2_tunnel_Start ::
  "(string set \<Rightarrow> string \<Rightarrow> bool) \<Rightarrow> (nat \<Rightarrow> bool) \<Rightarrow> v3_tid \<Rightarrow> v2_server \<Rightarrow> v2_error option \<times> v2_server" where
  "v2_tunnel_Start bind go t s =
     (let c = wn_c (ws_store s t);
          run = (\<lambda>s. if go 2 then (None, v2_upd t (\<lambda>x. x\<lparr>wn_running := True\<rparr>) s) else (Some V2GroupClosed, s));
          fwd = (\<lambda>s. if wt_Listen c = '''' then run s
                     else case v2_Listen bind (wt_Listen c) s of
                            (None, s) \<Rightarrow> (Some (V2ListenFailed (wt_Listen c)), s)
                          | (Some l, s) \<Rightarrow> if go 1 then run s else (Some V2GroupClosed, s))
      in if wt_MuxListen c = '''' then fwd s
         else case v2_Listen bind (wt_MuxListen c) s of
                (None, s) \<Rightarrow> (Some (V2ListenFailed (wt_MuxListen c)), s)
              | (Some l, s) \<Rightarrow>
                  let s = v2_upd t (\<lambda>x. x\<lparr>wn_l := Some l\<rparr>) s in if go 0 then fwd s else (Some V2GroupClosed, s))"

text \<open>The identity a tunnel gets when it has none.\<close>

definition v2_default_identity :: "nat \<Rightarrow> v2_tunnel_cfg \<Rightarrow> v2_tunnel_cfg" where
  "v2_default_identity i c =
     (if wt_Identity c \<noteq> '''' then c
      else if wt_MuxListen c \<noteq> '''' then c\<lparr>wt_Identity := ''['' @ nat_digits i @ ''] '' @ wt_MuxListen c\<rparr>
      else if wt_MuxDial c \<noteq> '''' then c\<lparr>wt_Identity := ''['' @ nat_digits i @ ''] '' @ wt_MuxDial c\<rparr>
      else c)"

fun v2_start_tunnels ::
  "(string set \<Rightarrow> string \<Rightarrow> bool) \<Rightarrow> (nat \<Rightarrow> nat \<Rightarrow> bool) \<Rightarrow> nat \<Rightarrow> v2_tunnel_cfg list \<Rightarrow> v2_server \<Rightarrow> v2_error option \<times> v2_server" where
  "v2_start_tunnels bind go i [] s = (None, s)"
| "v2_start_tunnels bind go i (c # cs) s =
     (let c = v2_default_identity i c;
          s = s\<lparr>ws_c := (ws_c s)\<lparr>wc_Tunnels := (wc_Tunnels (ws_c s))[i := c]\<rparr>\<rparr>
      in if wt_Identity c = '''' then v2_start_tunnels bind go (i + 1) cs s
         else if v2_findTunnel s (wt_Identity c) \<noteq> None then (Some (V2Redefined i (wt_Identity c)), s)
         else
           (case v2_addTunnel c s of
              (t, s) \<Rightarrow>
                (case v2_tunnel_Start bind (go i) t s of
                   (Some e, s) \<Rightarrow> (Some e, s)
                 | (None, s) \<Rightarrow> v2_start_tunnels bind go (i + 1) cs s)))"

definition v2_Start ::
  "(string set \<Rightarrow> string \<Rightarrow> bool) \<Rightarrow> bool \<Rightarrow> (nat \<Rightarrow> nat \<Rightarrow> bool) \<Rightarrow> v2_server \<Rightarrow> v2_error option \<times> v2_server" where
  "v2_Start bind go_http go s =
     (let (r, s) =
            (if wc_HTTPListen (ws_c s) = '''' then (None, s)
             else case v2_Listen bind (wc_HTTPListen (ws_c s)) s of
                    (None, s) \<Rightarrow> (Some (V2ListenFailed (wc_HTTPListen (ws_c s))), s)
                  | (Some _, s) \<Rightarrow> if go_http then (None, s) else (Some V2GroupClosed, s))
      in case r of Some e \<Rightarrow> (Some e, s) | None \<Rightarrow> v2_start_tunnels bind go 0 (wc_Tunnels (ws_c s)) s)"

text \<open>\<^verbatim>\<open>Shutdown\<close> up to the wait; the forwarder, which it closes too, is the subject of \<^verbatim>\<open>V2_Forwarder\<close>.\<close>

definition v2_Shutdown :: "v2_server \<Rightarrow> v2_server" where
  "v2_Shutdown s =
     s\<lparr>ws_sockets := filter (\<lambda>x. fst x \<notin> snd ` set (ws_listeners s)) (ws_sockets s), ws_listeners := [],
       ws_ctx := close (ws_ctx s), ws_groupClosed := True\<rparr>"

definition v2_LoadConfig ::
  "(string \<Rightarrow> string \<Rightarrow> string option) \<Rightarrow> (string \<Rightarrow> string option) \<Rightarrow> (string \<Rightarrow> string list) \<Rightarrow> v2_config \<Rightarrow> v2_server
    \<Rightarrow> v2_error option \<times> v2_server" where
  "v2_LoadConfig load_pair read_file pem_certs cfg s =
     (let cfg = cfg\<lparr>wc_Tunnels := wc_Tunnels (ws_c s)\<rparr>
      in case v2_NewTLSConfig load_pair read_file pem_certs (wc_ServerName cfg) cfg of
           Inl e \<Rightarrow> (Some (V2TLS e), s)
         | Inr tls \<Rightarrow>
             (None, s\<lparr>ws_c := cfg, ws_tlscfg := tls, ws_muxcfg := Some (v2_NewMuxConfig cfg False),
                      ws_servermuxcfg := Some (v2_NewMuxConfig cfg True)\<rparr>))"

record v2_server_stats =
  us_NumSessions :: nat
  us_NumStreams :: nat
  us_Rx :: u64
  us_Tx :: u64
  us_Accepted :: u64
  us_Served :: u64
  us_Authorized :: u64
  us_ReqTotal :: u64
  us_ReqSuccess :: u64
  us_tunnels :: "v2_tunnel_stats list"

text \<open>\<open>lstats\<close> are the counters of a listener, \<open>flow\<close> those of the flow meter.\<close>

definition v2_server_Stats :: "(nat \<Rightarrow> u64 \<times> u64) \<Rightarrow> u64 \<times> u64 \<Rightarrow> v2_server \<Rightarrow> v2_server_stats" where
  "v2_server_Stats lstats flow s =
     (let ids = map snd (ws_tunnels s);
          ts = map (v2_tunnel_Stats s) ids;
          ls = map (\<lambda>t. case wn_l (ws_store s t) of None \<Rightarrow> (0, 0) | Some l \<Rightarrow> lstats l) ids
      in \<lparr>us_NumSessions = sum_list (map ut_NumSessions ts), us_NumStreams = sum_list (map ut_NumStreams ts), us_Rx = fst flow, us_Tx = snd flow,
          us_Accepted = sum_list (map fst ls), us_Served = sum_list (map snd ls), us_Authorized = ws_authorized s,
          us_ReqTotal = ws_request s, us_ReqSuccess = ws_success s, us_tunnels = ts\<rparr>)"


section \<open>The counter of sessions\<close>

definition v2_registered :: "v2_server \<Rightarrow> nat" where
  "v2_registered s = (\<Sum>t < ws_next s. length (wn_mux (ws_store s t)))"

interpretation v2_sessions: counted_sessions ws_next "\<lambda>s t. wn_mux (ws_store s t)" ws_numSessions v2_set_mux
  by unfold_locales (auto simp: v2_set_mux_def v2_upd_def)

text \<open>Steps of a server in any order.  Tunnels that a session refers to exist.\<close>

inductive v2_step :: "nat \<Rightarrow> v2_server \<Rightarrow> v2_server \<Rightarrow> bool" where
  Start: "v2_Start bind gh go s = (r, s') \<Longrightarrow> v2_step 0 s s'"
| Load: "v2_LoadConfig lp rf pc cfg s = (r, s') \<Longrightarrow> v2_step 0 s s'"
| Shutdown: "v2_step 0 s (v2_Shutdown s)"
| Accept: "t < ws_next s \<Longrightarrow> v2_TLS_Serve j e t s = (m, fate, s') \<Longrightarrow> v2_step 0 s s'"
| Stream: "v2_Forward_Serve dials fwd s = (fate, d, s') \<Longrightarrow> v2_step 0 s s'"
| Local: "t < ws_next s \<Longrightarrow> v2_Tunnel_Serve j e opens fwd t s = (r, fate, s') \<Longrightarrow> v2_step 0 s s'"
| Redial: "t < ws_next s \<Longrightarrow> v2_redial j e t s = (fate, s') \<Longrightarrow> v2_step 0 s s'"
| End: "t < ws_next s \<Longrightarrow> v2_step 0 s (v2_delMux now t mux s)"
| Closed: "v2_step 0 s (v2_closeSession mux s)"
| Streams: "v2_step 0 s (s\<lparr>ws_sessions := (ws_sessions s)(mux := (ws_sessions s mux)\<lparr>ys_streams := n\<rparr>)\<rparr>)"
| Wake: "v2_step 0 s (v2_upd t (\<lambda>x. x\<lparr>wn_redialSig := False\<rparr>) s)"
| Exit: "t < ws_next s \<Longrightarrow> wn_running (ws_store s t) \<Longrightarrow> ws_groupClosed s \<Longrightarrow> v2_step (length (wn_mux (ws_store s t))) s (v2_run_exit t s)"

inductive v2_run :: "nat \<Rightarrow> v2_server \<Rightarrow> v2_server \<Rightarrow> bool" where
  refl: "v2_run 0 s s"
| trans: "v2_run k s u \<Longrightarrow> v2_step n u s' \<Longrightarrow> v2_run (k + n) s s'"

lemma v2_simps [simp]:
  "ws_next (v2_upd t f s) = ws_next s" "ws_numSessions (v2_upd t f s) = ws_numSessions s"
  "ws_next (v2_closeSession m s) = ws_next s" "ws_numSessions (v2_closeSession m s) = ws_numSessions s"
  "ws_store (v2_closeSession m s) = ws_store s" "ws_tunnels (v2_closeSession m s) = ws_tunnels s" "ws_tunnels (v2_upd t f s) = ws_tunnels s"
  "ws_next (v2_set_mux t mx s) = ws_next s" "ws_tunnels (v2_set_mux t mx s) = ws_tunnels s"
  "ws_groupClosed (v2_set_mux t mx s) = ws_groupClosed s" "ws_groupClosed (v2_upd t f s) = ws_groupClosed s"
  "ws_groupClosed (v2_closeSession m s) = ws_groupClosed s"
  by (simp_all add: v2_upd_def v2_closeSession_def v2_set_mux_def)

lemma v2_frame_upd: "(\<And>x. wn_mux (f x) = wn_mux x) \<Longrightarrow> v2_sessions.frame s (v2_upd t f s)"
  by (rule v2_sessions.frame_same) (simp_all add: v2_upd_def)

text \<open>What the steps keep: the counter, that the map refers to existing tunnels, and that sessions are only lost after the
  group is closed.\<close>

definition v2_inv :: "nat \<Rightarrow> v2_server \<Rightarrow> bool" where
  "v2_inv k s \<longleftrightarrow> v2_sessions.counts k s \<and> (\<forall>t \<in> snd ` set (ws_tunnels s). t < ws_next s)
     \<and> (k = 0 \<or> ws_groupClosed s)"

lemma inv_frame:
  assumes "v2_inv k s" "v2_sessions.frame s s'" "\<forall>t \<in> snd ` set (ws_tunnels s'). t < ws_next s'"
    "ws_groupClosed s' = ws_groupClosed s"
  shows "v2_inv k s'"
  using assms v2_sessions.frame_counts by (simp add: v2_inv_def)

lemma inv_same:
  assumes "v2_inv k s" "ws_next s' = ws_next s" "ws_numSessions s' = ws_numSessions s" "\<And>t. wn_mux (ws_store s' t) = wn_mux (ws_store s t)"
    "ws_tunnels s' = ws_tunnels s" "ws_groupClosed s' = ws_groupClosed s"
  shows "v2_inv k s'"
  by (rule inv_frame [OF assms(1)]) (use assms in \<open>auto simp: v2_inv_def intro!: v2_sessions.frame_same\<close>)

lemma inv_upd: "v2_inv k s \<Longrightarrow> (\<And>x. wn_mux (f x) = wn_mux x) \<Longrightarrow> v2_inv k (v2_upd t f s)"
  by (rule inv_same) (simp_all add: v2_upd_def)

lemma inv_set_mux: "v2_inv k s \<Longrightarrow> t < ws_next s \<Longrightarrow> v2_inv k (v2_set_mux t m s)"
  using v2_sessions.counts_store by (simp add: v2_inv_def)

lemma inv_addMux: "v2_inv k s \<Longrightarrow> t < ws_next s \<Longrightarrow> v2_inv k (v2_addMux now t mux lbl s)"
  unfolding v2_addMux_def by (intro inv_upd inv_set_mux) auto

lemma inv_delMux: "v2_inv k s \<Longrightarrow> t < ws_next s \<Longrightarrow> v2_inv k (v2_delMux now t mux s)"
  unfolding v2_delMux_def by (intro inv_upd inv_set_mux) auto

lemma inv_closeSession: "v2_inv k s \<Longrightarrow> v2_inv k (v2_closeSession m s)"
  by (rule inv_same) simp_all

lemma peer_tunnel_exists: "v2_inv k s \<Longrightarrow> t < ws_next s \<Longrightarrow> v2_peer_tunnel s t identity < ws_next s"
  by (auto simp: v2_inv_def v2_peer_tunnel_def v2_findTunnel_def image_iff split: option.split dest!: map_of_SomeD)


lemma inv_dial:
  assumes "v2_dial j e t s = (r, fate, s')" "v2_inv k s" "t < ws_next s"
  shows "v2_inv k s' \<and> ws_next s' = ws_next s"
proof -
  let ?u = "s\<lparr>ws_sessions := (ws_sessions s)(we_sid e := \<lparr>ys_closed = False, ys_streams = 0\<rparr>)\<rparr>"
  let ?v = "v2_addMux (we_now e) t (we_sid e) (we_lbl e) ?u"
  have "s' = s \<or> s' = ?v \<or> s' = v2_closeSession (we_sid e) ?v"
    using assms(1) by (auto simp: v2_dial_def Let_def split: if_splits option.splits sum.splits)
  moreover have "v2_inv k ?u" by (rule inv_same [OF assms(2)]) simp_all
  ultimately show ?thesis using assms(2,3) inv_addMux [of k ?u t] inv_closeSession by (auto simp: v2_addMux_def)
qed

lemma inv_redial:
  assumes "v2_redial j e t s = (fate, s')" "v2_inv k s" "t < ws_next s"
  shows "v2_inv k s'"
proof (cases "fst (withTimeout (ws_timeout s) (ws_ctx s))")
  case None
  then show ?thesis using assms by (auto simp: v2_redial_def split: prod.splits)
next
  case (Some c)
  then obtain m where w: "withTimeout (ws_timeout s) (ws_ctx s) = (Some c, m)" by (metis prod.collapse)
  obtain q f u where d: "v2_dial j e t (s\<lparr>ws_ctx := m\<rparr>) = (q, f, u)" using prod_cases3 by blast
  have "v2_inv k u" using inv_dial [OF d] inv_same [OF assms(2)] assms(3) by simp
  then have "v2_inv k (u\<lparr>ws_ctx := x\<rparr>)" for x by (rule inv_same) simp_all
  then show ?thesis using assms(1) by (auto simp: v2_redial_def w d Let_def intro!: inv_upd split: if_splits)
qed

lemma inv_Local:
  assumes "v2_Tunnel_Serve j e opens fwd t s = (r, fate, s')" "v2_inv k s" "t < ws_next s"
  shows "v2_inv k s'"
  using assms inv_dial [of j e t s]
  by (auto simp: v2_Tunnel_Serve_def v2_MuxDial_def split: prod.splits sum.splits option.splits if_splits)

lemma inv_TLS:
  assumes "v2_TLS_Serve j e t s = (m, fate, s')" "v2_inv k s" "t < ws_next s"
  shows "v2_inv k s'"
proof -
  let ?s = "v2_halfOpen_add 1 t s"
  obtain u where b: "v2_TLS_body j e t ?s = (m, fate, u)" "s' = v2_halfOpen_add (- 1) t u"
    using assms(1) by (auto simp: v2_TLS_Serve_def split: prod.splits)
  have s: "v2_inv k ?s" "t < ws_next ?s" using assms(2,3) by (auto simp: v2_halfOpen_add_def intro: inv_upd)
  let ?u = "?s\<lparr>ws_sessions := (ws_sessions ?s)(we_sid e := \<lparr>ys_closed = False, ys_streams = 0\<rparr>), ws_authorized := ws_authorized ?s + 1\<rparr>"
  have u: "v2_inv k ?u" by (rule inv_same [OF s(1)]) simp_all
  have "u = ?s \<or> (\<exists>i. u = v2_addMux (we_now e) (v2_peer_tunnel ?u t i) (we_sid e) (we_lbl e) ?u
      \<or> u = v2_closeSession (we_sid e) (v2_addMux (we_now e) (v2_peer_tunnel ?u t i) (we_sid e) (we_lbl e) ?u))"
    using b(1) by (auto simp: v2_TLS_body_def Let_def split: if_splits sum.splits)
  then have "v2_inv k u" using s u peer_tunnel_exists [OF u] inv_addMux [OF u] inv_closeSession by auto
  then show ?thesis unfolding b(2) v2_halfOpen_add_def by (rule inv_upd) simp
qed

lemma Listen_same:
  "v2_Listen bind a s = (r, s') \<Longrightarrow> ws_next s' = ws_next s \<and> ws_numSessions s' = ws_numSessions s \<and> ws_store s' = ws_store s
     \<and> ws_tunnels s' = ws_tunnels s \<and> ws_groupClosed s' = ws_groupClosed s"
  by (auto simp: v2_Listen_def split: if_splits)

lemma inv_tunnel_Start:
  assumes "v2_tunnel_Start bind go t s = (r, s')" "v2_inv k s"
  shows "v2_inv k s'"
proof -
  have "ws_next s' = ws_next s \<and> ws_numSessions s' = ws_numSessions s \<and> ws_tunnels s' = ws_tunnels s
      \<and> ws_groupClosed s' = ws_groupClosed s \<and> (\<forall>i. wn_mux (ws_store s' i) = wn_mux (ws_store s i))"
    using assms(1) by (auto simp: v2_tunnel_Start_def v2_Listen_def v2_upd_def Let_def split: if_splits)
  then show ?thesis using inv_same [OF assms(2)] by simp
qed

lemma inv_addTunnel: "v2_addTunnel c s = (t, s') \<Longrightarrow> v2_inv k s \<Longrightarrow> v2_inv k s'"
proof -
  assume a: "v2_addTunnel c s = (t, s')" and i: "v2_inv k s"
  have s': "s' = s\<lparr>ws_store := (ws_store s)(ws_next s := v2_NewTunnel c), ws_next := ws_next s + 1,
                   ws_tunnels := dict_put (wt_Identity c) (ws_next s) (ws_tunnels s)\<rparr>" using a by (auto simp: v2_addTunnel_def)
  have vals: "snd ` set (dict_put x v d) \<subseteq> insert v (snd ` set d)" for x and v :: nat and d by (induction x v d rule: dict_put.induct) auto
  have "v2_sessions.frame s s'" by (auto simp: s' v2_sessions.frame_def v2_NewTunnel_def)
  moreover have "\<forall>t \<in> snd ` set (ws_tunnels s'). t < ws_next s'"
    using i vals [of "wt_Identity c" "ws_next s" "ws_tunnels s"] by (force simp: s' v2_inv_def)
  moreover have "ws_groupClosed s' = ws_groupClosed s" by (simp add: s')
  ultimately show ?thesis using inv_frame [OF i] by blast
qed

lemma inv_start_tunnels: "v2_start_tunnels bind go i cs s = (r, s') \<Longrightarrow> v2_inv k s \<Longrightarrow> v2_inv k s'"
proof (induction cs arbitrary: i s)
  case (Cons c cs)
  let ?c = "v2_default_identity i c"
  let ?s = "s\<lparr>ws_c := (ws_c s)\<lparr>wc_Tunnels := (wc_Tunnels (ws_c s))[i := ?c]\<rparr>\<rparr>"
  have s: "v2_inv k ?s" by (rule inv_same [OF Cons.prems(2)]) simp_all
  obtain t u where a: "v2_addTunnel ?c ?s = (t, u)" by fastforce
  obtain q v where st: "v2_tunnel_Start bind (go i) t u = (q, v)" by fastforce
  have "v2_inv k v" using inv_tunnel_Start [OF st inv_addTunnel [OF a s]] .
  then show ?case using Cons.prems(1) Cons.IH [of "i + 1" v] Cons.IH [of "i + 1" ?s] s
    by (auto simp: Let_def a st split: if_splits option.splits)
qed simp


lemma inv_Start:
  assumes "v2_Start bind gh go s = (r, s')" "v2_inv k s"
  shows "v2_inv k s'"
proof -
  obtain q u where l: "v2_Listen bind (wc_HTTPListen (ws_c s)) s = (q, u)" by fastforce
  have u: "v2_inv k u" using Listen_same [OF l] inv_same [OF assms(2)] by simp
  show ?thesis
  proof (cases "wc_HTTPListen (ws_c s) = []")
    case True
    then show ?thesis using assms inv_start_tunnels by (auto simp: v2_Start_def)
  next
    case False
    then show ?thesis using assms(1) u inv_start_tunnels by (cases q) (auto simp: v2_Start_def l split: if_splits)
  qed
qed

lemma inv_Load: "v2_LoadConfig lp rf pc cfg s = (r, s') \<Longrightarrow> v2_inv k s \<Longrightarrow> v2_inv k s'"
  by (rule inv_same [of k s s']) (auto simp: v2_LoadConfig_def Let_def split: sum.splits)

lemma inv_exit:
  assumes "v2_inv k s" "t < ws_next s" "ws_groupClosed s"
  shows "v2_inv (k + length (wn_mux (ws_store s t))) (v2_run_exit t s)"
proof -
  have f: "ws_next (fold v2_closeSession ms u) = ws_next u" "ws_numSessions (fold v2_closeSession ms u) = ws_numSessions u"
      "ws_store (fold v2_closeSession ms u) = ws_store u" "ws_tunnels (fold v2_closeSession ms u) = ws_tunnels u"
      "ws_groupClosed (fold v2_closeSession ms u) = ws_groupClosed u" for ms u
    by (induction ms arbitrary: u) auto
  have "v2_sessions.counts (k + length (wn_mux (ws_store s t))) (v2_run_exit t s)"
    by (rule v2_sessions.counts_empty) (use assms in \<open>auto simp: v2_inv_def v2_run_exit_def v2_upd_def f\<close>)
  then show ?thesis using assms(1,3) by (simp add: v2_inv_def v2_run_exit_def f)
qed

lemma v2_step_inv: "v2_step n s s' \<Longrightarrow> v2_inv k s \<Longrightarrow> v2_inv (k + n) s'"
proof (induction rule: v2_step.induct)
  case (Shutdown s)
  then show ?case by (simp add: v2_inv_def v2_sessions.counts_def v2_sessions.registered_def v2_Shutdown_def)
next
  case (Stream dials fwd s fate d s')
  then show ?case by (auto simp: v2_Forward_Serve_def Let_def split: if_splits intro: inv_same)
next
  case (Streams s mux n)
  then show ?case by (simp add: inv_same [OF Streams])
qed (auto intro: inv_Start inv_Load inv_TLS inv_Local inv_redial inv_delMux inv_closeSession inv_upd inv_exit)

text \<open>(C34) The number of sessions that the limit of version 2 sees, over any interleaving of the server's steps from its creation: it is
  the number of sessions registered with tunnels, modulo \<open>2 ^ 32\<close>, as long as the server is not shut down; only the loops that end
  then forget their sessions without counting.\<close>

theorem v2_session_counter:
  assumes "v2_run lost (v2_NewServer cfg) s"
  shows "fst (v2_Stats4Listener s t) = of_nat (v2_registered s + lost) \<and> (\<not> ws_groupClosed s \<longrightarrow> lost = 0)"
proof -
  have "v2_inv 0 (v2_NewServer cfg)" by (simp add: v2_inv_def v2_NewServer_def v2_sessions.counts_def v2_sessions.registered_def)
  with assms have "v2_inv lost s" by (induction rule: v2_run.induct) (auto dest: v2_step_inv)
  then show ?thesis by (auto simp: v2_inv_def v2_sessions.counts_def v2_sessions.registered_def v2_Stats4Listener_def v2_registered_def)
qed


text \<open>A tunnel with an incoming session, before and after the session ends.\<close>

definition v2_demo_config :: v2_config where
  "v2_demo_config = v2_DefaultConfig\<lparr>wc_Tunnels := [\<lparr>wt_Identity = ''p'', wt_LocalIdentity = [], wt_MuxListen = '':1'', wt_MuxDial = [], wt_Listen = [], wt_Dial = []\<rparr>]\<rparr>"

definition v2_demo_codec :: v2_codec where
  "v2_demo_codec = \<lparr>wj_Marshal = \<lambda>_. Some [], wj_Unmarshal = \<lambda>_ _. Some ''p''\<rparr>"

definition v2_demo_env :: v2_conn_env where
  "v2_demo_env = \<lparr>we_locked = False, we_connect = True, we_deadline = True, we_write = True, we_input = [0, 0], we_mux = True, we_go = True,
     we_sid = 7, we_lbl = ''x'', we_now = 5\<rparr>"

definition v2_demo_1 :: v2_server where "v2_demo_1 = snd (v2_Start (\<lambda>_ _. True) True (\<lambda>_ _. True) (v2_NewServer v2_demo_config))"
definition v2_demo_2 :: v2_server where "v2_demo_2 = snd (snd (v2_TLS_Serve v2_demo_codec v2_demo_env 0 v2_demo_1))"

theorem v2_session_counter_witness:
  "v2_registered v2_demo_2 = 1 \<and> fst (v2_Stats4Listener v2_demo_2 0) = 1"
proof -
  have n: "0 < ws_next v2_demo_1" by code_simp
  have "v2_step 0 (v2_NewServer v2_demo_config) v2_demo_1" unfolding v2_demo_1_def by (rule v2_step.Start [OF prod.collapse [symmetric]])
  moreover have "v2_step 0 v2_demo_1 v2_demo_2" unfolding v2_demo_2_def
    using v2_step.Accept [OF n] by (metis prod.collapse)
  ultimately have "v2_run (0 + 0 + 0) (v2_NewServer v2_demo_config) v2_demo_2" by (metis v2_run.refl v2_run.trans)
  then have "fst (v2_Stats4Listener v2_demo_2 0) = of_nat (v2_registered v2_demo_2)" using v2_session_counter by fastforce
  moreover have "v2_registered v2_demo_2 = 1" by code_simp
  ultimately show ?thesis by simp
qed

section \<open>Starting the tunnels\<close>

text \<open>The identities of the tunnels that can be reached, in the order of the config.\<close>

fun v2_identities :: "nat \<Rightarrow> v2_tunnel_cfg list \<Rightarrow> string list" where
  "v2_identities i [] = []"
| "v2_identities i (c # cs) =
     (let x = wt_Identity (v2_default_identity i c) in (if x = [] then [] else [x]) @ v2_identities (i + 1) cs)"

lemma start_tunnels_spec:
  assumes "v2_start_tunnels bind go i cs s = (None, s')"
  shows "distinct (v2_identities i cs) \<and> set (v2_identities i cs) \<inter> dom (v2_findTunnel s) = {}
     \<and> dom (v2_findTunnel s') = dom (v2_findTunnel s) \<union> set (v2_identities i cs)"
  using assms
proof (induction cs arbitrary: i s)
  case (Cons c cs)
  let ?c = "v2_default_identity i c"
  let ?s = "s\<lparr>ws_c := (ws_c s)\<lparr>wc_Tunnels := (wc_Tunnels (ws_c s))[i := ?c]\<rparr>\<rparr>"
  have s: "v2_findTunnel ?s = v2_findTunnel s" by (simp add: fun_eq_iff v2_findTunnel_def)
  show ?case
  proof (cases "wt_Identity ?c = []")
    case True
    then show ?thesis using Cons.IH [of "i + 1" ?s] Cons.prems s by (simp add: Let_def)
  next
    case False
    obtain t u where a: "v2_addTunnel ?c ?s = (t, u)" by fastforce
    obtain q v where st: "v2_tunnel_Start bind (go i) t u = (q, v)" by fastforce
    have fresh: "v2_findTunnel s (wt_Identity ?c) = None" "q = None" "v2_start_tunnels bind go (i + 1) cs v = (None, s')"
      using Cons.prems False s by (auto simp: Let_def a st split: if_splits option.splits)
    have "ws_tunnels v = ws_tunnels u" using st
      by (auto simp: v2_tunnel_Start_def v2_Listen_def v2_upd_def Let_def split: if_splits)
    then have "v2_findTunnel v = (v2_findTunnel s)(wt_Identity ?c \<mapsto> t)"
      using a by (auto simp: v2_addTunnel_def v2_findTunnel_def dict_put_lookup fun_eq_iff)
    then show ?thesis using Cons.IH [OF fresh(3)] fresh(1) False by (auto simp: Let_def)
  qed
qed simp

text \<open>A successful start of version 2: the identities of the tunnels that can be reached, given or made up from index and address, are
  pairwise different, and exactly these tunnels are in the map.\<close>

theorem v2_start_identities:
  assumes "v2_Start bind gh go (v2_NewServer cfg) = (None, s)"
  shows "distinct (v2_identities 0 (wc_Tunnels cfg)) \<and> dom (v2_findTunnel s) = set (v2_identities 0 (wc_Tunnels cfg))"
proof -
  obtain u where u: "v2_start_tunnels bind go 0 (wc_Tunnels cfg) u = (None, s)" "ws_tunnels u = []"
    using assms by (auto simp: v2_Start_def v2_NewServer_def v2_Listen_def split: if_splits prod.splits option.splits)
  have "dom (v2_findTunnel u) = {}" using u(2) by (simp add: v2_findTunnel_def dom_def)
  then show ?thesis using start_tunnels_spec [OF u(1)] by auto
qed

theorem v2_start_identities_witness:
  "v2_findTunnel v2_demo_1 ''p'' \<noteq> None"
proof -
  have "fst (v2_Start (\<lambda>_ _. True) True (\<lambda>_ _. True) (v2_NewServer v2_demo_config)) = None" by code_simp
  then have "v2_Start (\<lambda>_ _. True) True (\<lambda>_ _. True) (v2_NewServer v2_demo_config) = (None, v2_demo_1)"
    by (simp add: v2_demo_1_def prod_eq_iff)
  from v2_start_identities [OF this] have "dom (v2_findTunnel v2_demo_1) = set (v2_identities 0 (wc_Tunnels v2_demo_config))" by simp
  moreover have "''p'' \<in> set (v2_identities 0 (wc_Tunnels v2_demo_config))" by code_simp
  ultimately show ?thesis by blast
qed

section \<open>Corner cases\<close>

text \<open>After a config with a damaged file of authorized certificates was loaded without an error, every connection that is dialed or
  accepted is in the clear.\<close>

lemma v2_plaintext_after_load:
  assumes "v2_LoadConfig lp rf pc cfg s = (None, s')" and "lp (wc_Certificate cfg) (wc_PrivateKey cfg) \<noteq> None"
    and "wc_AuthorizedCerts cfg = path # ps" and "rf path \<noteq> None" and "\<not> holds_certs rf pc path"
  shows "ws_tlscfg s' = None"
    and "v2_dial j e t s' = (r, Some (fate, enc), s'') \<Longrightarrow> \<not> enc" and "v2_TLS_Serve j e t s' = (m, (fate, enc), s'') \<Longrightarrow> \<not> enc"
proof -
  have "v2_NewTLSConfig lp rf pc sni (cfg\<lparr>wc_Tunnels := ts\<rparr>) = Inr None" for sni ts
    unfolding v2_tls_off_iff using assms(2-5) by (auto simp: Let_def intro: exI [of _ 0])
  then show t: "ws_tlscfg s' = None" using assms(1) by (auto simp: v2_LoadConfig_def Let_def)
  show "\<not> enc" if "v2_dial j e t s' = (r, Some (fate, enc), s'')"
    using that t by (auto simp: v2_dial_def Let_def split: if_splits option.splits sum.splits)
  show "\<not> enc" if "v2_TLS_Serve j e t s' = (m, (fate, enc), s'')"
    using that t by (auto simp: v2_TLS_Serve_def v2_TLS_body_def v2_halfOpen_add_def v2_upd_def Let_def split: if_splits sum.splits prod.splits)
qed

text \<open>The loop dials when it starts and after each lost session, also when the config asks not to redial.\<close>

lemma v2_redial_ignores_flag:
  assumes "\<not> wc_Redial (ws_c s)" and "contexts (ws_ctx s) \<noteq> None" and "\<not> we_locked e" and "v2_getMux s t = None"
    and "wt_MuxDial (wn_c (ws_store s t)) \<noteq> []" and "we_connect e"
  shows "fst (v2_redial j e t s) \<noteq> None"
proof -
  obtain c m where w: "withTimeout (ws_timeout s) (ws_ctx s) = (Some c, m)" using assms(2) by (auto simp: withTimeout_def)
  have "fst (snd (v2_dial j e t (s\<lparr>ws_ctx := m\<rparr>))) \<noteq> None"
    using assms(3-6) by (simp add: v2_dial_def v2_getMux_def Let_def split: sum.split)
  then show ?thesis by (auto simp: v2_redial_def w Let_def split: prod.splits)
qed

end
