(* ===== verification/V2_App.thy ===== *)
theory V2_App
  imports V2_Server App
begin

text \<open>
  The process of version 2, \<^verbatim>\<open>v2/cmd/tlswrapper/main.go\<close>, with the config endpoint of \<^verbatim>\<open>v2/metric.go\<close>: start-up, the loop over signals
  and requests, in any order.
\<close>

section \<open>Start-up\<close>

record v2_env =
  wv_json :: "string \<Rightarrow> v2_config \<Rightarrow> v2_config option"
  wv_marshal :: "v2_config \<Rightarrow> string option"
  wv_output :: "string \<Rightarrow> log_output option"
  wv_readFile :: "string \<Rightarrow> string option"
  wv_loadPair :: "string \<Rightarrow> string \<Rightarrow> string option"
  wv_pemCerts :: "string \<Rightarrow> string list"
  wv_bind :: "string set \<Rightarrow> string \<Rightarrow> bool"
  wv_go_http :: bool
  wv_go :: "nat \<Rightarrow> nat \<Rightarrow> bool"

record v2_process =
  wp_server :: v2_server
  wp_logger :: "log_output \<times> int"
  wp_notified :: "sd_state list"
  wp_exit :: "int option"

datatype v2_start = V2Exit int | V2Run v2_process

text \<open>\<^verbatim>\<open>parseFlags\<close>: the path of the config, or the exit code.\<close>

definition v2_parseFlags :: "bool \<Rightarrow> string \<Rightarrow> int + string" where
  "v2_parseFlags flagHelp flagConfig = (if flagHelp \<or> flagConfig = '''' then Inl 1 else Inr flagConfig)"

definition v2_load :: "v2_env \<Rightarrow> v2_config \<Rightarrow> v2_server \<Rightarrow> v2_error option \<times> v2_server" where
  "v2_load e cfg s = v2_LoadConfig (wv_loadPair e) (wv_readFile e) (wv_pemCerts e) cfg s"

definition v2_main_start :: "v2_env \<Rightarrow> log_output \<times> int \<Rightarrow> string \<Rightarrow> v2_start" where
  "v2_main_start e lg0 path =
     (case v2_ReadConfig (wv_json e) (wv_output e) (wv_readFile e) path lg0 of
        (Inl _, _) \<Rightarrow> V2Exit 1
      | (Inr cfg, lg) \<Rightarrow>
          (case v2_load e cfg (v2_NewServer cfg) of
             (Some _, _) \<Rightarrow> V2Exit 1
           | (None, s) \<Rightarrow>
               (case v2_Start (wv_bind e) (wv_go_http e) (wv_go e) s of
                  (Some _, _) \<Rightarrow> V2Exit 1
                | (None, s) \<Rightarrow> V2Run \<lparr>wp_server = s, wp_logger = lg, wp_notified = [SdReady], wp_exit = None\<rparr>)))"

section \<open>Signals and requests\<close>

definition v2_notify :: "sd_state \<Rightarrow> v2_process \<Rightarrow> v2_process" where
  "v2_notify n p = p\<lparr>wp_notified := wp_notified p @ [n]\<rparr>"

definition v2_handle_signal :: "v2_env \<Rightarrow> string \<Rightarrow> signal \<Rightarrow> v2_process \<Rightarrow> v2_process" where
  "v2_handle_signal e path sg p =
     (if sg \<noteq> SIGHUP then (v2_notify SdStopping p)\<lparr>wp_server := v2_Shutdown (wp_server p), wp_exit := Some 0\<rparr>
      else
        let p = v2_notify SdReloading p
        in case v2_ReadConfig (wv_json e) (wv_output e) (wv_readFile e) path (wp_logger p) of
             (Inl _, lg) \<Rightarrow> p\<lparr>wp_logger := lg\<rparr>
           | (Inr cfg, lg) \<Rightarrow>
               let p = p\<lparr>wp_logger := lg\<rparr>
               in (case v2_load e cfg (wp_server p) of
                     (Some _, s) \<Rightarrow> p\<lparr>wp_server := s\<rparr>
                   | (None, s) \<Rightarrow> v2_notify SdReady (p\<lparr>wp_server := s\<rparr>)))"

definition v2_maxContentLength :: int where "v2_maxContentLength = 4194304"

text \<open>The status and the body of the answer; \<^const>\<open>None\<close> is a panic, on a body of unknown length.\<close>

definition v2_config_Post :: "v2_env \<Rightarrow> int \<Rightarrow> string \<Rightarrow> v2_process \<Rightarrow> nat option \<times> v2_process" where
  "v2_config_Post e len body p =
     (if len > v2_maxContentLength then (Some 413, p)
      else if len < 0 then (None, p)
      else if length body < nat len then (Some 400, p)
      else case v2_parseConfig (wv_json e) (wv_output e) (take (nat len) body) (wp_logger p) of
             (Inl _, lg) \<Rightarrow> (Some 400, p\<lparr>wp_logger := lg\<rparr>)
           | (Inr cfg, lg) \<Rightarrow>
               (case v2_load e cfg (wp_server p) of
                  (Some _, s) \<Rightarrow> (Some 500, p\<lparr>wp_logger := lg, wp_server := s\<rparr>)
                | (None, s) \<Rightarrow> (Some 200, p\<lparr>wp_logger := lg, wp_server := s\<rparr>)))"

definition v2_config_Get :: "v2_env \<Rightarrow> v2_process \<Rightarrow> nat \<times> string option" where
  "v2_config_Get e p = (case wv_marshal e (ws_c (wp_server p)) of None \<Rightarrow> (500, None) | Some b \<Rightarrow> (200, Some b))"

definition v2_config_handler :: "v2_env \<Rightarrow> http_method \<Rightarrow> int \<Rightarrow> string \<Rightarrow> v2_process \<Rightarrow> (nat \<times> string option) option \<times> v2_process" where
  "v2_config_handler e meth len body p =
     (case meth of
        GET \<Rightarrow> (Some (v2_config_Get e p), p)
      | POST \<Rightarrow> (case v2_config_Post e len body p of (code, p) \<Rightarrow> (map_option (\<lambda>c. (c, None)) code, p))
      | _ \<Rightarrow> (Some (405, None), p))"

inductive v2_process_step :: "string \<Rightarrow> v2_process \<Rightarrow> v2_process \<Rightarrow> bool" for path where
  signal: "wp_exit p = None \<Longrightarrow> v2_process_step path p (v2_handle_signal e path sg p)"
| request: "wp_exit p = None \<Longrightarrow> v2_config_handler e meth len body p = (r, p') \<Longrightarrow> v2_process_step path p p'"

inductive v2_process_run :: "string \<Rightarrow> v2_process \<Rightarrow> v2_process \<Rightarrow> bool" for path where
  refl: "v2_process_run path p p"
| trans: "v2_process_run path p q \<Longrightarrow> v2_process_step path q p' \<Longrightarrow> v2_process_run path p p'"

section \<open>What a reload reaches\<close>

text \<open>The part of a server that no reload changes.\<close>

definition v2_fixed :: "v2_server \<Rightarrow> v2_tunnel_cfg list \<times> go_duration \<times> v3_tid dict \<times> (v3_tid \<Rightarrow> v2_tunnel)" where
  "v2_fixed s = (wc_Tunnels (ws_c s), ws_timeout s, ws_tunnels s, ws_store s)"

lemma load_fixed: "v2_load e cfg s = (r, s') \<Longrightarrow> v2_fixed s' = v2_fixed s \<and> ws_sockets s' = ws_sockets s"
  by (auto simp: v2_load_def v2_LoadConfig_def v2_fixed_def Let_def split: sum.splits)

lemma signal_fixed:
  "v2_fixed (wp_server (v2_handle_signal e path sg p)) = v2_fixed (wp_server p)
   \<and> (wp_exit (v2_handle_signal e path sg p) = wp_exit p \<longrightarrow> ws_sockets (wp_server (v2_handle_signal e path sg p)) = ws_sockets (wp_server p) \<or> wp_exit p = Some 0)"
proof (cases "sg = SIGHUP")
  case False
  then show ?thesis by (auto simp: v2_handle_signal_def v2_Shutdown_def v2_notify_def v2_fixed_def)
next
  case True
  obtain r lg where c: "v2_ReadConfig (wv_json e) (wv_output e) (wv_readFile e) path (wp_logger p) = (r, lg)" by (metis prod.collapse)
  show ?thesis
  proof (cases r)
    case (Inl x)
    then show ?thesis using c True by (simp add: v2_handle_signal_def v2_notify_def)
  next
    case (Inr cfg)
    obtain q s where l: "v2_load e cfg (wp_server p) = (q, s)" by fastforce
    show ?thesis using c True Inr load_fixed [OF l] by (cases q) (auto simp: v2_handle_signal_def v2_notify_def l)
  qed
qed

lemma request_fixed:
  assumes "v2_config_handler e meth len body p = (r, p')"
  shows "v2_fixed (wp_server p') = v2_fixed (wp_server p) \<and> ws_sockets (wp_server p') = ws_sockets (wp_server p) \<and> wp_exit p' = wp_exit p"
  using assms
  by (auto simp: v2_config_handler_def v2_config_Post_def split: http_method.splits if_splits prod.splits sum.splits option.splits dest!: load_fixed)

text \<open>No signal or request changes the tunnels of a running process of version 2, nor the timeout of its requests, whatever the configs
  that are loaded say, and none opens or closes a listener before the signal that ends the process.\<close>

theorem v2_reload_scope:
  assumes "v2_process_run path p p'"
  shows "v2_fixed (wp_server p') = v2_fixed (wp_server p) \<and> (wp_exit p' = None \<longrightarrow> ws_sockets (wp_server p') = ws_sockets (wp_server p))"
  using assms
proof (induction rule: v2_process_run.induct)
  case (trans p q p')
  from trans.hyps(2) show ?case
  proof (cases rule: v2_process_step.cases)
    case (signal e sg)
    then show ?thesis using trans.IH signal_fixed [of e path sg q] by auto
  next
    case (request e meth len body r)
    then show ?thesis using trans.IH request_fixed by auto
  qed
qed simp

text \<open>A signal with a config that has another timeout and no tunnels.\<close>

definition v2_demo_process :: v2_process where
  "v2_demo_process = \<lparr>wp_server = v2_demo_1, wp_logger = (OutputStdout, 4), wp_notified = [SdReady], wp_exit = None\<rparr>"

definition v2_demo_reload :: v2_env where
  "v2_demo_reload = \<lparr>wv_json = \<lambda>_ c. Some (c\<lparr>wc_ConnectTimeout := 99\<rparr>), wv_marshal = \<lambda>_. None, wv_output = \<lambda>_. Some OutputStdout,
     wv_readFile = \<lambda>_. Some [], wv_loadPair = \<lambda>_ _. None, wv_pemCerts = \<lambda>_. [], wv_bind = \<lambda>_ _. True, wv_go_http = True, wv_go = \<lambda>_ _. True\<rparr>"

theorem v2_reload_scope_witness:
  "ws_timeout (wp_server (v2_handle_signal v2_demo_reload ''c'' SIGHUP v2_demo_process)) = 15 * second
   \<and> wc_ConnectTimeout (ws_c (wp_server (v2_handle_signal v2_demo_reload ''c'' SIGHUP v2_demo_process))) = 99"
proof -
  let ?p = "v2_handle_signal v2_demo_reload ''c'' SIGHUP v2_demo_process"
  have "wp_exit v2_demo_process = None" by (simp add: v2_demo_process_def)
  then have "v2_process_run ''c'' v2_demo_process ?p" by (metis v2_process_run.refl v2_process_run.trans v2_process_step.signal)
  from v2_reload_scope [OF this] have "ws_timeout (wp_server ?p) = ws_timeout v2_demo_1" by (simp add: v2_fixed_def v2_demo_process_def)
  moreover have "ws_timeout v2_demo_1 = 15 * second" by code_simp
  moreover have "wc_ConnectTimeout (ws_c (wp_server ?p)) = 99" by code_simp
  ultimately show ?thesis by simp
qed

end
