(* ===== verification/V2_Api.thy ===== *)
theory V2_Api
  imports V2_App V3_Api
begin

text \<open>
  The HTTP interface of version 2, \<^verbatim>\<open>v2/metric.go\<close>, on top of the config endpoint of \<^verbatim>\<open>V2_App\<close>.  Number formats are left out, a line is
  the numbers it shows; the remembered numbers, the rates and the lines of the tunnels have the types of version 3.
\<close>

section \<open>Memory\<close>

datatype v2_last_gc = V2GcNever | V2GcLast go_duration go_duration

record v2_mem_report =
  wr_nextGC :: "u64 \<times> u64"
  wr_heap :: "u64 \<times> u64"
  wr_stack :: "u64 \<times> u64"
  wr_runtimeSys :: u64
  wr_total :: "u64 \<times> u64"
  wr_lastGC :: "v2_last_gc option"

text \<open>\<open>lastNs\<close> is the time of the last collection in nanoseconds, 0 when there was none; \<open>since\<close> is \<^verbatim>\<open>time.Since\<close>.  The pause is read from
  an array of the runtime with a 32-bit index; an index out of range panics, which is \<^const>\<open>None\<close>.\<close>

definition v2_printMemStats :: "(int \<Rightarrow> go_duration) \<Rightarrow> u64 \<Rightarrow> mem_stats \<Rightarrow> bool \<Rightarrow> v2_mem_report option" where
  "v2_printMemStats since lastNs m lastGC =
     (let r = \<lparr>wr_nextGC = (HeapAlloc m, NextGC m), wr_heap = (HeapInuse m, HeapSys m - HeapReleased m), wr_stack = (StackInuse m, StackSys m),
               wr_runtimeSys = MSpanSys m + MCacheSys m + BuckHashSys m + GCSys m + OtherSys m,
               wr_total = (Sys m - HeapReleased m, HeapReleased m), wr_lastGC = None\<rparr>
      in if \<not> lastGC then Some r
         else if lastNs > 0 then
           map_option (\<lambda>p. r\<lparr>wr_lastGC := Some (V2GcLast (since (to_i64 lastNs)) (to_i64 p))\<rparr>)
             (at_index (PauseNs m) (unat ((NumGC m + 255) mod 256)))
         else Some (r\<lparr>wr_lastGC := Some V2GcNever\<rparr>))"

text \<open>The index is always in range, and after any number of collections it is that of the latest one.\<close>

lemma v2_last_pause:
  assumes "length (PauseNs m) = 256"
  shows "v2_printMemStats since lastNs m b \<noteq> None
     \<and> (0 < lastNs \<longrightarrow> 0 < NumGC m \<longrightarrow>
          map_option wr_lastGC (v2_printMemStats since lastNs m True)
            = Some (Some (V2GcLast (since (to_i64 lastNs)) (to_i64 (PauseNs m ! ((unat (NumGC m) - 1) mod 256))))))"
proof -
  have lt: "unat ((NumGC m + 255) mod 256) < 256" by (simp add: unat_mod)
  have "unat ((NumGC m + 255) mod 256) = (unat (NumGC m) - 1) mod 256" if "0 < NumGC m"
    using gc_index_exact [of 0 "NumGC m"] that by (simp add: gc_index_def unat_gt_0 word_neq_0_conv)
  then show ?thesis using lt assms by (auto simp: v2_printMemStats_def Let_def at_index_def)
qed

section \<open>The statistics page\<close>

definition v2_tunnel_line_of :: "v2_tunnel_stats \<Rightarrow> v3_tunnel_line" where
  "v2_tunnel_line_of t =
     (if ut_LastChanged t \<noteq> 0
      then if ut_NumSessions t > 0 then V3Online (ut_Name t) (ut_LastChanged t) (ut_NumSessions t) (ut_NumStreams t)
           else V3Offline (ut_Name t) (ut_LastChanged t)
      else V3NeverSeen (ut_Name t))"

record v2_stats_page =
  wg_nocache :: bool
  wg_runtime :: "v2_mem_report option option"
  wg_uptime :: go_duration
  wg_stats :: v2_server_stats
  wg_rejected :: u64
  wg_unauthorized :: u64
  wg_failed :: u64
  wg_rates :: "v3_rates option"
  wg_tunnels :: "v3_tunnel_line list"
  wg_events :: "int option"

definition v2_rates_of :: "go_time \<Rightarrow> v2_server_stats \<Rightarrow> v3_api_stats \<Rightarrow> v3_rates" where
  "v2_rates_of now st l =
     \<lparr>vd_time = time_sub now (vl_Timestamp l), vd_served = us_Served st - vl_Served l,
      vd_rejected = (us_Accepted st - us_Served st) - (vl_Accepted l - vl_Served l),
      vd_success = us_ReqSuccess st - vl_ReqSuccess l,
      vd_failed = (us_ReqTotal st - us_ReqSuccess st) - (vl_ReqTotal l - vl_ReqSuccess l),
      vd_rx = us_Rx st - vl_Rx l, vd_tx = us_Tx st - vl_Tx l\<rparr>"

definition v2_remember :: "go_time \<Rightarrow> v2_server_stats \<Rightarrow> v3_api_stats" where
  "v2_remember now st =
     \<lparr>vl_Accepted = us_Accepted st, vl_Served = us_Served st, vl_ReqTotal = us_ReqTotal st, vl_ReqSuccess = us_ReqSuccess st,
      vl_Rx = us_Rx st, vl_Tx = us_Tx st, vl_Timestamp = now\<rparr>"

definition v2_stats_handler ::
  "http_method \<Rightarrow> (string \<Rightarrow> string) option \<Rightarrow> u64 \<Rightarrow> mem_stats \<Rightarrow> go_time \<Rightarrow> go_time \<Rightarrow> v2_server_stats \<Rightarrow> v3_api_stats
    \<Rightarrow> (nat \<times> v2_stats_page option) \<times> v3_api_stats" where
  "v2_stats_handler meth query lastGC m started now st l =
     (if meth \<noteq> GET \<and> meth \<noteq> POST then ((StatusMethodNotAllowed, None), l)
      else case query of
             None \<Rightarrow> ((StatusBadRequest, None), l)
           | Some q \<Rightarrow>
               let stateless = (meth = GET); evlog = query_events q
               in ((StatusOK, Some
                      \<lparr>wg_nocache = stateless,
                       wg_runtime = (if query_bool q ''runtime'' then Some (v2_printMemStats (time_sub now) lastGC m True) else None),
                       wg_uptime = time_sub now started, wg_stats = st,
                       wg_rejected = us_Accepted st - us_Served st, wg_unauthorized = us_Served st - us_Authorized st,
                       wg_failed = us_ReqTotal st - us_ReqSuccess st,
                       wg_rates = (if stateless then None else Some (v2_rates_of now st l)),
                       wg_tunnels = map v2_tunnel_line_of (sort_key ut_Name (us_tunnels st)),
                       wg_events = (if evlog > 0 then Some evlog else None)\<rparr>),
                   if stateless then l else v2_remember now st))"

section \<open>Dispatch\<close>

datatype v2_response =
    V2Status nat | V2ConfigPage nat "string option" | V2StatsPage nat "v2_stats_page option" | V2MemPage "v2_mem_report option"
  | V2StackPage string | V2HandlerPanic

record v2_http_ctx =
  wx_env :: v2_env
  wx_lastGC :: u64
  wx_mem :: mem_stats
  wx_now :: go_time
  wx_started :: go_time
  wx_listener :: "nat \<Rightarrow> u64 \<times> u64"
  wx_flow :: "u64 \<times> u64"
  wx_stack :: "nat \<Rightarrow> string"

definition v2_RunHTTPServer ::
  "v2_http_ctx \<Rightarrow> request \<Rightarrow> v2_process \<times> v3_api_stats \<Rightarrow> v2_response \<times> v2_process \<times> v3_api_stats" where
  "v2_RunHTTPServer x r st =
     (case st of (p, l) \<Rightarrow>
        if req_Path r = ''/healthy'' then (V2Status StatusOK, st)
        else if req_Path r = ''/config'' then
          (case v2_config_handler (wx_env x) (req_Method r) (req_ContentLength r) (req_Body r) p of
             (None, p) \<Rightarrow> (V2HandlerPanic, p, l)
           | (Some (code, body), p) \<Rightarrow> (V2ConfigPage code body, p, l))
        else if req_Path r = ''/stats'' then
          (case v2_stats_handler (req_Method r) (req_Query r) (wx_lastGC x) (wx_mem x) (wx_started x) (wx_now x)
                  (v2_server_Stats (wx_listener x) (wx_flow x) (wp_server p)) l of
             ((code, pg), l) \<Rightarrow> (V2StatsPage code pg, p, l))
        else if req_Path r = ''/gc'' then
          (if req_Method r \<noteq> POST then V2Status StatusMethodNotAllowed
           else V2MemPage (v2_printMemStats (time_sub (wx_now x)) (wx_lastGC x) (wx_mem x) False), st)
        else if req_Path r = ''/stack'' then (V2StackPage (take 65536 (wx_stack x 65536)), st)
        else (V2Status StatusNotFound, st))"

section \<open>What the page shows\<close>

text \<open>The page names every tunnel of the server once, in order; the number of sessions at its top is the sum of those of the lines.\<close>

fun v2_line_sessions :: "v3_tunnel_line \<Rightarrow> nat" where
  "v2_line_sessions (V3Online n t k m) = k"
| "v2_line_sessions _ = 0"

lemma v2_stats_page_tunnels:
  assumes "fst (v2_stats_handler meth q lastGC m started now (v2_server_Stats ls flow s) l) = (StatusOK, Some pg)"
    and "\<forall>t \<in> snd ` set (ws_tunnels s). wn_lastChanged (ws_store s t) = 0 \<longrightarrow> v2_NumSessions s t = 0"
  shows "sorted (map v3_line_name (wg_tunnels pg))
     \<and> mset (map v3_line_name (wg_tunnels pg)) = image_mset (\<lambda>x. wn_name (ws_store s (snd x))) (mset (ws_tunnels s))
     \<and> us_NumSessions (wg_stats pg) = sum_list (map v2_line_sessions (wg_tunnels pg))"
proof -
  define ts where "ts = map (v2_tunnel_Stats s) (map snd (ws_tunnels s))"
  have n: "v3_line_name (v2_tunnel_line_of t) = ut_Name t" for t by (simp add: v2_tunnel_line_of_def)
  have pg: "wg_tunnels pg = map v2_tunnel_line_of (sort_key ut_Name ts)" "us_NumSessions (wg_stats pg) = sum_list (map ut_NumSessions ts)"
    using assms(1) by (auto simp: ts_def v2_stats_handler_def v2_server_Stats_def Let_def status_defs comp_assoc split: if_splits option.splits prod.splits)
  then have names: "map v3_line_name (wg_tunnels pg) = map ut_Name (sort_key ut_Name ts)" by (simp add: n comp_def)
  have k: "v2_line_sessions (v2_tunnel_line_of t) = ut_NumSessions t" if "t \<in> set ts" for t
    using that assms(2) by (fastforce simp: ts_def v2_tunnel_line_of_def v2_tunnel_Stats_def v2_NumSessions_def v2_prune_def Let_def)
  have "mset (map v3_line_name (wg_tunnels pg)) = image_mset (\<lambda>x. wn_name (ws_store s (snd x))) (mset (ws_tunnels s))"
    unfolding names by (simp add: ts_def image_mset.compositionality comp_def v2_tunnel_Stats_def Let_def)
  moreover have "sum_list (map v2_line_sessions (wg_tunnels pg)) = sum_list (map ut_NumSessions (sort_key ut_Name ts))"
    unfolding pg(1) map_map by (rule arg_cong [where f = sum_list], rule map_cong) (simp_all add: k)
  moreover have "sum_list (map ut_NumSessions (sort_key ut_Name ts)) = sum_list (map ut_NumSessions ts)"
    by (metis mset_map mset_sort sum_mset_sum_list)
  ultimately show ?thesis using pg(2) unfolding names by simp
qed

definition option_list :: "'a option \<Rightarrow> 'a list" where
  "option_list x = (case x of None \<Rightarrow> [] | Some a \<Rightarrow> [a])"

text \<open>Successive requests, answered with the pages of the statistics at their times.\<close>

fun v2_polls ::
  "(string \<Rightarrow> string) \<Rightarrow> u64 \<Rightarrow> mem_stats \<Rightarrow> go_time \<Rightarrow> (http_method \<times> go_time \<times> v2_server_stats) list \<Rightarrow> v3_api_stats
    \<Rightarrow> v2_stats_page list \<times> v3_api_stats" where
  "v2_polls q lastGC m started [] l = ([], l)"
| "v2_polls q lastGC m started ((meth, now, st) # rs) l =
     (case v2_stats_handler meth (Some q) lastGC m started now st l of
        ((_, pg), l) \<Rightarrow> (case v2_polls q lastGC m started rs l of (pgs, l) \<Rightarrow> (option_list pg @ pgs, l)))"

text \<open>The differences shown by successive requests add up, modulo \<open>2 ^ 64\<close>, to what was counted between the first and the last POST:
  nothing is shown twice and nothing is lost, whatever GET and refused requests come in between.\<close>

lemma v2_rates_telescope:
  assumes "v2_polls q lastGC m started rs l = (pgs, l')"
  defines "ds \<equiv> concat (map (\<lambda>pg. option_list (wg_rates pg)) pgs)"
  shows "sum_list (map vd_served ds) = vl_Served l' - vl_Served l \<and> sum_list (map vd_success ds) = vl_ReqSuccess l' - vl_ReqSuccess l
     \<and> sum_list (map vd_rejected ds) = (vl_Accepted l' - vl_Served l') - (vl_Accepted l - vl_Served l)
     \<and> sum_list (map vd_rx ds) = vl_Rx l' - vl_Rx l \<and> sum_list (map vd_tx ds) = vl_Tx l' - vl_Tx l"
  using assms(1) unfolding ds_def
proof (induction rs arbitrary: l pgs)
  case (Cons r rs)
  obtain meth now st where r: "r = (meth, now, st)" by (metis prod_cases3)
  obtain c pg u where h: "v2_stats_handler meth (Some q) lastGC m started now st l = ((c, pg), u)" by (metis prod.collapse)
  obtain pgs' where p: "v2_polls q lastGC m started rs u = (pgs', l')" "pgs = option_list pg @ pgs'"
    using Cons.prems by (auto simp: r h split: prod.splits)
  have "(u = l \<and> (\<forall>x. pg = Some x \<longrightarrow> wg_rates x = None)) \<or> (u = v2_remember now st \<and> (\<exists>x. pg = Some x \<and> wg_rates x = Some (v2_rates_of now st l)))"
    using h by (cases meth) (auto simp: v2_stats_handler_def Let_def)
  then show ?case using Cons.IH [OF p(1)]
    by (cases pg) (auto simp: p(2) option_list_def v2_rates_of_def v2_remember_def)
qed simp

text \<open>Only the config endpoint changes the process, and only a POST to the statistics changes what is remembered.\<close>

lemma v2_http_pure:
  assumes "v2_RunHTTPServer x r (p, l) = (res, p', l')"
  shows "(req_Path r \<noteq> ''/config'' \<longrightarrow> p' = p) \<and> (l' \<noteq> l \<longrightarrow> req_Path r = ''/stats'' \<and> req_Method r = POST)"
  using assms by (auto simp: v2_RunHTTPServer_def v2_stats_handler_def Let_def split: if_splits prod.splits option.splits)

end
