(* ===== verification/Spec2Isabelle.thy ===== *)
theory Spec2Isabelle
  imports Prelude Eventlog Context_Mgr Latency Config Forwarder Tunnel Tunnel_Inv
    Mux_Config Mux_Limiter Server Server_Inv Server_Reload Server_Serve
    H2_Codec H2_Stream H2_Support H2_Session H2_Connect Inbound
    H3_Handshake H3_Session H3_Connect Log_Bridge Api Cert App
    Session_Count V3_Config V3_Proto V3_Forwarder V3_Tunnel V3_Handler V3_Server V3_App V3_Api V3_Cert
    V2_Config V2_Forwarder V2_Server V2_App V2_Api
begin

text \<open>
  tlswrapper wraps TCP traffic in multiplexed mutual-TLS sessions.  This development models version 4 of the program, the Go
  sources under \<^verbatim>\<open>src/v4\<close>, and of the older versions 3 and 2 under \<^verbatim>\<open>src/v3\<close> and \<^verbatim>\<open>src/v2\<close>, which the repository still carries, and
  proves what makes their parts correct.  File names below are relative to \<^verbatim>\<open>src/v4\<close> unless said otherwise.

  \<^bold>\<open>How the program works.\<close>  A \<^emph>\<open>server\<close> accepts sessions of other peers on a mux listener and dials sessions to them through
  \<^emph>\<open>tunnels\<close>; each session is multiplexed by one of two transports, \<^emph>\<open>h2mux\<close> (gRPC over TLS) and \<^emph>\<open>h3mux\<close> (QUIC).  A local
  connection is handed to a tunnel, which opens a stream on a session of its peer; the other side dials the configured target
  and a \<^emph>\<open>forwarder\<close> copies both directions.  A limiter throttles new sessions, a config can be reloaded at any time by a
  signal or over HTTP, and an HTTP interface reports statistics, metrics and recent events.

  \<^bold>\<open>Theories and the code they model.\<close>
  \<^item> \<^verbatim>\<open>Prelude\<close>: machine integers, Go times and strings, \<^verbatim>\<open>exec\<close> (a schedule of events) and the locale \<^verbatim>\<open>invariant_machine\<close>
    that most components instantiate.
  \<^item> \<^verbatim>\<open>Eventlog\<close> (\<^verbatim>\<open>eventlog/eventlog.go\<close>): the ring of recent events, refining a bounded list of merged messages.
  \<^item> \<^verbatim>\<open>Context_Mgr\<close> (\<^verbatim>\<open>context.go\<close>): contexts with timeouts and their cancellation at shutdown.
  \<^item> \<^verbatim>\<open>Latency\<close> (\<^verbatim>\<open>utils.go\<close>): the ring of stream latencies and its percentiles, with float64 rounding written out.
  \<^item> \<^verbatim>\<open>Config\<close> (\<^verbatim>\<open>config/*.go\<close>): the config file, loading, validation and clamping, derived values, the TLS config.
  \<^item> \<^verbatim>\<open>Forwarder\<close> (\<^verbatim>\<open>forwarder/forwarder.go\<close>): every atomic operation of \<^verbatim>\<open>Start\<close>, the two copying goroutines and \<^verbatim>\<open>Close\<close>.
  \<^item> \<^verbatim>\<open>Tunnel\<close>, \<^verbatim>\<open>Tunnel_Inv\<close> (\<^verbatim>\<open>tunnel.go\<close>, \<^verbatim>\<open>mux/session.go\<close>, \<^verbatim>\<open>mux/metrics.go\<close>): tunnels and sessions in one store, dialing,
    redialing, idle eviction, finalization; then the invariant over all interleavings.
  \<^item> \<^verbatim>\<open>Mux_Config\<close> (\<^verbatim>\<open>mux/h2mux/config.go\<close>, \<^verbatim>\<open>mux/h3mux/config.go\<close>) and \<^verbatim>\<open>Mux_Limiter\<close> (\<^verbatim>\<open>muxlimiter.go\<close>).
  \<^item> \<^verbatim>\<open>Server\<close>, \<^verbatim>\<open>Server_Inv\<close>, \<^verbatim>\<open>Server_Reload\<close>, \<^verbatim>\<open>Server_Serve\<close> (\<^verbatim>\<open>server.go\<close>, \<^verbatim>\<open>handler.go\<close>): listeners, reconciliation of
    tunnels, reload, start and shutdown; the listener invariant; what reloads do; accept loops, stream handlers, statistics.
  \<^item> \<^verbatim>\<open>H2_Codec\<close>, \<^verbatim>\<open>H2_Stream\<close>, \<^verbatim>\<open>H2_Support\<close>, \<^verbatim>\<open>H2_Session\<close>, \<^verbatim>\<open>H2_Connect\<close> (\<^verbatim>\<open>mux/h2mux\<close>): chunk codec, streams, buffer pool,
    statistics and hello exchange, sessions of both sides, connection setup.
  \<^item> \<^verbatim>\<open>H3_Handshake\<close>, \<^verbatim>\<open>H3_Session\<close>, \<^verbatim>\<open>H3_Connect\<close> (\<^verbatim>\<open>mux/h3mux\<close>), and \<^verbatim>\<open>Inbound\<close>: what both transports share of an accepted
    session before its handshake.  \<^verbatim>\<open>Log_Bridge\<close>: the adapters \<^verbatim>\<open>grpclog.go\<close> and \<^verbatim>\<open>quiclog.go\<close>.
  \<^item> \<^verbatim>\<open>Api\<close> (\<^verbatim>\<open>api.go\<close>): the HTTP interface, on top of the server's statistics and reload.
  \<^item> \<^verbatim>\<open>Cert\<close> (\<^verbatim>\<open>cert.go\<close>): generating key pairs, with one goroutine per name.
  \<^item> \<^verbatim>\<open>App\<close> (\<^verbatim>\<open>app.go\<close>): start-up, the loop over signals and the whole process, composed of the server, the HTTP interface and
    the logger.
  \<^item> \<^verbatim>\<open>Session_Count\<close>: sessions registered in the maps of several tunnels under one counter, the contract that the tunnels of
    versions 2 and 3 share, as a locale that both interpret.
  \<^item> \<^verbatim>\<open>V3_Config\<close>, \<^verbatim>\<open>V3_Proto\<close>, \<^verbatim>\<open>V3_Forwarder\<close>, \<^verbatim>\<open>V3_Tunnel\<close>, \<^verbatim>\<open>V3_Handler\<close>, \<^verbatim>\<open>V3_Server\<close> (\<^verbatim>\<open>src/v3\<close>: \<^verbatim>\<open>config\<close>, \<^verbatim>\<open>proto\<close>,
    \<^verbatim>\<open>forwarder\<close>, \<^verbatim>\<open>tunnel.go\<close>, \<^verbatim>\<open>server.go\<close>, \<^verbatim>\<open>handler.go\<close>): version 3, whose peers are named in a map of the config and whose
    sessions are multiplexed by yamux.  \<^verbatim>\<open>V3_App\<close> (\<^verbatim>\<open>app.go\<close>, the config endpoint of \<^verbatim>\<open>metric.go\<close>): the process, with the maps that
    its configs share; \<^verbatim>\<open>V3_Api\<close> (\<^verbatim>\<open>metric.go\<close>): its statistics pages; \<^verbatim>\<open>V3_Cert\<close> (\<^verbatim>\<open>utils.go\<close>): its certificates.
  \<^item> \<^verbatim>\<open>V2_Config\<close> (\<^verbatim>\<open>src/v2\<close>: \<^verbatim>\<open>config.go\<close>, \<^verbatim>\<open>proto\<close>), \<^verbatim>\<open>V2_Forwarder\<close> (\<^verbatim>\<open>forwarder\<close>), \<^verbatim>\<open>V2_Server\<close> (\<^verbatim>\<open>tunnel.go\<close>, \<^verbatim>\<open>server.go\<close>,
    \<^verbatim>\<open>handler.go\<close>), \<^verbatim>\<open>V2_App\<close> (\<^verbatim>\<open>cmd/tlswrapper/main.go\<close>, the config endpoint of \<^verbatim>\<open>metric.go\<close>) and \<^verbatim>\<open>V2_Api\<close> (\<^verbatim>\<open>metric.go\<close>): version 2,
    whose tunnels are a list in the config and whose peers exchange one identity.
  \<^item> this theory: properties that span both transports and the tunnel.

  \<^bold>\<open>How code becomes definitions.\<close>  Structs are records, enumerations and errors datatypes, 32- and 64-bit counters words, Go's
  \<^verbatim>\<open>int\<close> an \<open>int\<close> with \<^verbatim>\<open>wrap64\<close> where it can overflow.  A function under a mutex is one step; what happens between two locks
  or atomic operations can be interleaved with anything.  Goroutines are entries of a list with a program counter (forwarder,
  waiters of a session, certificate batch) or events of a schedule (tunnel, server, transports).  Results of packages that are
  not under \<^verbatim>\<open>src\<close> (gRPC, quic-go, protobuf, Prometheus, the goroutine group) and of cryptography are arguments of the steps or
  parameters with their documented laws as named assumptions; each such theorem has a witness with concrete functions.

  \<^bold>\<open>What is shown.\<close>  Every interleaving delivers each connection to exactly one owner (\<^verbatim>\<open>H2_Session\<close>, \<^verbatim>\<open>Server_Serve\<close>); the forwarder
  reports, closes and counts each pair once, keeps its limit and drains; sessions are counted exactly, installed in no stopped
  tunnel and finalized once; no socket is leaked through start, reloads and shutdown, and so for the whole process under any
  signals and requests; a validated config is in range and reaches the transports unchanged; TLS is mutual; codec and streams
  round-trip; handshakes agree, run once and are bounded; the limiter, the rings, the buffer pool and the percentiles meet their
  specifications; the HTTP interface answers truthfully, its pages list what they should and a scrape cannot panic; generated
  key pairs match and can be read back; notifications to systemd follow its protocol.  Theorems that are not part of the
  manifest document corner cases found on the way (for instance \<^verbatim>\<open>Tunnel_Inv.redial_loop_stalls\<close> and
  \<^verbatim>\<open>Cert.duplicate_names_mismatch\<close>).

  Of version 3 it is shown that its hello exchange agrees and its forwarder keeps and returns its slots in every interleaving, and
  exactly how far its server falls short of what version 4 guarantees: which sessions its counter counts, which tunnels exist
  after a reload, that a listening peer cannot be reloaded, that reloads never forget a peer, that a rejected config changes the
  running one, what its config endpoint does with other methods and unannounced lengths, where its PEM search panics, and which
  connections are dropped.  Of version 2: what its session counter counts in every interleaving, when it silently runs without TLS,
  that its handshake agrees, that its forwarder refines that of version 3, which identities a started server knows, and what a reload can change.

  \<^bold>\<open>Termination, fuel and bounds.\<close>  Loops are structural recursion or have termination proofs; \<^verbatim>\<open>Cert.parsePEM\<close> and \<^verbatim>\<open>V3_Cert.v3_parsePEM\<close> are
  partial and proved to return.  There is no fuel.  \<^verbatim>\<open>H2_Session.connections_exactly_once\<close> assumes fewer than \<open>2 ^ 64\<close> opens on one session, so that
  request ids do not repeat; the garbage collector's rings have the 256 entries of Go's runtime.

  \<^bold>\<open>Not modelled.\<close>  The bytes copied by the forwarder and the pool of its buffers; socket options, deadlines of sockets and the waiting
  time of \<^verbatim>\<open>Shutdown\<close>; number formats and the program's own log messages; the generated protobuf
  code; registration of the command-line flags.  The context manager and the event log of versions 2 and 3 have the code of version
  4, up to the time format of the log, which is a parameter, and are not modelled a second time.
\<close>

section \<open>Accepted sessions of both transports\<close>

text \<open>(C13) On a session accepted by either listener, the server-side handshake runs at most once however many goroutines call
  \<^verbatim>\<open>Handshake\<close>, \<^verbatim>\<open>Open\<close>, \<^verbatim>\<open>Accept\<close> and \<^verbatim>\<open>Close\<close>, every caller gets the outcome of that one handshake, and after a failed
  handshake the connection is closed, so that \<^verbatim>\<open>serveMuxListener\<close> may drop the session without closing it.\<close>

theorem handshake_runs_once:
  "(exec h2_doHandshake es inbound_init = Some s \<longrightarrow>
      i_runs s \<le> 1 \<and> (\<forall>x \<in> set (i_results s). outcome s = Some (snd x)) \<and> (\<forall>e. outcome s = Some (Inl e) \<longrightarrow> i_connClosed s))
   \<and> (exec h3_doHandshake es' inbound_init = Some s' \<longrightarrow>
      i_runs s' \<le> 1 \<and> (\<forall>x \<in> set (i_results s'). outcome s' = Some (snd x)) \<and> (\<forall>e. outcome s' = Some (Inl e) \<longrightarrow> i_connClosed s'))"
  unfolding h2_doHandshake_def h3_doHandshake_def using h2_inbound.at_most_once h3_inbound.at_most_once by blast

text \<open>A call of \<^verbatim>\<open>Open\<close> or \<^verbatim>\<open>Accept\<close> that got through the handshake always reaches the same session, and an accessor that answers anything but
  its default answers for that session.\<close>

lemma inbound_delegates:
  assumes "exec h2_doHandshake es inbound_init = Some s" and "exec h2_doHandshake fs s = Some t"
    and "exec h3_doHandshake es' inbound_init = Some s'" and "exec h3_doHandshake fs' s' = Some t'"
  shows "(h2_inb_Open op s = Some r \<longrightarrow> h2_inb_Open op t = Some r)
     \<and> (h2_inb_PeerIdentity s \<noteq> '''' \<longrightarrow> h2_inb_Open (\<lambda>p. Inr (fst p)) t = Some (Inr (h2_inb_PeerIdentity s)))
     \<and> (h3_inb_Open op' s' = Some r' \<longrightarrow> h3_inb_Open op' t' = Some r')
     \<and> (h3_inb_PeerIdentity s' \<noteq> '''' \<longrightarrow> h3_inb_Open (\<lambda>p. Inr (fst p)) t' = Some (Inr (h3_inb_PeerIdentity s')))"
proof -
  have id: "h2_inb_PeerIdentity s = inb_get fst '''' s" "h3_inb_PeerIdentity s' = inb_get fst '''' s'"
    by (simp_all add: h2_inb_PeerIdentity_def h3_inb_PeerIdentity_def inb_get_def)
  note e = assms [unfolded h2_doHandshake_def h3_doHandshake_def]
  show ?thesis unfolding id h2_inb_Open_def h3_inb_Open_def
    by (intro conjI impI h2_inbound.call_stable [OF e(1) _ e(2)] h3_inbound.call_stable [OF e(3) _ e(4)]
        h2_inbound.get_answers [OF e(1)] h3_inbound.get_answers [OF e(3)])
qed

text \<open>Three callers, one of which arrives when the handshake has already failed.\<close>

definition three_callers :: "(string \<times> bool, 'e) inbound_event list \<Rightarrow> (string \<times> bool, 'e) inbound_event list" where
  "three_callers finish = [IEnter 0, IEnter 1, ILock 1] @ finish @ [ILock 0, IEnter 2]"

theorem handshake_runs_once_witness:
  "\<exists>s s'. exec h2_doHandshake (three_callers [IFinish (Inl ErrCtx)]) inbound_init = Some s
     \<and> exec h3_doHandshake (three_callers [IFinish (Inr (''peer'', False))]) inbound_init = Some s'
     \<and> i_results s = [(1, Inl ErrCtx), (0, Inl ErrCtx), (2, Inl ErrCtx)] \<and> i_connClosed s \<and> i_runs s' \<le> 1 \<and> length (i_results s') = 3"
proof -
  obtain s where s: "exec h2_doHandshake (three_callers [IFinish (Inl ErrCtx)]) inbound_init = Some s"
    "i_results s = [(1, Inl ErrCtx), (0, Inl ErrCtx), (2, Inl ErrCtx)]" "outcome s = Some (Inl ErrCtx)"
    by (simp add: three_callers_def h2_doHandshake_def h2_store_def inbound_init_def outcome_def add_result_def)
  obtain s' where s': "exec h3_doHandshake (three_callers [IFinish (Inr (''peer'', False))]) inbound_init = Some s'" "length (i_results s') = 3"
    by (simp add: three_callers_def h3_doHandshake_def h3_store_def inbound_init_def outcome_def add_result_def)
  show ?thesis using handshake_runs_once [of _ s _ s'] s s' by blast
qed

section \<open>The transports implement the sessions the tunnels use\<close>

definition h3_view :: "h3_sess \<Rightarrow> session \<Rightarrow> session" where
  "h3_view q x = x\<lparr>sess_closed := q_closed q, sess_metrics := Some (q_metrics q), idle_sig := q_idle q\<rparr>"



end
